(* ===== verification/Cpp_Base.thy ===== *)
theory Cpp_Base
  imports Main "HOL-Library.Word"
begin

unbundle bit_operations_syntax

text \<open>
  The prelude: what the components share of C++ and of its standard library.
  Machine integers are words or, where the code mixes widths and signs, integers with the
  narrowing written out; a \<open>std::string\<close> of bytes is a list of \<open>8 word\<close> (binary frames) or of
  \<open>char\<close> (text); an exception, a read outside of a container and a division by zero are values
  of the sum type \<open>res\<close>.
\<close>

section \<open>Integers\<close>

type_synonym u8 = "8 word"
type_synonym u16 = "16 word"
type_synonym u32 = "32 word"
type_synonym bytes = "u8 list"

text \<open>C++ division and remainder truncate towards zero.\<close>

definition tdiv :: "int \<Rightarrow> int \<Rightarrow> int" where
  "tdiv a b = sgn a * sgn b * (\<bar>a\<bar> div \<bar>b\<bar>)"

definition tmod :: "int \<Rightarrow> int \<Rightarrow> int" where
  "tmod a b = a - b * tdiv a b"

text \<open>Storing a wider integer in an \<open>int\<close> keeps its low 32 bits, read as two's complement.\<close>

definition to_i32 :: "int \<Rightarrow> int" where
  "to_i32 x = (x + 2147483648) mod 4294967296 - 2147483648"

lemma tdiv_nonneg: "0 \<le> a \<Longrightarrow> 0 \<le> b \<Longrightarrow> tdiv a b = a div b"
  by (cases "a = 0"; cases "b = 0") (auto simp: tdiv_def)

lemma tdiv_0 [simp]: "tdiv 0 b = 0"
  by (simp add: tdiv_def)

lemma tdiv_less_zero: "0 \<le> a \<Longrightarrow> a < b \<Longrightarrow> tdiv a b = 0"
  by (simp add: tdiv_nonneg)

lemma to_i32_id: "-2147483648 \<le> x \<Longrightarrow> x < 2147483648 \<Longrightarrow> to_i32 x = x"
  by (simp add: to_i32_def)

lemma to_i32_range: "-2147483648 \<le> to_i32 x" "to_i32 x < 2147483648"
  by (auto simp: to_i32_def)

text \<open>A byte has no bit from position 8 on; equality of words is equality of their bits.\<close>

lemma u8_bit_ge [simp]: "8 \<le> n \<Longrightarrow> \<not> bit (x::u8) n"
  using bit_imp_le_length [of x n] by auto

lemma u8_unat_less [simp]: "unat (x::u8) < 256"
  using unsigned_less [of x] by simp

lemma xor_zero_iff: "(a::'a::len word) XOR b = 0 \<longleftrightarrow> a = b"
  by (auto simp: bit_eq_iff bit_simps)

lemma xor_right_cancel: "(a::'a::len word) XOR c = b XOR c \<longleftrightarrow> a = b"
  by (auto simp: bit_eq_iff bit_simps)

lemma xor_move: "(a::'a::len word) XOR b = c \<longleftrightarrow> a = c XOR b"
  by (auto simp: bit_eq_iff bit_simps)

section \<open>Failures\<close>

text \<open>
  How an operation can fail: a \<open>TError\<close> is thrown (with its code), the library throws
  \<open>std::out_of_range\<close>, an element outside of a container is read (undefined behaviour), an
  integer is divided by zero (undefined behaviour), a buffer is used under another element
  type than it was made for (undefined behaviour), a loop does not end, the library throws
  \<open>std::length_error\<close>, or a floating-point value does not fit the integer it is converted to
  (undefined behaviour).
\<close>

datatype fault = TError nat | OutOfRange | UndefRead | DivZero | BadCast | Diverge | LengthError | Overflow

type_synonym 'a res = "fault + 'a"

definition rbind :: "'a res \<Rightarrow> ('a \<Rightarrow> 'b res) \<Rightarrow> 'b res" where
  "rbind r f = (case r of Inl e \<Rightarrow> Inl e | Inr x \<Rightarrow> f x)"

lemma rbind_simps [simp]: "rbind (Inl e) f = Inl e" "rbind (Inr x) f = f x"
  by (simp_all add: rbind_def)

lemma rbind_Inr: "rbind r f = Inr y \<longleftrightarrow> (\<exists>x. r = Inr x \<and> f x = Inr y)"
  by (cases r) auto

text \<open>Indexing a container with an \<open>int\<close>: a negative or too large index is undefined.\<close>

definition vset :: "'a list \<Rightarrow> int \<Rightarrow> 'a \<Rightarrow> 'a list res" where
  "vset xs i x = (if 0 \<le> i \<and> i < int (length xs) then Inr (xs[nat i := x]) else Inl UndefRead)"

definition vat :: "'a list \<Rightarrow> int \<Rightarrow> 'a res" where
  "vat xs i = (if 0 \<le> i \<and> i < int (length xs) then Inr (xs ! nat i) else Inl UndefRead)"

lemma vat_ok: "0 \<le> i \<Longrightarrow> i < int (length xs) \<Longrightarrow> vat xs i = Inr (xs ! nat i)"
  by (simp add: vat_def)

lemma vat_hd: "xs \<noteq> [] \<Longrightarrow> vat xs 0 = Inr (hd xs)"
  by (simp add: vat_def hd_conv_nth)

lemma vat_last: "xs \<noteq> [] \<Longrightarrow> vat xs (int (length xs) - 1) = Inr (last xs)"
  by (cases xs rule: rev_cases) (auto simp: vat_def nth_append nat_diff_distrib)

lemma vset_ok: "0 \<le> i \<Longrightarrow> i < int (length xs) \<Longrightarrow> vset xs i x = Inr (xs[nat i := x])"
  by (simp add: vset_def)

lemma vat_nat [simp]: "i < length xs \<Longrightarrow> vat xs (int i) = Inr (xs ! i)"
  by (simp add: vat_def)

end
