(* ===== verification/Modbus_Frame.thy ===== *)
theory Modbus_Frame
  imports Cpp_Base
begin

text \<open>
  The checksums and the ASCII transcoding of the ModBus protocol module
  (\<^verbatim>\<open>src/src/moduls/daq/ModBus/modbus_prt.cpp\<close>, \<open>TProt::CRC16\<close>, \<open>TProt::LRC\<close>,
  \<open>TProt::DataToASCII\<close>, \<open>TProt::ASCIIToData\<close>), the bitwise reference of the checksum and the
  facts about the detection of corrupted frames.
\<close>

section \<open>The checksum of the RTU frames\<close>

definition CRCHi :: "u8 list" where
  "CRCHi = [
   0x00, 0xC1, 0x81, 0x40, 0x01, 0xC0, 0x80, 0x41, 0x01, 0xC0, 0x80, 0x41, 0x00, 0xC1, 0x81, 0x40,
   0x01, 0xC0, 0x80, 0x41, 0x00, 0xC1, 0x81, 0x40, 0x00, 0xC1, 0x81, 0x40, 0x01, 0xC0, 0x80, 0x41,
   0x01, 0xC0, 0x80, 0x41, 0x00, 0xC1, 0x81, 0x40, 0x00, 0xC1, 0x81, 0x40, 0x01, 0xC0, 0x80, 0x41,
   0x00, 0xC1, 0x81, 0x40, 0x01, 0xC0, 0x80, 0x41, 0x01, 0xC0, 0x80, 0x41, 0x00, 0xC1, 0x81, 0x40,
   0x01, 0xC0, 0x80, 0x41, 0x00, 0xC1, 0x81, 0x40, 0x00, 0xC1, 0x81, 0x40, 0x01, 0xC0, 0x80, 0x41,
   0x00, 0xC1, 0x81, 0x40, 0x01, 0xC0, 0x80, 0x41, 0x01, 0xC0, 0x80, 0x41, 0x00, 0xC1, 0x81, 0x40,
   0x00, 0xC1, 0x81, 0x40, 0x01, 0xC0, 0x80, 0x41, 0x01, 0xC0, 0x80, 0x41, 0x00, 0xC1, 0x81, 0x40,
   0x01, 0xC0, 0x80, 0x41, 0x00, 0xC1, 0x81, 0x40, 0x00, 0xC1, 0x81, 0x40, 0x01, 0xC0, 0x80, 0x41,
   0x01, 0xC0, 0x80, 0x41, 0x00, 0xC1, 0x81, 0x40, 0x00, 0xC1, 0x81, 0x40, 0x01, 0xC0, 0x80, 0x41,
   0x00, 0xC1, 0x81, 0x40, 0x01, 0xC0, 0x80, 0x41, 0x01, 0xC0, 0x80, 0x41, 0x00, 0xC1, 0x81, 0x40,
   0x00, 0xC1, 0x81, 0x40, 0x01, 0xC0, 0x80, 0x41, 0x01, 0xC0, 0x80, 0x41, 0x00, 0xC1, 0x81, 0x40,
   0x01, 0xC0, 0x80, 0x41, 0x00, 0xC1, 0x81, 0x40, 0x00, 0xC1, 0x81, 0x40, 0x01, 0xC0, 0x80, 0x41,
   0x00, 0xC1, 0x81, 0x40, 0x01, 0xC0, 0x80, 0x41, 0x01, 0xC0, 0x80, 0x41, 0x00, 0xC1, 0x81, 0x40,
   0x01, 0xC0, 0x80, 0x41, 0x00, 0xC1, 0x81, 0x40, 0x00, 0xC1, 0x81, 0x40, 0x01, 0xC0, 0x80, 0x41,
   0x01, 0xC0, 0x80, 0x41, 0x00, 0xC1, 0x81, 0x40, 0x00, 0xC1, 0x81, 0x40, 0x01, 0xC0, 0x80, 0x41,
   0x00, 0xC1, 0x81, 0x40, 0x01, 0xC0, 0x80, 0x41, 0x01, 0xC0, 0x80, 0x41, 0x00, 0xC1, 0x81, 0x40]"

definition CRCLo :: "u8 list" where
  "CRCLo = [
   0x00, 0xC0, 0xC1, 0x01, 0xC3, 0x03, 0x02, 0xC2, 0xC6, 0x06, 0x07, 0xC7, 0x05, 0xC5, 0xC4, 0x04,
   0xCC, 0x0C, 0x0D, 0xCD, 0x0F, 0xCF, 0xCE, 0x0E, 0x0A, 0xCA, 0xCB, 0x0B, 0xC9, 0x09, 0x08, 0xC8,
   0xD8, 0x18, 0x19, 0xD9, 0x1B, 0xDB, 0xDA, 0x1A, 0x1E, 0xDE, 0xDF, 0x1F, 0xDD, 0x1D, 0x1C, 0xDC,
   0x14, 0xD4, 0xD5, 0x15, 0xD7, 0x17, 0x16, 0xD6, 0xD2, 0x12, 0x13, 0xD3, 0x11, 0xD1, 0xD0, 0x10,
   0xF0, 0x30, 0x31, 0xF1, 0x33, 0xF3, 0xF2, 0x32, 0x36, 0xF6, 0xF7, 0x37, 0xF5, 0x35, 0x34, 0xF4,
   0x3C, 0xFC, 0xFD, 0x3D, 0xFF, 0x3F, 0x3E, 0xFE, 0xFA, 0x3A, 0x3B, 0xFB, 0x39, 0xF9, 0xF8, 0x38,
   0x28, 0xE8, 0xE9, 0x29, 0xEB, 0x2B, 0x2A, 0xEA, 0xEE, 0x2E, 0x2F, 0xEF, 0x2D, 0xED, 0xEC, 0x2C,
   0xE4, 0x24, 0x25, 0xE5, 0x27, 0xE7, 0xE6, 0x26, 0x22, 0xE2, 0xE3, 0x23, 0xE1, 0x21, 0x20, 0xE0,
   0xA0, 0x60, 0x61, 0xA1, 0x63, 0xA3, 0xA2, 0x62, 0x66, 0xA6, 0xA7, 0x67, 0xA5, 0x65, 0x64, 0xA4,
   0x6C, 0xAC, 0xAD, 0x6D, 0xAF, 0x6F, 0x6E, 0xAE, 0xAA, 0x6A, 0x6B, 0xAB, 0x69, 0xA9, 0xA8, 0x68,
   0x78, 0xB8, 0xB9, 0x79, 0xBB, 0x7B, 0x7A, 0xBA, 0xBE, 0x7E, 0x7F, 0xBF, 0x7D, 0xBD, 0xBC, 0x7C,
   0xB4, 0x74, 0x75, 0xB5, 0x77, 0xB7, 0xB6, 0x76, 0x72, 0xB2, 0xB3, 0x73, 0xB1, 0x71, 0x70, 0xB0,
   0x50, 0x90, 0x91, 0x51, 0x93, 0x53, 0x52, 0x92, 0x96, 0x56, 0x57, 0x97, 0x55, 0x95, 0x94, 0x54,
   0x9C, 0x5C, 0x5D, 0x9D, 0x5F, 0x9F, 0x9E, 0x5E, 0x5A, 0x9A, 0x9B, 0x5B, 0x99, 0x59, 0x58, 0x98,
   0x88, 0x48, 0x49, 0x89, 0x4B, 0x8B, 0x8A, 0x4A, 0x4E, 0x8E, 0x8F, 0x4F, 0x8D, 0x4D, 0x4C, 0x8C,
   0x44, 0x84, 0x85, 0x45, 0x87, 0x47, 0x46, 0x86, 0x82, 0x42, 0x43, 0x83, 0x41, 0x81, 0x80, 0x40]"

text \<open>The loop of \<open>TProt::CRC16\<close> over the bytes, with its variables \<open>hi\<close> and \<open>lo\<close>.\<close>

fun crc_loop :: "u8 \<Rightarrow> u8 \<Rightarrow> bytes \<Rightarrow> u8 \<times> u8" where
  "crc_loop hi lo [] = (hi, lo)"
| "crc_loop hi lo (b # bs) =
     (let index = unat (lo XOR b) in crc_loop (CRCLo ! index) (hi XOR CRCHi ! index) bs)"

definition CRC16 :: "bytes \<Rightarrow> u16" where
  "CRC16 mbap = (case crc_loop 0xFF 0xFF mbap of (hi, lo) \<Rightarrow> ucast hi OR push_bit 8 (ucast lo))"

definition LRC :: "bytes \<Rightarrow> u8" where
  "LRC mbap = - foldl (+) 0 mbap"

section \<open>The hexadecimal transcoding of the ASCII frames\<close>

definition hex_digit :: "u8 \<Rightarrow> u8" where
  "hex_digit ch = ch + (if ch \<le> 9 then 0x30 else 0x41 - 10)"

fun DataToASCII :: "bytes \<Rightarrow> bytes" where
  "DataToASCII [] = []"
| "DataToASCII (c # cs) =
     hex_digit (drop_bit 4 (c AND 0xF0)) # hex_digit (c AND 0x0F) # DataToASCII cs"

definition hex_value :: "u8 \<Rightarrow> u8" where
  "hex_value ch =
     (if 0x30 \<le> ch \<and> ch \<le> 0x39 then ch - 0x30
      else if 0x41 \<le> ch \<and> ch \<le> 0x46 then ch - (0x41 - 10) else 0)"

text \<open>An odd last symbol is left out, as the bound \<open>in.size()&(~0x01)\<close> of the loop does.\<close>

fun ASCIIToData :: "bytes \<Rightarrow> bytes" where
  "ASCIIToData (a # b # cs) = (push_bit 4 (hex_value a) OR hex_value b) # ASCIIToData cs"
| "ASCIIToData _ = []"

section \<open>The acceptance tests of received frames and the reference checksum\<close>

definition crc_bit :: "u16 \<Rightarrow> u16" where
  "crc_bit c = (if bit c 0 then drop_bit 1 c XOR 0xA001 else drop_bit 1 c)"

definition crc_byte :: "u16 \<Rightarrow> u16" where
  "crc_byte c = crc_bit (crc_bit (crc_bit (crc_bit (crc_bit (crc_bit (crc_bit (crc_bit c)))))))"

fun crc_ref :: "u16 \<Rightarrow> bytes \<Rightarrow> u16" where
  "crc_ref c [] = c"
| "crc_ref c (b # bs) = crc_ref (crc_byte (c XOR ucast b)) bs"

definition crc_join :: "u8 \<Rightarrow> u8 \<Rightarrow> u16" where
  "crc_join hi lo = push_bit 8 (ucast hi) OR ucast lo"

definition crc16_standard :: "bytes \<Rightarrow> u16" where
  "crc16_standard m = crc_ref 0xFFFF m"

text \<open>The acceptance test of a received RTU frame, as \<open>TProt::outMess\<close> and \<open>TProtIn::mess\<close> do it.\<close>

definition rtu_crc_ok :: "bytes \<Rightarrow> bool" where
  "rtu_crc_ok rez \<longleftrightarrow>
     CRC16 (take (length rez - 2) rez) =
       push_bit 8 (ucast (rez ! (length rez - 2))) + ucast (rez ! (length rez - 1))"

text \<open>The acceptance test of an ASCII frame, on its decoded bytes, when it has at least one.\<close>

definition ascii_lrc_ok :: "bytes \<Rightarrow> bool" where
  "ascii_lrc_ok rezEnc \<longleftrightarrow> LRC (butlast rezEnc) = last rezEnc"

section \<open>The table-driven checksum against the bitwise one\<close>

lemma crc_bit_numeral:
  "crc_bit 0 = 0" "crc_bit 1 = 0xA001"
  "crc_bit (numeral (Num.Bit0 n)) = drop_bit 1 (numeral (Num.Bit0 n))"
  "crc_bit (numeral (Num.Bit1 n)) = drop_bit 1 (numeral (Num.Bit1 n)) XOR 0xA001"
  by (simp_all add: crc_bit_def)

lemma crc_bit_xor: "crc_bit (a XOR b) = crc_bit a XOR crc_bit b"
  by (simp add: crc_bit_def bit_xor_iff drop_bit_xor) (simp add: ac_simps)

lemma crc_byte_xor: "crc_byte (a XOR b) = crc_byte a XOR crc_byte b"
  by (simp add: crc_byte_def crc_bit_xor)

lemma crc_byte_0 [simp]: "crc_byte 0 = 0"
  by (simp add: crc_byte_def crc_bit_numeral)

lemma crc_byte_high: "crc_byte (push_bit 8 (ucast (h::u8))) = ucast h"
proof -
  have "crc_byte (push_bit 8 (ucast h)) = drop_bit 8 (push_bit 8 (ucast h))"
    by (simp add: crc_byte_def crc_bit_def bit_simps drop_bit_drop_bit) (rule arg_cong [where f = "\<lambda>n. drop_bit n _"], simp)
  also have "\<dots> = ucast h"
    by (rule bit_word_eqI) (auto simp: bit_simps not_le intro: ccontr)
  finally show ?thesis .
qed

lemma crc_tables:
  "map (\<lambda>i. crc_byte (word_of_int i)) [0..255] = map2 (\<lambda>h l. push_bit 8 (ucast l) OR ucast h) CRCHi CRCLo"
  by (simp add: crc_byte_def crc_bit_numeral upto.simps CRCHi_def CRCLo_def)

lemma crc_table_lengths: "length CRCHi = 256" "length CRCLo = 256"
  by (simp_all add: CRCHi_def CRCLo_def)

lemma crc_byte_table:
  "crc_byte (ucast (x::u8)) = push_bit 8 (ucast (CRCLo ! unat x)) OR ucast (CRCHi ! unat x)"
proof -
  have lt: "unat x < 256" by simp
  from crc_tables have "map (\<lambda>i. crc_byte (word_of_int i)) [0..255] ! unat x =
      map2 (\<lambda>h l. push_bit 8 (ucast l) OR ucast h) CRCHi CRCLo ! unat x" by simp
  moreover have "[0..255] ! unat x = int (unat x)"
    by (subst nth_upto) (use lt in linarith)+
  ultimately have "crc_byte (word_of_int (int (unat x))) =
     push_bit 8 (ucast (CRCLo ! unat x)) OR ucast (CRCHi ! unat x)"
    using lt by (simp add: crc_table_lengths del: of_int_of_nat_eq)
  then show ?thesis by simp
qed

lemma crc_join_xor: "crc_join hi lo = push_bit 8 (ucast hi) XOR ucast lo"
  by (auto intro!: bit_word_eqI simp: crc_join_def bit_simps)

lemma crc_join_parts: "ucast (crc_join h l) = l" "ucast (drop_bit 8 (crc_join h l)) = h"
  by (auto intro!: bit_word_eqI simp: crc_join_def bit_simps)

lemma crc_join_inj: "crc_join h l = crc_join h' l' \<longleftrightarrow> h = h' \<and> l = l'"
  by (metis crc_join_parts)

lemma crc_step_join: "crc_byte (crc_join hi lo XOR ucast b) =
   crc_join (CRCLo ! unat (lo XOR b)) (hi XOR CRCHi ! unat (lo XOR b))"
proof -
  have u: "ucast lo XOR ucast b = (ucast (lo XOR b) :: u16)"
    by (auto intro!: bit_word_eqI simp: bit_simps)
  have "crc_byte (crc_join hi lo XOR ucast b) = crc_byte (push_bit 8 (ucast hi)) XOR crc_byte (ucast (lo XOR b))"
    by (simp add: crc_join_xor xor.assoc u crc_byte_xor)
  also have "\<dots> = ucast hi XOR crc_join (CRCLo ! unat (lo XOR b)) (CRCHi ! unat (lo XOR b))"
    by (simp add: crc_byte_high crc_byte_table crc_join_def)
  also have "\<dots> = crc_join (CRCLo ! unat (lo XOR b)) (hi XOR CRCHi ! unat (lo XOR b))"
    by (auto intro!: bit_word_eqI simp: crc_join_xor bit_simps)
  finally show ?thesis .
qed

lemma crc_loop_ref: "crc_loop hi lo bs = (h, l) \<Longrightarrow> crc_ref (crc_join hi lo) bs = crc_join h l"
proof (induction hi lo bs rule: crc_loop.induct)
  case (2 hi lo b bs)
  then show ?case by (simp add: crc_step_join Let_def)
qed simp

lemma crc_loop_standard:
  assumes "crc_loop 0xFF 0xFF m = (h, l)"
  shows "crc16_standard m = crc_join h l" and "CRC16 m = crc_join l h"
proof -
  have "crc_join 0xFF 0xFF = 0xFFFF" by (simp add: crc_join_def)
  with crc_loop_ref [OF assms] show "crc16_standard m = crc_join h l"
    by (simp add: crc16_standard_def)
  show "CRC16 m = crc_join l h"
    using assms by (auto simp: CRC16_def crc_join_def or.commute)
qed

text \<open>C1. The table-driven \<open>CRC16\<close> is the bitwise CRC-16 of ModBus (polynomial A001, reflected, initial
  value FFFF) of the whole message, for every message, with its two bytes exchanged.\<close>

theorem CRC16_standard: "CRC16 m = push_bit 8 (crc16_standard m) OR drop_bit 8 (crc16_standard m)"
proof -
  obtain h l where hl: "crc_loop 0xFF 0xFF m = (h, l)" by (cases "crc_loop 0xFF 0xFF m")
  show ?thesis
    unfolding crc_loop_standard [OF hl]
    by (auto intro!: bit_word_eqI simp: crc_join_def bit_simps)
qed

section \<open>Detection of corrupted frames\<close>

lemma crc_byte_zero: "crc_byte c = 0 \<Longrightarrow> c = 0"
proof -
  have one: "c = 0" if "crc_bit c = 0" for c :: u16
  proof (cases "bit c 0")
    case True
    with that have "drop_bit 1 c XOR 0xA001 = 0" by (simp add: crc_bit_def)
    then have "bit (drop_bit 1 c XOR 0xA001) 15 = bit (0::u16) 15" by simp
    then show ?thesis by (auto simp: bit_simps dest: bit_imp_le_length)
  next
    case False
    with that have d: "drop_bit 1 c = 0" by (simp add: crc_bit_def)
    show ?thesis
    proof (rule bit_word_eqI)
      fix n
      have "bit (drop_bit 1 c) (n - 1) = bit (0::u16) (n - 1)" using d by simp
      with False show "bit c n = bit 0 n" by (cases n) (auto simp: bit_simps)
    qed
  qed
  show "crc_byte c = 0 \<Longrightarrow> c = 0" by (auto simp: crc_byte_def dest!: one)
qed

lemma crc_byte_inj: "crc_byte a = crc_byte b \<Longrightarrow> a = b"
proof -
  assume "crc_byte a = crc_byte b"
  then have "crc_byte (a XOR b) = 0" by (simp add: crc_byte_xor)
  then have "a XOR b = 0" by (rule crc_byte_zero)
  then show "a = b" by (simp add: xor_zero_iff)
qed

lemma crc_ref_inj: "crc_ref a bs = crc_ref b bs \<Longrightarrow> a = b"
proof (induction bs arbitrary: a b)
  case (Cons x bs)
  have "crc_byte (a XOR ucast x) = crc_byte (b XOR ucast x)"
    using Cons by simp
  then have "a XOR ucast x = b XOR ucast x" by (rule crc_byte_inj)
  then show ?case by (simp add: xor_right_cancel)
qed simp

lemma crc_ref_append: "crc_ref c (xs @ ys) = crc_ref (crc_ref c xs) ys"
  by (induction xs arbitrary: c) auto

lemma u16_split: "c = crc_join (ucast (drop_bit 8 c)) (ucast (c::u16))"
  by (auto intro!: bit_word_eqI simp: crc_join_def bit_simps dest: bit_imp_le_length)

lemma crc_ref_two:
  "crc_ref (crc_join h l) [x, y] = 0 \<longleftrightarrow> x = l \<and> y = h"
proof
  assume "crc_ref (crc_join h l) [x, y] = 0"
  then have "crc_byte (crc_byte (crc_join h l XOR ucast x) XOR ucast y) = 0" by simp
  then have "crc_byte (crc_join h l XOR ucast x) XOR ucast y = 0" by (rule crc_byte_zero)
  then have "crc_byte (crc_join h l XOR ucast x) = ucast y"
    by (simp add: xor_zero_iff)
  also have "\<dots> = crc_byte (push_bit 8 (ucast y))" by (simp add: crc_byte_high)
  finally have "crc_join h l XOR ucast x = push_bit 8 (ucast y)" by (rule crc_byte_inj)
  then have "crc_join h l = push_bit 8 (ucast y) XOR ucast x"
    by (simp add: xor_move)
  then have "crc_join h l = crc_join y x" by (simp add: crc_join_xor)
  then show "x = l \<and> y = h" by (simp add: crc_join_inj)
next
  assume "x = l \<and> y = h"
  moreover have "crc_join h l XOR ucast l = push_bit 8 (ucast h)"
    by (simp add: crc_join_xor xor.assoc)
  ultimately show "crc_ref (crc_join h l) [x, y] = 0"
    by (simp add: crc_byte_high crc_byte_0)
qed

text \<open>A frame is accepted iff the checksum over all of it, its trailer included, is zero.\<close>

lemma rtu_crc_ok_residue:
  assumes "2 \<le> length f"
  shows "rtu_crc_ok f \<longleftrightarrow> crc16_standard f = 0"
proof -
  define m where "m = take (length f - 2) f"
  obtain x y where f: "f = m @ [x, y]"
  proof -
    have "length (drop (length f - 2) f) = Suc (Suc 0)" using assms by simp
    then obtain x y where "drop (length f - 2) f = [x, y]"
      unfolding length_Suc_conv by auto
    then show thesis using that by (metis append_take_drop_id m_def)
  qed
  obtain h l where hl: "crc_loop 0xFF 0xFF m = (h, l)" by (cases "crc_loop 0xFF 0xFF m")
  have j: "push_bit 8 (ucast x) + ucast y = crc_join x y"
    unfolding crc_join_def
    by (rule disjunctive_add) (auto simp: bit_simps)
  have "rtu_crc_ok f \<longleftrightarrow> crc_join l h = crc_join x y"
    by (simp add: rtu_crc_ok_def f nth_append crc_loop_standard(2) [OF hl] j)
  also have "\<dots> \<longleftrightarrow> crc_ref (crc_join h l) [x, y] = 0"
    unfolding crc_ref_two crc_join_inj by auto
  also have "\<dots> \<longleftrightarrow> crc16_standard f = 0"
    using crc_loop_standard(1) [OF hl] by (simp add: crc16_standard_def f crc_ref_append)
  finally show ?thesis .
qed

lemma CRCLo_zero: "i < 256 \<Longrightarrow> CRCLo ! i = 0 \<Longrightarrow> i = 0"
proof -
  have "0 \<notin> set (tl CRCLo)" by (simp add: CRCLo_def)
  moreover assume "i < 256" "CRCLo ! i = 0"
  ultimately show "i = 0"
    by (cases i) (auto simp: in_set_conv_nth nth_tl crc_table_lengths)
qed

text \<open>Corrupting two neighbouring bytes always changes the checksum.\<close>

lemma crc_burst:
  assumes "crc_ref c (x # y # zs) = crc_ref c (x' # y' # zs)"
  shows "x = x' \<and> y = y'"
proof -
  let ?d = "x XOR x'"
  from assms have "crc_byte (crc_byte (c XOR ucast x) XOR ucast y) =
      crc_byte (crc_byte (c XOR ucast x') XOR ucast y')"
    by (auto dest: crc_ref_inj)
  then have "crc_byte (c XOR ucast x) XOR ucast y = crc_byte (c XOR ucast x') XOR ucast y'"
    by (rule crc_byte_inj)
  then have "crc_byte (c XOR ucast x) XOR crc_byte (c XOR ucast x') = ucast (y XOR y')"
    by (auto simp: bit_eq_iff bit_simps)
  moreover have "crc_byte (c XOR ucast x) XOR crc_byte (c XOR ucast x') =
      crc_byte ((c XOR ucast x) XOR (c XOR ucast x'))"
    by (rule crc_byte_xor [symmetric])
  moreover have "(c XOR ucast x) XOR (c XOR ucast x') = ucast ?d"
    by (auto intro!: bit_word_eqI simp: bit_simps)
  moreover have "ucast (y XOR y') = crc_join 0 (y XOR y')"
    by (simp add: crc_join_def)
  ultimately have "crc_byte (ucast ?d) = crc_join 0 (y XOR y')"
    by (simp only:)
  then have "crc_join (CRCLo ! unat ?d) (CRCHi ! unat ?d) = crc_join 0 (y XOR y')"
    by (simp only: crc_byte_table crc_join_def)
  then have lo: "CRCLo ! unat ?d = 0" and hi: "CRCHi ! unat ?d = y XOR y'"
    by (simp_all only: crc_join_inj)
  from CRCLo_zero [OF u8_unat_less lo] have d: "?d = 0" by (simp add: unat_eq_0)
  then have "y XOR y' = 0" using hi by (simp add: CRCHi_def)
  with d show ?thesis by (simp add: xor_zero_iff)
qed

text \<open>C2. The acceptance test of the RTU frames finds every corruption that is confined to two
  neighbouring bytes, wherever in the frame (its trailer included) they are.\<close>

theorem rtu_burst_detected:
  assumes "rtu_crc_ok (pre @ x # y # post)" and "(x', y') \<noteq> (x, y)"
  shows "\<not> rtu_crc_ok (pre @ x' # y' # post)"
proof
  assume a: "rtu_crc_ok (pre @ x' # y' # post)"
  from assms(1) a have "crc16_standard (pre @ x # y # post) = crc16_standard (pre @ x' # y' # post)"
    by (simp add: rtu_crc_ok_residue)
  then have "crc_ref (crc16_standard pre) (x # y # post) = crc_ref (crc16_standard pre) (x' # y' # post)"
    by (simp only: crc16_standard_def crc_ref_append)
  then have "x = x' \<and> y = y'" by (rule crc_burst)
  with assms(2) show False by simp
qed

lemma rtu_burst_detected_witness:
  "\<not> rtu_crc_ok ([0x01, 0x03, 0x00] @ 0x13 # 0x37 # [0x00, 0x25, 0x8E, 0x9E])"
  by (rule rtu_burst_detected [where x = "0x12" and y = "0x34"])
    (simp_all add: rtu_crc_ok_residue crc16_standard_def crc_byte_def crc_bit_numeral)

section \<open>The ASCII frames\<close>

lemma nibble_cases: "x \<le> 15 \<Longrightarrow> (x::u8) \<in> word_of_nat ` set [0..<16]"
proof -
  assume "x \<le> 15"
  then have "unat x \<in> set [0..<16]" by (simp add: word_le_nat_alt)
  then have "word_of_nat (unat x) \<in> (word_of_nat ` set [0..<16] :: u8 set)" by (rule imageI)
  then show ?thesis by simp
qed

lemma hex_value_digit: "x \<le> 15 \<Longrightarrow> hex_value (hex_digit x) = x"
  using nibble_cases [of x] by (auto simp: upt_conv_Cons hex_value_def hex_digit_def)

lemma nibble_masks: "(0xF0::u8) = push_bit 4 (mask 4)" "(0x0F::u8) = mask 4"
  by (simp_all add: mask_eq_exp_minus_1)

lemma nibble_bounds: "drop_bit 4 (c AND 0xF0) \<le> (15::u8)" "c AND 0x0F \<le> (15::u8)"
proof -
  have "drop_bit 4 (c AND 0xF0) = drop_bit 4 c AND (0x0F::u8)"
    unfolding nibble_masks by (rule bit_word_eqI) (auto simp: bit_simps)
  then show "drop_bit 4 (c AND 0xF0) \<le> (15::u8)" by (simp only: word_and_le1)
  show "c AND 0x0F \<le> (15::u8)" by (rule word_and_le1)
qed

lemma nibbles_join: "push_bit 4 (drop_bit 4 (c AND 0xF0)) OR (c AND 0x0F) = (c::u8)"
  unfolding nibble_masks by (rule bit_word_eqI) (auto simp: bit_simps)

lemma hex_roundtrip: "ASCIIToData (DataToASCII m) = m"
  by (induction m) (simp_all only: DataToASCII.simps ASCIIToData.simps hex_value_digit nibble_bounds nibbles_join)

lemma length_DataToASCII [simp]: "length (DataToASCII m) = 2 * length m"
  by (induction m) auto

lemma length_ASCIIToData [simp]: "length (ASCIIToData m) = length m div 2"
  by (induction m rule: ASCIIToData.induct) auto

lemma foldl_plus: "foldl (+) a m = a + sum_list (m::bytes)"
  by (induction m arbitrary: a) (simp_all add: add.assoc)

lemma LRC_sum: "LRC m = - sum_list m"
  by (simp add: LRC_def foldl_plus)

lemma ascii_lrc_ok_sum: "f \<noteq> [] \<Longrightarrow> ascii_lrc_ok f \<longleftrightarrow> sum_list f = 0"
  by (cases f rule: rev_cases) (simp_all add: ascii_lrc_ok_def LRC_sum neg_eq_iff_add_eq_0)

text \<open>C4. The acceptance test of the ASCII frames finds the corruption of any one decoded byte.\<close>

theorem ascii_single_detected:
  assumes "ascii_lrc_ok (pre @ x # post)" and "x' \<noteq> x"
  shows "\<not> ascii_lrc_ok (pre @ x' # post)"
proof
  assume "ascii_lrc_ok (pre @ x' # post)"
  with assms(1) have "sum_list (pre @ x # post) = sum_list (pre @ x' # post)"
    by (simp only: ascii_lrc_ok_sum append_is_Nil_conv list.distinct simp_thms)
  with assms(2) show False by simp
qed

lemma ascii_single_detected_witness:
  "\<not> ascii_lrc_ok ([0x01] @ 0x83 # [0x02, 0xFA])"
  by (rule ascii_single_detected [where x = "0x03"]) (simp_all add: ascii_lrc_ok_def LRC_def)

text \<open>C3. The transcoding of an ASCII frame and back gives the message; the transcoded frame has two
  symbols for each byte, each an upper-case hexadecimal digit.\<close>

theorem hex_roundtrip_prop:
  "ASCIIToData (DataToASCII m) = m \<and> length (DataToASCII m) = 2 * length m \<and>
   list_all (\<lambda>c. 0x30 \<le> c \<and> c \<le> 0x39 \<or> 0x41 \<le> c \<and> c \<le> 0x46) (DataToASCII m)"
proof -
  have dig: "0x30 \<le> hex_digit x \<and> hex_digit x \<le> 0x39 \<or> 0x41 \<le> hex_digit x \<and> hex_digit x \<le> 0x46"
    if "x \<le> 15" for x
    using nibble_cases [OF that] by (auto simp: upt_conv_Cons hex_digit_def)
  have "list_all (\<lambda>c. 0x30 \<le> c \<and> c \<le> 0x39 \<or> 0x41 \<le> c \<and> c \<le> 0x46) (DataToASCII m)"
    by (induction m) (simp_all only: DataToASCII.simps list.pred_inject dig nibble_bounds simp_thms)
  then show ?thesis by (simp add: hex_roundtrip)
qed

end
