(* ===== verification/Tval_Buf.thy ===== *)
theory Tval_Buf
  imports Cpp_Base
begin

text \<open>
  The value buffer of the archives (\<^verbatim>\<open>src/src/tarchval.cpp\<close>, the template \<open>TValBuf::TBuf\<close>):
  a vector of values in one of three modes.  With a hard grid it is a ring of values, one for
  each period; with a soft grid it is a ring of stamped values that leaves out repetitions;
  without a period it is the flow of stamped values, ordered by time.  The stamps are kept in
  microseconds (\<open>tmHigh\<close>) or in seconds (\<open>tmLow\<close>).
\<close>

section \<open>The data\<close>

text \<open>The union \<open>buf\<close> with the type of the vector it points to; \<open>NoBuf\<close> is the null pointer.\<close>

datatype 'v store = NoBuf | Grid "'v list" | TmLow "(int \<times> 'v) list" | TmHigh "(int \<times> 'v) list"

text \<open>
  The fields of \<open>TBuf\<close>, those it refers to in its \<open>TValBuf\<close> included: \<open>bEnd\<close>, \<open>bBeg\<close>, \<open>bPer\<close>
  and \<open>bSize\<close> are \<open>end\<close>, \<open>beg\<close>, \<open>per\<close> and \<open>size\<close>.
\<close>

record 'v tbuf =
  hgResTm :: bool
  hrdGrd :: bool
  fillLast :: bool
  bEnd :: int
  bBeg :: int
  bPer :: int
  bSize :: int
  bCur :: int
  bEval :: 'v
  mEvalCnt :: u32
  bStore :: "'v store"

abbreviation Arch_Val_OldBufVl :: nat where
  "Arch_Val_OldBufVl \<equiv> 30"

definition HalfDivMinWin :: int where
  "HalfDivMinWin = 5"

text \<open>The vector of the union the mode flags select, and whether the pointer has that type.\<close>

fun mode_ok :: "bool \<Rightarrow> bool \<Rightarrow> 'v store \<Rightarrow> bool" where
  "mode_ok hrd hg NoBuf = True"
| "mode_ok hrd hg (Grid g) = hrd"
| "mode_ok hrd hg (TmHigh xs) = (\<not> hrd \<and> hg)"
| "mode_ok hrd hg (TmLow xs) = (\<not> hrd \<and> \<not> hg)"

definition new_store :: "bool \<Rightarrow> bool \<Rightarrow> 'v store" where
  "new_store hrd hg = (if hrd then Grid [] else if hg then TmHigh [] else TmLow [])"

fun store_size :: "'v store \<Rightarrow> int" where
  "store_size NoBuf = 0"
| "store_size (Grid g) = int (length g)"
| "store_size (TmLow xs) = int (length xs)"
| "store_size (TmHigh xs) = int (length xs)"

section \<open>Clearing, resizing, changing the mode\<close>

definition tb_clear :: "'v tbuf \<Rightarrow> 'v tbuf res" where
  "tb_clear b =
     (if bStore b = NoBuf then Inr b
      else if \<not> mode_ok (hrdGrd b) (hgResTm b) (bStore b) then Inl BadCast
      else Inr (b\<lparr>bStore := new_store (hrdGrd b) (hgResTm b), bCur := 0, bEnd := 0, bBeg := 0,
                  mEvalCnt := 0\<rparr>))"

definition tb_realSize :: "'v tbuf \<Rightarrow> int res" where
  "tb_realSize b =
     (if bStore b = NoBuf then Inr 0
      else if \<not> mode_ok (hrdGrd b) (hgResTm b) (bStore b) then Inl BadCast
      else Inr (store_size (bStore b)))"

text \<open>
  \<open>TBuf::makeBuf\<close>.  The old vector is deleted after the mode flags are changed, hence under the
  type the new flags select.
\<close>

definition tb_makeBuf :: "int \<Rightarrow> int \<Rightarrow> bool \<Rightarrow> bool \<Rightarrow> 'v tbuf \<Rightarrow> 'v tbuf res" where
  "tb_makeBuf isz ipr0 ihd_grd ihg_res b =
     (let recr0 = (bStore b = NoBuf);
          recr1 = (recr0 \<or> isz < bSize b \<or> bSize b = 0 \<and> isz \<noteq> 0);
          ipr1 = (if hrdGrd b \<noteq> ihd_grd \<and> ihd_grd \<and> ipr0 = 0 then 1000000 else ipr0);
          recr2 = (recr1 \<or> hrdGrd b \<noteq> ihd_grd);
          recr3 = (recr2 \<or> hgResTm b \<noteq> ihg_res);
          ipr2 = (if bPer b \<noteq> ipr1 \<and> hrdGrd b \<and> ipr1 = 0 then 1000000 else ipr1);
          recr4 = (recr3 \<or> bPer b \<noteq> ipr1);
          b' = b\<lparr>bSize := isz, hrdGrd := ihd_grd, hgResTm := ihg_res, bPer := ipr2\<rparr>
      in if \<not> recr4 then Inr b'
         else if \<not> mode_ok ihd_grd ihg_res (bStore b) then Inl BadCast
         else Inr (b'\<lparr>bCur := 0, bEnd := 0, bBeg := 0, bStore := new_store ihd_grd ihg_res,
                      mEvalCnt := 0\<rparr>))"

text \<open>The constructor: the references are bound, then \<open>makeBuf\<close> runs on the null pointer.\<close>

definition tb_new :: "'v \<Rightarrow> int \<Rightarrow> int \<Rightarrow> bool \<Rightarrow> bool \<Rightarrow> bool \<Rightarrow> int \<Rightarrow> int \<Rightarrow> u32 \<Rightarrow> 'v tbuf res" where
  "tb_new ieval isz ipr ihgrd ihres iFillLast iend ibeg iEvalCnt =
     tb_makeBuf isz ipr ihgrd ihres
       \<lparr>hgResTm = ihres, hrdGrd = ihgrd, fillLast = iFillLast, bEnd = iend, bBeg = ibeg, bPer = ipr,
        bSize = isz, bCur = 0, bEval = ieval, mEvalCnt = iEvalCnt, bStore = NoBuf\<rparr>"

section \<open>Reading\<close>

text \<open>
  The stamps of a vector are read in microseconds by \<open>tof\<close>, which is the identity for \<open>tmHigh\<close>
  and the product with 1000000 for \<open>tmLow\<close>.
\<close>

definition us_of_sec :: "int \<Rightarrow> int" where
  "us_of_sec s = s * 1000000"

text \<open>
  The hard grid.  \<open>tm\<close> is the time asked for, brought into the window of the buffer; the result is
  the value and the new \<open>*itm\<close>.
\<close>

definition hard_get :: "'v tbuf \<Rightarrow> 'v list \<Rightarrow> int \<Rightarrow> bool \<Rightarrow> ('v \<times> int) res" where
  "hard_get b g tm up_ord =
     (if bPer b = 0 then Inl DivZero
      else let sz = int (length g);
               npos = to_i32 (if up_ord then tdiv (bEnd b - tm) (bPer b)
                              else sz - 1 - tdiv (tm - bBeg b) (bPer b))
           in if npos < 0 \<or> npos \<ge> sz then Inr (bEval b, 0)
              else rbind (vat g (if bCur b - npos - 1 \<ge> 0 then bCur b - npos - 1
                                 else sz + (bCur b - npos - 1)))
                     (\<lambda>v. Inr (v, bEnd b - npos * bPer b)))"

text \<open>The soft grid: the half divider, then the scan backwards around the ring.\<close>

function soft_half :: "(int \<Rightarrow> int) \<Rightarrow> int \<Rightarrow> (int \<times> 'v) list \<Rightarrow> int \<Rightarrow> int \<Rightarrow> int \<Rightarrow> int res" where
  "soft_half tof per xs tm d_win c_end =
     (if d_win > HalfDivMinWin
      then let c0 = c_end - d_win; c_cnext = (if c0 < 0 then c0 + int (length xs) else c0)
           in rbind (vat xs c_cnext)
                (\<lambda>r. soft_half tof per xs tm (tdiv d_win 2)
                       (if tdiv tm per < tdiv (tof (fst r)) per then c_cnext else c_end))
      else Inr c_end)"
  by pat_completeness auto
termination
  by (relation "measure (\<lambda>(tof, per, xs, tm, d_win, c_end). nat d_win)")
     (auto simp: HalfDivMinWin_def tdiv_nonneg)

fun soft_scan :: "nat \<Rightarrow> (int \<Rightarrow> int) \<Rightarrow> 'v tbuf \<Rightarrow> (int \<times> 'v) list \<Rightarrow> bool \<Rightarrow> int \<Rightarrow> int \<Rightarrow> int \<Rightarrow>
    ('v \<times> int) res" where
  "soft_scan 0 tof b xs up_ord npos c_cur c_end = Inl Diverge"
| "soft_scan (Suc k) tof b xs up_ord npos c_cur c_end =
     rbind (vat xs c_end) (\<lambda>(t, v).
       let per = bPer b;
           w_pos = to_i32 (if up_ord then tdiv (bEnd b) per - tdiv (tof t) per
                           else tdiv (tof t) per - tdiv (bBeg b) per)
       in if up_ord \<and> w_pos \<ge> npos
          then Inr (v, if w_pos = npos then tof t else bEnd b - npos * per)
          else if \<not> up_ord \<and> w_pos \<le> npos
          then Inr (v, if w_pos = npos then tof t else bBeg b + npos * per)
          else let c' = (if c_end - 1 < 0 then int (length xs) - 1 else c_end - 1)
               in if c' \<noteq> c_cur then soft_scan k tof b xs up_ord npos c_cur c'
                  else Inr (bEval b, 0))"

definition soft_get :: "(int \<Rightarrow> int) \<Rightarrow> 'v tbuf \<Rightarrow> (int \<times> 'v) list \<Rightarrow> int \<Rightarrow> bool \<Rightarrow> ('v \<times> int) res" where
  "soft_get tof b xs tm up_ord =
     (let npos = to_i32 (tdiv (if up_ord then bEnd b - tm else tm - bBeg b) (bPer b));
          sz = int (length xs);
          c_cur = (if bCur b \<noteq> 0 then bCur b - 1 else sz - 1)
      in rbind (soft_half tof (bPer b) xs tm (tdiv sz 2) c_cur)
           (soft_scan (Suc (length xs)) tof b xs up_ord npos c_cur))"

text \<open>
  The flow.  \<open>after t\<close> is the test that the time asked for is not before the stamp \<open>t\<close>, \<open>before t\<close>
  that it is not after it, each as its vector compares them.
\<close>

function flow_half :: "(int \<Rightarrow> bool) \<Rightarrow> (int \<Rightarrow> bool) \<Rightarrow> (int \<times> 'v) list \<Rightarrow> bool \<Rightarrow> int \<Rightarrow> int \<Rightarrow> int res" where
  "flow_half after before xs up_ord d_win c_end =
     (if d_win > HalfDivMinWin
      then rbind (if up_ord then vat xs (int (length xs) - (c_end - d_win) - 1)
                  else vat xs (c_end - d_win))
             (\<lambda>r. flow_half after before xs up_ord (tdiv d_win 2)
                    (if \<not> ((\<not> up_ord \<and> after (fst r)) \<or> (up_ord \<and> before (fst r)))
                     then c_end - d_win else c_end))
      else Inr c_end)"
  by pat_completeness auto
termination
  by (relation "measure (\<lambda>(after, before, xs, up_ord, d_win, c_end). nat d_win)")
     (auto simp: HalfDivMinWin_def tdiv_nonneg)

function flow_scan :: "(int \<Rightarrow> int) \<Rightarrow> (int \<Rightarrow> bool) \<Rightarrow> (int \<Rightarrow> bool) \<Rightarrow> 'v tbuf \<Rightarrow> (int \<times> 'v) list \<Rightarrow>
    bool \<Rightarrow> int \<Rightarrow> ('v \<times> int) res" where
  "flow_scan tof after before b xs up_ord c_end =
     (if c_end < 0 then Inr (bEval b, 0)
      else rbind (if up_ord then vat xs (int (length xs) - c_end - 1) else vat xs c_end)
             (\<lambda>(t, v). if (\<not> up_ord \<and> after t) \<or> (up_ord \<and> before t) then Inr (v, tof t)
                       else flow_scan tof after before b xs up_ord (c_end - 1)))"
  by pat_completeness auto
termination
  by (relation "measure (\<lambda>(tof, after, before, b, xs, up_ord, c_end). nat (c_end + 1))") auto

definition flow_get :: "(int \<Rightarrow> int) \<Rightarrow> (int \<Rightarrow> bool) \<Rightarrow> (int \<Rightarrow> bool) \<Rightarrow> 'v tbuf \<Rightarrow> (int \<times> 'v) list \<Rightarrow> bool \<Rightarrow>
    ('v \<times> int) res" where
  "flow_get tof after before b xs up_ord =
     (let c_end = int (length xs) - 1
      in rbind (flow_half after before xs up_ord (tdiv c_end 2) c_end)
           (flow_scan tof after before b xs up_ord))"

text \<open>\<open>TBuf::get\<close> for the time \<open>tm0\<close> (\<open>*itm\<close>, or the current time where \<open>itm\<close> is null).\<close>

definition tb_get :: "'v tbuf \<Rightarrow> int \<Rightarrow> bool \<Rightarrow> ('v \<times> int) res" where
  "tb_get b tm0 up_ord =
     (if up_ord \<and> tm0 > bEnd b \<or> \<not> up_ord \<and> tm0 < bBeg b then Inr (bEval b, tm0)
      else let tm = (if up_ord then max tm0 (bBeg b) else min tm0 (bEnd b))
           in if \<not> mode_ok (hrdGrd b) (hgResTm b) (bStore b) then Inl BadCast
              else case bStore b of
                     NoBuf \<Rightarrow> Inl UndefRead
                   | Grid g \<Rightarrow> hard_get b g tm up_ord
                   | TmHigh xs \<Rightarrow>
                       if bPer b \<noteq> 0 then soft_get id b xs tm up_ord
                       else flow_get id (\<lambda>t. tm \<ge> t) (\<lambda>t. tm \<le> t) b xs up_ord
                   | TmLow xs \<Rightarrow>
                       if bPer b \<noteq> 0 then soft_get us_of_sec b xs tm up_ord
                       else flow_get us_of_sec (\<lambda>t. tdiv tm 1000000 \<ge> t) (\<lambda>t. tm \<le> us_of_sec t) b xs
                              up_ord)"

section \<open>Writing\<close>

definition cnt_in :: "'v \<Rightarrow> 'v \<Rightarrow> u32 \<Rightarrow> u32" where
  "cnt_in ev v n = (if v = ev then n + 1 else n)"

definition cnt_out :: "'v \<Rightarrow> 'v \<Rightarrow> u32 \<Rightarrow> u32" where
  "cnt_out ev v n = (if v = ev then n - 1 else n)"

text \<open>The advance of the cursor: \<open>if((++cur >= size) && size) cur = 0\<close>.\<close>

definition cur_next :: "int \<Rightarrow> int \<Rightarrow> int" where
  "cur_next sz cur = (if cur + 1 \<ge> sz \<and> sz \<noteq> 0 then 0 else cur + 1)"

text \<open>One turn of the filling loop of the hard grid, for the value \<open>w_val\<close>.\<close>

definition hard_push :: "'v \<Rightarrow> 'v tbuf \<Rightarrow> 'v list \<Rightarrow> ('v tbuf \<times> 'v list) res" where
  "hard_push w_val b g =
     (let n0 = cnt_in (bEval b) w_val (mEvalCnt b);
          cur' = cur_next (bSize b) (bCur b);
          end' = bEnd b + bPer b
      in if bCur b \<ge> int (length g)
         then Inr (b\<lparr>mEvalCnt := n0, bCur := cur', bEnd := end'\<rparr>, g @ [w_val])
         else rbind (vat g (bCur b)) (\<lambda>old. rbind (vset g (bCur b) w_val) (\<lambda>g'.
                Inr (b\<lparr>mEvalCnt := cnt_out (bEval b) old n0, bBeg := bBeg b + bPer b,
                        bCur := cur', bEnd := end'\<rparr>, g'))))"

text \<open>\<open>while(npos--)\<close>: all the turns but the last store \<open>fillVl\<close>.\<close>

fun hard_fill :: "nat \<Rightarrow> 'v \<Rightarrow> 'v \<Rightarrow> 'v tbuf \<times> 'v list \<Rightarrow> ('v tbuf \<times> 'v list) res" where
  "hard_fill 0 fillVl value bg = Inr bg"
| "hard_fill (Suc k) fillVl value bg =
     rbind (hard_push (if k \<noteq> 0 then fillVl else value) (fst bg) (snd bg))
       (hard_fill k fillVl value)"

text \<open>The last stored value, for \<open>fillLast\<close>.\<close>

definition last_val :: "int \<Rightarrow> 'a list \<Rightarrow> 'a res" where
  "last_val cur xs = (if cur \<noteq> 0 then vat xs (cur - 1) else vat xs (int (length xs) - 1))"

definition hard_set :: "'v tbuf \<Rightarrow> 'v list \<Rightarrow> 'v \<Rightarrow> int \<Rightarrow> 'v tbuf res" where
  "hard_set b g value tm =
     (if bPer b = 0 then Inl DivZero
      else let npos = to_i32 (tdiv (tm - bEnd b) (bPer b)); sz = int (length g)
           in if npos \<le> 0 \<and> - npos < sz
              then let w0 = bCur b + npos - 1; wcur = (if w0 < 0 then sz + w0 else w0)
                   in rbind (vat g wcur) (\<lambda>old. rbind (vset g wcur value) (\<lambda>g'.
                        Inr (b\<lparr>mEvalCnt := cnt_out (bEval b) old (cnt_in (bEval b) value (mEvalCnt b)),
                                bStore := Grid g'\<rparr>)))
              else if npos < 0 then Inl (TError Arch_Val_OldBufVl)
              else rbind (if fillLast b \<and> g \<noteq> [] then last_val (bCur b) g else Inr (bEval b))
                     (\<lambda>fillVl. rbind (hard_fill (nat npos) fillVl value (b, g))
                        (\<lambda>(b', g'). Inr (b'\<lparr>bStore := Grid g'\<rparr>))))"

text \<open>
  The soft grid: appending a stamped value to the ring, which moves \<open>beg\<close> to the period of the
  oldest value that is left.
\<close>

definition soft_append :: "(int \<Rightarrow> int) \<Rightarrow> int \<times> 'v \<Rightarrow> 'v tbuf \<Rightarrow> (int \<times> 'v) list \<Rightarrow>
    ('v tbuf \<times> (int \<times> 'v) list) res" where
  "soft_append tof b_el b xs =
     (let n0 = cnt_in (bEval b) (snd b_el) (mEvalCnt b); cur' = cur_next (bSize b) (bCur b)
      in if bCur b \<ge> int (length xs)
         then Inr (b\<lparr>mEvalCnt := n0, bCur := cur'\<rparr>, xs @ [b_el])
         else rbind (vat xs (if bCur b + 1 \<ge> int (length xs) then 0 else bCur b + 1)) (\<lambda>o2.
              rbind (vat xs (bCur b)) (\<lambda>old. rbind (vset xs (bCur b) b_el) (\<lambda>xs'.
                Inr (b\<lparr>mEvalCnt := cnt_out (bEval b) (snd old) n0,
                        bBeg := bPer b * tdiv (tof (fst o2)) (bPer b), bCur := cur'\<rparr>, xs')))))"

text \<open>
  The insertion loop \<open>while(c_npos--)\<close>: \<open>npos\<close> is its starting count, \<open>stamp\<close> turns microseconds
  into the stamp of the vector.  A value equal to the last one is left out.
\<close>

fun soft_fill :: "nat \<Rightarrow> int \<Rightarrow> (int \<Rightarrow> int) \<Rightarrow> (int \<Rightarrow> int) \<Rightarrow> 'v \<Rightarrow> 'v \<Rightarrow> int \<Rightarrow>
    'v tbuf \<times> (int \<times> 'v) list \<Rightarrow> ('v tbuf \<times> (int \<times> 'v) list) res" where
  "soft_fill 0 npos tof stamp fillVl value tm bx = Inr bx"
| "soft_fill (Suc k) npos tof stamp fillVl value tm bx =
     (let b = fst bx; xs = snd bx;
          b_el = (if k \<noteq> 0 then (stamp (bEnd b + (npos - int k) * bPer b), fillVl) else (stamp tm, value))
      in rbind (if xs = [] then Inr True
                else rbind (last_val (bCur b) xs) (\<lambda>l. Inr (snd l \<noteq> snd b_el)))
           (\<lambda>wr. rbind (if wr then soft_append tof b_el b xs else Inr (b, xs))
             (\<lambda>(b', xs'). soft_fill k npos tof stamp fillVl value tm
                            (b'\<lparr>bEnd := bEnd b' + bPer b'\<rparr>, xs'))))"

definition soft_set :: "(int \<Rightarrow> int) \<Rightarrow> (int \<Rightarrow> int) \<Rightarrow> ((int \<times> 'v) list \<Rightarrow> 'v store) \<Rightarrow> 'v tbuf \<Rightarrow>
    (int \<times> 'v) list \<Rightarrow> 'v \<Rightarrow> int \<Rightarrow> 'v tbuf res" where
  "soft_set tof stamp mk b xs value tm =
     (let npos = to_i32 (tdiv (tm - bEnd b) (bPer b)); sz = int (length xs)
      in if npos < 0 then Inl (TError Arch_Val_OldBufVl)
         else if npos = 0
         then let b_el = (stamp (bEnd b), value); h_el = (if bCur b \<noteq> 0 then bCur b - 1 else sz - 1)
              in rbind (vat xs h_el) (\<lambda>h.
                   if tdiv (tof (fst h) - bEnd b) (bPer b) \<noteq> 0
                   then rbind (soft_append tof b_el b xs) (\<lambda>(b', xs'). Inr (b'\<lparr>bStore := mk xs'\<rparr>))
                   else rbind (vset xs h_el b_el) (\<lambda>xs'. Inr (b\<lparr>bStore := mk xs'\<rparr>)))
         else rbind (if fillLast b \<and> xs \<noteq> [] then rbind (last_val (bCur b) xs) (\<lambda>l. Inr (snd l))
                     else Inr (bEval b))
                (\<lambda>fillVl. rbind (soft_fill (nat npos) npos tof stamp fillVl value tm (b, xs))
                   (\<lambda>(b', xs'). Inr (b'\<lparr>bStore := mk xs'\<rparr>))))"

text \<open>
  The flow: the position for the stamp \<open>key\<close> is found by the half divider and a scan of the last
  window; the new record is inserted there or replaces the one with that stamp.
\<close>

function flow_pos_half :: "(int \<times> 'v) list \<Rightarrow> int \<Rightarrow> int \<Rightarrow> int \<Rightarrow> int res" where
  "flow_pos_half xs key d_win c_pos =
     (if d_win > HalfDivMinWin
      then rbind (vat xs (c_pos + d_win))
             (\<lambda>r. flow_pos_half xs key (tdiv d_win 2) (if key > fst r then c_pos + d_win else c_pos))
      else Inr c_pos)"
  by pat_completeness auto
termination
  by (relation "measure (\<lambda>(xs, key, d_win, c_pos). nat d_win)")
     (auto simp: HalfDivMinWin_def tdiv_nonneg)

function flow_put :: "(int \<Rightarrow> int) \<Rightarrow> ((int \<times> 'v) list \<Rightarrow> 'v store) \<Rightarrow> 'v tbuf \<Rightarrow> (int \<times> 'v) list \<Rightarrow>
    int \<Rightarrow> 'v \<Rightarrow> int \<Rightarrow> 'v tbuf res" where
  "flow_put tof mk b xs key value c_pos =
     (if c_pos \<ge> int (length xs) \<or> c_pos < 0 \<or> key < fst (xs ! nat c_pos)
      then if c_pos < 0 then Inl UndefRead
           else let n0 = cnt_in (bEval b) value (mEvalCnt b);
                    xs1 = take (nat c_pos) xs @ (key, value) # drop (nat c_pos) xs;
                    full = (bSize b \<noteq> 0 \<and> int (length xs1) > bSize b);
                    n1 = (if full then cnt_out (bEval b) (snd (hd xs1)) n0 else n0);
                    xs2 = (if full then tl xs1 else xs1)
                in rbind (vat xs2 0) (\<lambda>f. rbind (vat xs2 (int (length xs2) - 1)) (\<lambda>l.
                     Inr (b\<lparr>mEvalCnt := n1, bBeg := tof (fst f), bEnd := tof (fst l),
                             bStore := mk xs2\<rparr>)))
      else if key = fst (xs ! nat c_pos)
      then Inr (b\<lparr>mEvalCnt := cnt_out (bEval b) (snd (xs ! nat c_pos)) (mEvalCnt b),
                  bStore := mk (xs[nat c_pos := (key, value)])\<rparr>)
      else flow_put tof mk b xs key value (c_pos + 1))"
  by pat_completeness auto
termination
  by (relation "measure (\<lambda>(tof, mk, b, xs, key, value, c_pos). nat (int (length xs) - c_pos))") auto

definition flow_set :: "(int \<Rightarrow> int) \<Rightarrow> ((int \<times> 'v) list \<Rightarrow> 'v store) \<Rightarrow> 'v tbuf \<Rightarrow> (int \<times> 'v) list \<Rightarrow>
    'v \<Rightarrow> int \<Rightarrow> int \<Rightarrow> 'v tbuf res" where
  "flow_set tof mk b xs value tm key =
     (if tm < bBeg b \<and> bSize b \<noteq> 0 \<and> int (length xs) \<ge> bSize b
      then Inl (TError Arch_Val_OldBufVl)
      else rbind (flow_pos_half xs key (tdiv (int (length xs)) 2) 0) (flow_put tof mk b xs key value))"

text \<open>
  \<open>TBuf::set\<close>; \<open>now\<close> is \<open>TSYS::curTime()\<close>, taken for a zero time.  An exception is
  the result \<open>Inl\<close>; what it leaves of the buffer is not part of the model.
\<close>

definition tb_set :: "int \<Rightarrow> 'v tbuf \<Rightarrow> 'v \<Rightarrow> int \<Rightarrow> 'v tbuf res" where
  "tb_set now b0 value tm0 =
     (let tm = (if tm0 = 0 then now else tm0);
          per = bPer b0;
          b = b0\<lparr>bEnd := (if bEnd b0 = 0 then (if per \<noteq> 0 then per * (tdiv tm per - 1) else tm) else bEnd b0),
                 bBeg := (if bBeg b0 = 0 then (if per \<noteq> 0 then per * tdiv tm per else tm) else bBeg b0)\<rparr>
      in if \<not> mode_ok (hrdGrd b) (hgResTm b) (bStore b) then Inl BadCast
         else case bStore b of
                NoBuf \<Rightarrow> Inl UndefRead
              | Grid g \<Rightarrow> hard_set b g value tm
              | TmHigh xs \<Rightarrow>
                  if per \<noteq> 0 then soft_set id id TmHigh b xs value tm
                  else flow_set id TmHigh b xs value tm tm
              | TmLow xs \<Rightarrow>
                  if per \<noteq> 0 then soft_set us_of_sec (\<lambda>t. tdiv t 1000000) TmLow b xs value tm
                  else flow_set us_of_sec TmLow b xs value tm (tdiv tm 1000000))"

end
