(* ===== verification/Tval_Flow.thy ===== *)
theory Tval_Flow
  imports Tval_Buf
begin

text \<open>
  The flow buffer (\<open>TBuf::set\<close> and \<open>TBuf::get\<close> without a period) against its specification: a
  sorted list of stamped values, from which the oldest ones are dropped at the size limit.
  The half dividers are shown to be optimisations only: they keep the position they search for.
\<close>

section \<open>The specification: insertion in the order of the stamps, the youngest records kept\<close>

fun upd_sorted :: "int \<Rightarrow> 'v \<Rightarrow> (int \<times> 'v) list \<Rightarrow> (int \<times> 'v) list" where
  "upd_sorted k v [] = [(k, v)]"
| "upd_sorted k v ((k', v') # xs) =
     (if k < k' then (k, v) # (k', v') # xs
      else if k = k' then (k, v) # xs else (k', v') # upd_sorted k v xs)"

definition keep_last :: "int \<Rightarrow> 'a list \<Rightarrow> 'a list" where
  "keep_last sz xs = (if sz \<noteq> 0 then drop (length xs - nat sz) xs else xs)"

definition stamps_ok :: "(int \<times> 'v) list \<Rightarrow> bool" where
  "stamps_ok xs \<longleftrightarrow> sorted_wrt (<) (map fst xs)"

lemma stamps_ok_Cons: "stamps_ok (r # xs) \<longleftrightarrow> (\<forall>s \<in> set xs. fst r < fst s) \<and> stamps_ok xs"
  by (auto simp: stamps_ok_def)

lemma stamps_ok_nth: "stamps_ok xs \<Longrightarrow> i < j \<Longrightarrow> j < length xs \<Longrightarrow> fst (xs ! i) < fst (xs ! j)"
  by (auto simp: stamps_ok_def sorted_wrt_iff_nth_less)

lemma fst_upd_sorted: "fst ` set (upd_sorted k v xs) = insert k (fst ` set xs)"
  by (induction k v xs rule: upd_sorted.induct) auto

lemma upd_sorted_not_Nil [simp]: "upd_sorted k v xs \<noteq> []"
  by (cases "(k, v, xs)" rule: upd_sorted.cases) auto

lemma stamps_ok_upd: "stamps_ok xs \<Longrightarrow> stamps_ok (upd_sorted k v xs)"
proof (induction k v xs rule: upd_sorted.induct)
  case (2 k v k' v' xs)
  have "\<forall>s \<in> set (upd_sorted k v xs). fst s \<in> insert k (fst ` set xs)"
    using fst_upd_sorted [of k v xs] by blast
  with 2 show ?case by (force simp: stamps_ok_Cons)
qed (simp add: stamps_ok_def)

lemma map_of_upd_sorted: "stamps_ok xs \<Longrightarrow> map_of (upd_sorted k v xs) = (map_of xs)(k \<mapsto> v)"
proof (induction k v xs rule: upd_sorted.induct)
  case (2 k v k' v' xs)
  have "k < k' \<Longrightarrow> map_of ((k', v') # xs) k = None"
    using 2 by (force simp: map_of_eq_None_iff stamps_ok_Cons)
  with 2 show ?case by (auto simp: stamps_ok_Cons fun_eq_iff)
qed simp

lemma upd_sorted_append:
  "\<forall>r \<in> set ys. fst r < k \<Longrightarrow> upd_sorted k v (ys @ zs) = ys @ upd_sorted k v zs"
  by (induction ys) auto

declare flow_pos_half.simps [simp del] flow_put.simps [simp del] flow_half.simps [simp del]
  flow_scan.simps [simp del] soft_half.simps [simp del]

section \<open>The search of the position and the insertion\<close>

lemma flow_pos_half_ok:
  assumes "stamps_ok xs" "0 \<le> c" "0 \<le> d" "c + 2 * d \<le> int (length xs)"
    "\<forall>i < nat c. fst (xs ! i) < key"
  shows "\<exists>p. flow_pos_half xs key d c = Inr p \<and> 0 \<le> p \<and> p \<le> int (length xs) \<and>
    (\<forall>i < nat p. fst (xs ! i) < key)"
  using assms
proof (induction xs key d c rule: flow_pos_half.induct)
  case (1 xs key d c)
  show ?case
  proof (cases "d > HalfDivMinWin")
    case True
    then have d: "5 < d" by (simp add: HalfDivMinWin_def)
    let ?r = "xs ! nat (c + d)" let ?c = "if key > fst ?r then c + d else c"
    from d 1 have at: "vat xs (c + d) = Inr ?r" by (intro vat_ok) auto
    have "\<forall>i < nat ?c. fst (xs ! i) < key"
    proof (cases "key > fst ?r")
      case True
      have "fst (xs ! i) < key" if "i < nat (c + d)" for i
      proof -
        have "nat (c + d) < length xs" using d "1.prems" by linarith
        with stamps_ok_nth [OF "1.prems"(1) that] True show ?thesis by simp
      qed
      with True show ?thesis by simp
    qed (use "1.prems" in simp)
    moreover have "0 \<le> ?c" "?c + 2 * tdiv d 2 \<le> int (length xs)" "0 \<le> tdiv d 2"
      using "1.prems" d by (auto simp: tdiv_nonneg)
    ultimately obtain p where "flow_pos_half xs key (tdiv d 2) ?c = Inr p"
      "0 \<le> p" "p \<le> int (length xs)" "\<forall>i < nat p. fst (xs ! i) < key"
      using "1.IH" [OF True, of ?r] "1.prems"(1) by blast
    with at True show ?thesis
      by (subst flow_pos_half.simps) (simp only: if_True rbind_simps, blast)
  next
    case False
    with 1 show ?thesis by (subst flow_pos_half.simps) auto
  qed
qed

definition flow_result :: "(int \<Rightarrow> int) \<Rightarrow> ((int \<times> 'v) list \<Rightarrow> 'v store) \<Rightarrow> 'v tbuf \<Rightarrow> (int \<times> 'v) list \<Rightarrow>
    int \<Rightarrow> 'v \<Rightarrow> 'v tbuf" where
  "flow_result tof mk b xs key value =
     (case map_of xs key of
        Some old \<Rightarrow> b\<lparr>mEvalCnt := cnt_out (bEval b) old (mEvalCnt b), bStore := mk (upd_sorted key value xs)\<rparr>
      | None \<Rightarrow>
          let xs1 = upd_sorted key value xs; n0 = cnt_in (bEval b) value (mEvalCnt b);
              full = (bSize b \<noteq> 0 \<and> int (length xs1) > bSize b);
              n1 = (if full then cnt_out (bEval b) (snd (hd xs1)) n0 else n0);
              xs2 = (if full then tl xs1 else xs1)
          in b\<lparr>mEvalCnt := n1, bBeg := tof (fst (hd xs2)), bEnd := tof (fst (last xs2)), bStore := mk xs2\<rparr>)"

lemma flow_put_insert:
  assumes p: "p = int (length ys)" and xs: "xs = ys @ zs"
    and lt: "zs = [] \<or> key < fst (hd zs)" and new: "upd_sorted key value xs = ys @ (key, value) # zs"
    and none: "map_of xs key = None" and sz: "0 \<le> bSize b"
  shows "flow_put tof mk b xs key value p = Inr (flow_result tof mk b xs key value)"
proof -
  let ?xs1 = "ys @ (key, value) # zs"
  let ?full = "bSize b \<noteq> 0 \<and> int (length ?xs1) > bSize b"
  let ?xs2 = "if ?full then tl ?xs1 else ?xs1"
  have c: "p \<ge> int (length xs) \<or> p < 0 \<or> key < fst (xs ! nat p)"
    using lt by (cases zs) (auto simp: p xs)
  have "?xs2 \<noteq> []" using sz by (cases ys) auto
  then have "vat ?xs2 0 = Inr (hd ?xs2)" "vat ?xs2 (int (length ?xs2) - 1) = Inr (last ?xs2)"
    by (rule vat_hd, rule vat_last)
  note vats = this
  have p0: "\<not> p < 0" and parts: "take (nat p) xs = ys" "drop (nat p) xs = zs" by (simp_all add: p xs)
  show ?thesis
    unfolding flow_put.simps [of tof mk b xs key "value" p] if_P [OF c] if_not_P [OF p0] Let_def
      parts vats rbind_simps flow_result_def none option.case new by (rule refl)
qed

lemma flow_put_ok:
  assumes "stamps_ok (ys @ zs)" "\<forall>r \<in> set ys. fst r < key" "0 \<le> bSize b"
  shows "flow_put tof mk b (ys @ zs) key value (int (length ys)) = Inr (flow_result tof mk b (ys @ zs) key value)"
  using assms
proof (induction zs arbitrary: ys)
  case Nil
  then have "map_of ys key = None" by (auto simp: map_of_eq_None_iff)
  moreover have "upd_sorted key value ys = ys @ [(key, value)]"
    using upd_sorted_append [of ys key "value" "[]"] Nil by simp
  ultimately show ?case using Nil by (intro flow_put_insert) auto
next
  case (Cons z zs)
  obtain k' v' where z: "z = (k', v')" by (cases z)
  have later: "\<forall>r \<in> set zs. k' < fst r" using Cons.prems(1) z by (auto simp: stamps_ok_def sorted_wrt_append)
  have ysn: "map_of ys key = None" using Cons.prems(2) by (auto simp: map_of_eq_None_iff)
  consider "key < k'" | "key = k'" | "k' < key" by linarith
  then show ?case
  proof cases
    case 1
    have "map_of (ys @ z # zs) key = None"
      using 1 later ysn z by (auto simp: map_of_eq_None_iff)
    with 1 z Cons.prems show ?thesis
      by (intro flow_put_insert) (auto simp: upd_sorted_append)
  next
    case 2
    then have "map_of (ys @ z # zs) key = Some v'" using ysn z by (simp add: map_add_def)
    with 2 z Cons.prems show ?thesis
      by (subst flow_put.simps) (simp add: flow_result_def upd_sorted_append nth_append list_update_append)
  next
    case 3
    with z Cons.prems have "flow_put tof mk b ((ys @ [z]) @ zs) key value (int (length (ys @ [z]))) =
        Inr (flow_result tof mk b ((ys @ [z]) @ zs) key value)"
      by (intro Cons.IH) auto
    with 3 z show ?thesis
      by (subst flow_put.simps) (simp add: nth_append add.commute)
  qed
qed

lemma flow_set_ok:
  assumes "stamps_ok xs" "0 \<le> bSize b" "\<not> (tm < bBeg b \<and> bSize b \<noteq> 0 \<and> int (length xs) \<ge> bSize b)"
  shows "flow_set tof mk b xs value tm key = Inr (flow_result tof mk b xs key value)"
proof -
  have "0 \<le> tdiv (int (length xs)) 2" "0 + 2 * tdiv (int (length xs)) 2 \<le> int (length xs)"
    by (simp_all add: tdiv_nonneg)
  then obtain p where p: "flow_pos_half xs key (tdiv (int (length xs)) 2) 0 = Inr p"
    "0 \<le> p" "p \<le> int (length xs)" "\<forall>i < nat p. fst (xs ! i) < key"
    using flow_pos_half_ok [OF assms(1), of 0 "tdiv (int (length xs)) 2" key] by force
  have len: "int (length (take (nat p) xs)) = p" using p by simp
  have "flow_put tof mk b (take (nat p) xs @ drop (nat p) xs) key value (int (length (take (nat p) xs))) =
      Inr (flow_result tof mk b (take (nat p) xs @ drop (nat p) xs) key value)"
    using assms p by (intro flow_put_ok) (fastforce simp: in_set_conv_nth)+
  with p assms len show ?thesis by (simp add: flow_set_def)
qed

section \<open>The flow buffer as a map from stamps to values\<close>

fun store_recs :: "'v store \<Rightarrow> (int \<times> 'v) list" where
  "store_recs (TmHigh xs) = xs"
| "store_recs (TmLow xs) = xs"
| "store_recs _ = []"

definition flow_recs :: "'v tbuf \<Rightarrow> (int \<times> 'v) list" where
  "flow_recs b = store_recs (bStore b)"

definition flow_key :: "'v tbuf \<Rightarrow> int \<Rightarrow> int" where
  "flow_key b tm = (if hgResTm b then tm else tdiv tm 1000000)"

definition flow_us :: "'v tbuf \<Rightarrow> int \<Rightarrow> int" where
  "flow_us b k = (if hgResTm b then k else us_of_sec k)"

definition flow_mk :: "'v tbuf \<Rightarrow> (int \<times> 'v) list \<Rightarrow> 'v store" where
  "flow_mk b = (if hgResTm b then TmHigh else TmLow)"

definition flow_inv :: "'v tbuf \<Rightarrow> bool" where
  "flow_inv b \<longleftrightarrow>
     \<not> hrdGrd b \<and> bPer b = 0 \<and> 0 \<le> bSize b \<and> bStore b = flow_mk b (flow_recs b) \<and>
     stamps_ok (flow_recs b) \<and> (\<forall>r \<in> set (flow_recs b). 0 < fst r) \<and>
     (bSize b \<noteq> 0 \<longrightarrow> int (length (flow_recs b)) \<le> bSize b) \<and>
     (if flow_recs b = [] then bBeg b = 0 \<and> bEnd b = 0
      else bBeg b = flow_us b (fst (hd (flow_recs b))) \<and> bEnd b = flow_us b (fst (last (flow_recs b))))"

lemma flow_mk_simps [simp]:
  "mode_ok False (hgResTm b) (flow_mk b xs)" "store_recs (flow_mk b xs) = xs" 
  by (auto simp: flow_mk_def)

lemma flow_us_key: "0 \<le> tm \<Longrightarrow> flow_us b (flow_key b tm) \<le> tm"
  by (auto simp: flow_us_def flow_key_def us_of_sec_def tdiv_nonneg)

lemma flow_us_mono: "flow_us b k < flow_us b k' \<longleftrightarrow> k < k'"
  by (auto simp: flow_us_def us_of_sec_def)

lemma flow_us_pos: "0 < flow_us b k \<longleftrightarrow> 0 < k"
  by (auto simp: flow_us_def us_of_sec_def)

lemma flow_us_eq: "flow_us b k = flow_us b k' \<longleftrightarrow> k = k'"
  by (auto simp: flow_us_def us_of_sec_def)

lemma flow_key_le: "k \<le> flow_key b tm \<longleftrightarrow> flow_us b k \<le> tm" if "0 \<le> tm"
  using that by (auto simp: flow_us_def flow_key_def us_of_sec_def tdiv_nonneg)

text \<open>The ends the first insertion initialises, and the two modes at once.\<close>

lemma tb_set_flow:
  assumes "flow_inv b" "0 < flow_key b tm"
  shows "tb_set now b v tm =
    flow_set (flow_us b) (flow_mk b)
      (if flow_recs b = [] then b\<lparr>bEnd := tm, bBeg := tm\<rparr> else b) (flow_recs b) v tm (flow_key b tm)"
proof -
  have tm: "tm \<noteq> 0" using assms(2) by (auto simp: flow_key_def split: if_splits)
  have hd: "flow_recs b \<noteq> [] \<Longrightarrow> bBeg b \<noteq> 0 \<and> bEnd b \<noteq> 0"
  proof -
    assume ne: "flow_recs b \<noteq> []"
    with assms(1) have "0 < fst (hd (flow_recs b))" "0 < fst (last (flow_recs b))" by (auto simp: flow_inv_def)
    then have "0 < flow_us b (fst (hd (flow_recs b)))" "0 < flow_us b (fst (last (flow_recs b)))"
      by (simp_all add: flow_us_pos)
    with assms(1) ne show ?thesis by (auto simp: flow_inv_def)
  qed
  have per: "bPer b = 0" and st: "bStore b = flow_mk b (flow_recs b)" and hrd: "\<not> hrdGrd b"
    using assms(1) by (auto simp: flow_inv_def)
  have per: "bPer b = 0" and st: "bStore b = flow_mk b (flow_recs b)" and hrd: "\<not> hrdGrd b"
    and nil: "flow_recs b = [] \<Longrightarrow> bBeg b = 0 \<and> bEnd b = 0"
    using assms(1) by (auto simp: flow_inv_def)
  have same: "b\<lparr>bEnd := bEnd b, bBeg := bBeg b\<rparr> = b" by simp
  show ?thesis
    unfolding tb_set_def Let_def
    using tm hrd st per hd nil
    by (cases "hgResTm b"; cases "flow_recs b = []")
      (simp_all add: flow_mk_def flow_us_def [abs_def] flow_key_def id_def same)
qed

lemma length_upd_sorted:
  "length (upd_sorted k v xs) \<le> Suc (length xs)"
  "map_of xs k = None \<Longrightarrow> stamps_ok xs \<Longrightarrow> length (upd_sorted k v xs) = Suc (length xs)"
  "k \<in> fst ` set xs \<Longrightarrow> stamps_ok xs \<Longrightarrow> length (upd_sorted k v xs) = length xs"
  by (induction k v xs rule: upd_sorted.induct) (auto simp: stamps_ok_Cons split: if_splits)

lemma fst_hd_last_upd:
  assumes "stamps_ok xs" "k \<in> fst ` set xs"
  shows "fst (hd (upd_sorted k v xs)) = fst (hd xs)" "fst (last (upd_sorted k v xs)) = fst (last xs)"
proof -
  have "map fst (upd_sorted k v xs) = map fst xs"
    using assms by (induction k v xs rule: upd_sorted.induct) (auto simp: stamps_ok_Cons)
  moreover have "xs \<noteq> []" using assms(2) by auto
  ultimately show "fst (hd (upd_sorted k v xs)) = fst (hd xs)" "fst (last (upd_sorted k v xs)) = fst (last xs)"
    using upd_sorted_not_Nil [of k v xs] by (metis hd_map, metis last_map)
qed

lemma keep_last_length: "0 \<le> sz \<Longrightarrow> sz \<noteq> 0 \<Longrightarrow> int (length (keep_last sz xs)) \<le> sz"
  by (simp add: keep_last_def)

lemma keep_last_one_more:
  assumes "0 \<le> sz" "sz \<noteq> 0 \<longrightarrow> int (length xs) \<le> sz + 1"
  shows "keep_last sz xs = (if sz \<noteq> 0 \<and> int (length xs) > sz then tl xs else xs)"
proof (cases "sz \<noteq> 0 \<and> int (length xs) > sz")
  case True
  with assms have "length xs - nat sz = 1" by linarith
  with True show ?thesis by (simp add: keep_last_def drop_Suc)
qed (use assms in \<open>auto simp: keep_last_def\<close>)

definition flow_rejects :: "'v tbuf \<Rightarrow> int \<Rightarrow> bool" where
  "flow_rejects b tm \<longleftrightarrow> flow_recs b \<noteq> [] \<and> tm < bBeg b \<and> bSize b \<noteq> 0 \<and> int (length (flow_recs b)) \<ge> bSize b"

lemma flow_set_inv:
  assumes inv: "flow_inv b" and key: "0 < flow_key b tm" and acc: "\<not> flow_rejects b tm"
  obtains b' where "tb_set now b v tm = Inr b'" "flow_inv b'"
    "flow_recs b' = keep_last (bSize b) (upd_sorted (flow_key b tm) v (flow_recs b))"
    "hgResTm b' = hgResTm b" "bSize b' = bSize b" "bEval b' = bEval b"
proof -
  let ?b = "if flow_recs b = [] then b\<lparr>bEnd := tm, bBeg := tm\<rparr> else b" and ?xs = "flow_recs b"
  let ?us = "flow_us b" and ?mk = "flow_mk b" and ?k = "flow_key b tm" let ?ys = "upd_sorted ?k v ?xs"
  have st: "stamps_ok ?xs" and sz: "0 \<le> bSize b" using inv by (auto simp: flow_inv_def)
  have acc': "\<not> (tm < bBeg ?b \<and> bSize ?b \<noteq> 0 \<and> int (length ?xs) \<ge> bSize ?b)"
    using acc by (auto simp: flow_rejects_def)
  define r where "r = flow_result ?us ?mk ?b ?xs ?k v"
  have set: "tb_set now b v tm = Inr r"
    using tb_set_flow [OF inv key] flow_set_ok [OF st, of ?b] sz acc' by (simp add: r_def)
  have same: "hgResTm r = hgResTm b" "bSize r = bSize b" "bEval r = bEval b" "hrdGrd r = hrdGrd b" "bPer r = bPer b"
    by (auto simp: r_def flow_result_def Let_def split: option.splits)
  then have us: "flow_us r = flow_us b" "flow_mk r = flow_mk b" by (auto simp: flow_us_def flow_mk_def fun_eq_iff)
  have len: "bSize b \<noteq> 0 \<longrightarrow> int (length ?xs) \<le> bSize b" using inv by (simp add: flow_inv_def)
  then have kl: "keep_last (bSize b) ?ys =
      (if bSize b \<noteq> 0 \<and> int (length ?ys) > bSize b then tl ?ys else ?ys)"
    using length_upd_sorted(1) [of ?k v ?xs] sz by (intro keep_last_one_more) auto
  have ne: "keep_last (bSize b) ?ys \<noteq> []"
  proof -
    have "0 < length ?ys" by simp
    moreover have "bSize b \<noteq> 0 \<Longrightarrow> 0 < nat (bSize b)" using sz by simp
    ultimately show ?thesis unfolding keep_last_def by (metis diff_less drop_eq_Nil leD upd_sorted_not_Nil)
  qed
  have recs: "bStore r = ?mk (keep_last (bSize b) ?ys)" (is ?A)
    and ends: "bBeg r = ?us (fst (hd (keep_last (bSize b) ?ys))) \<and> bEnd r = ?us (fst (last (keep_last (bSize b) ?ys)))" (is ?B)
  proof -
    show ?A
    proof (cases "map_of ?xs ?k")
      case None
      with kl show ?thesis by (simp add: r_def flow_result_def Let_def)
    next
      case (Some old)
      then have "?k \<in> fst ` set ?xs" by (metis domI dom_map_of_conv_image_fst)
      then have "length ?ys = length ?xs" using st by (simp add: length_upd_sorted)
      then have "keep_last (bSize b) ?ys = ?ys" using len by (auto simp: keep_last_def)
      with Some show ?thesis by (simp add: r_def flow_result_def)
    qed
    show ?B
    proof (cases "map_of ?xs ?k")
      case None
      with kl show ?thesis by (simp add: r_def flow_result_def Let_def)
    next
      case (Some old)
      then have k: "?k \<in> fst ` set ?xs" by (metis domI dom_map_of_conv_image_fst)
      then have "length ?ys = length ?xs" "?xs \<noteq> []" using st by (auto simp: length_upd_sorted)
      moreover from this have "keep_last (bSize b) ?ys = ?ys" using len by (auto simp: keep_last_def)
      ultimately show ?thesis using Some fst_hd_last_upd [OF st k] inv
        by (auto simp: r_def flow_result_def flow_inv_def)
    qed
  qed
  have recs': "flow_recs r = keep_last (bSize b) ?ys" using recs by (simp add: flow_recs_def)
  have "stamps_ok (keep_last (bSize b) ?ys)"
    using stamps_ok_upd [OF st] by (auto simp: keep_last_def stamps_ok_def drop_map [symmetric] sorted_wrt_drop)
  moreover have "\<forall>s \<in> set (keep_last (bSize b) ?ys). 0 < fst s"
  proof
    fix s assume "s \<in> set (keep_last (bSize b) ?ys)"
    then have "s \<in> set ?ys" by (auto simp: keep_last_def dest: in_set_dropD split: if_splits)
    then have "fst s \<in> insert ?k (fst ` set ?xs)" using fst_upd_sorted [of ?k v ?xs] by blast
    with key inv show "0 < fst s" by (auto simp: flow_inv_def)
  qed
  ultimately have "flow_inv r"
    using inv ne keep_last_length [OF sz, of ?ys] us same ends recs by (auto simp: flow_inv_def recs')
  with set recs' same show thesis using that by blast
qed

section \<open>Reading\<close>

text \<open>The vector in the direction of the search and the test of a stamp.\<close>

definition flow_view :: "bool \<Rightarrow> 'a list \<Rightarrow> 'a list" where
  "flow_view up xs = (if up then rev xs else xs)"

definition flow_hit :: "(int \<Rightarrow> bool) \<Rightarrow> (int \<Rightarrow> bool) \<Rightarrow> bool \<Rightarrow> int \<Rightarrow> bool" where
  "flow_hit after before up t = (if up then before t else after t)"

lemma length_flow_view [simp]: "length (flow_view up xs) = length xs"
  by (simp add: flow_view_def)

lemma vat_view:
  "0 \<le> c \<Longrightarrow> c < int (length xs) \<Longrightarrow>
   (if up then vat xs (int (length xs) - c - 1) else vat xs c) = Inr (flow_view up xs ! nat c)"
  by (auto simp: vat_def flow_view_def rev_nth intro!: arg_cong [where f = "(!) xs"])

lemma flow_half_ok:
  assumes mono: "\<And>i j. i < j \<Longrightarrow> j < length xs \<Longrightarrow> P (fst (ys ! j)) \<Longrightarrow> P (fst (ys ! i))"
    and ys: "ys = flow_view up xs" and P: "P = flow_hit after before up"
    and "0 \<le> d" "2 * d \<le> c \<or> d = 0" "c < int (length xs)" "\<forall>i < length xs. int i > c \<longrightarrow> \<not> P (fst (ys ! i))"
  shows "\<exists>c'. flow_half after before xs up d c = Inr c' \<and> c' < int (length xs) \<and>
    (\<forall>i < length xs. int i > c' \<longrightarrow> \<not> P (fst (ys ! i)))"
  using assms(4-)
proof (induction "nat d" arbitrary: d c rule: less_induct)
  case less
  show ?case
  proof (cases "d > HalfDivMinWin")
    case True
    then have d: "5 < d" "0 \<le> c - d" "c - d < int (length xs)" using less.prems by (auto simp: HalfDivMinWin_def)
    let ?r = "ys ! nat (c - d)"
    have hit: "(\<not> up \<and> after (fst ?r) \<or> up \<and> before (fst ?r)) = P (fst ?r)" by (auto simp: P flow_hit_def)
    let ?c = "if \<not> P (fst ?r) then c - d else c"
    have at: "(if up then vat xs (int (length xs) - (c - d) - 1) else vat xs (c - d)) = Inr ?r"
      unfolding ys using d by (rule_tac vat_view) auto
    have fails: "\<forall>i < length xs. int i > ?c \<longrightarrow> \<not> P (fst (ys ! i))"
    proof (cases "P (fst ?r)")
      case False
      have "\<not> P (fst (ys ! i))" if "i < length xs" "int i > c - d" for i
      proof -
        have "nat (c - d) < i" using that(2) d by linarith
        from mono [OF this that(1)] False show ?thesis by blast
      qed
      with False show ?thesis by simp
    qed (use less.prems in simp)
    have step: "flow_half after before xs up d c = flow_half after before xs up (tdiv d 2) ?c"
      unfolding flow_half.simps [of after before xs up d c] if_P [OF True] at rbind_simps hit by (rule refl)
    have win: "nat (tdiv d 2) < nat d" "0 \<le> tdiv d 2" "2 * tdiv d 2 \<le> d" using d by (simp_all add: tdiv_nonneg)
    have "2 * tdiv d 2 \<le> ?c \<or> tdiv d 2 = 0" "?c < int (length xs)" using win d less.prems by (simp_all split: if_split)
    with less.hyps [OF win(1,2) _ _ fails] show ?thesis unfolding step by blast
  next
    case False
    with less.prems show ?thesis by (subst flow_half.simps) auto
  qed
qed

lemma flow_scan_ok:
  assumes ys: "ys = flow_view up xs" and P: "P = flow_hit after before up"
    and "c < int (length xs)" "\<forall>i < length xs. int i > c \<longrightarrow> \<not> P (fst (ys ! i))"
  shows "flow_scan tof after before b xs up c =
    (case filter (P \<circ> fst) ys of [] \<Rightarrow> Inr (bEval b, 0) | rs \<Rightarrow> Inr (snd (last rs), tof (fst (last rs))))"
  using assms(3-)
proof (induction "nat (c + 1)" arbitrary: c)
  case 0
  then have "\<not> P (fst r)" if "r \<in> set ys" for r
    using that by (fastforce simp: in_set_conv_nth ys)
  then have "filter (P \<circ> fst) ys = []" by (simp add: filter_empty_conv)
  with 0 show ?case by (subst flow_scan.simps) simp
next
  case (Suc n)
  then have c: "0 \<le> c" and c': "\<not> c < 0" by simp_all
  let ?r = "ys ! nat c"
  have at: "(if up then vat xs (int (length xs) - c - 1) else vat xs c) = Inr ?r"
    unfolding ys using c Suc.prems by (intro vat_view)
  have hit: "(\<not> up \<and> after (fst ?r) \<or> up \<and> before (fst ?r)) = P (fst ?r)" by (auto simp: P flow_hit_def)
  show ?case
  proof (cases "P (fst ?r)")
    case True
    have "ys = take (nat c) ys @ ?r # drop (Suc (nat c)) ys"
      using c Suc.prems by (intro id_take_nth_drop) (simp add: ys)
    moreover have "filter (P \<circ> fst) (drop (Suc (nat c)) ys) = []" unfolding filter_empty_conv
    proof
      fix r assume "r \<in> set (drop (Suc (nat c)) ys)"
      then obtain i where "i < length ys - Suc (nat c)" "r = ys ! (Suc (nat c) + i)"
        by (auto simp: in_set_conv_nth)
      with Suc.prems(2) c show "\<not> (P \<circ> fst) r" by (simp add: ys)
    qed
    ultimately have "filter (P \<circ> fst) ys = filter (P \<circ> fst) (take (nat c) ys) @ [?r]"
      using True filter_append [of "P \<circ> fst" "take (nat c) ys" "?r # drop (Suc (nat c)) ys"] by simp
    then have "last (filter (P \<circ> fst) ys) = ?r" "filter (P \<circ> fst) ys \<noteq> []" by simp_all
    with True show ?thesis
      unfolding flow_scan.simps [of tof after before b xs up c] if_not_P [OF c'] at rbind_simps case_prod_unfold hit
      by (auto simp: neq_Nil_conv)
  next
    case False
    have "\<forall>i < length xs. int i > c - 1 \<longrightarrow> \<not> P (fst (ys ! i))"
    proof (intro allI impI)
      fix i assume i: "i < length xs" "int i > c - 1"
      show "\<not> P (fst (ys ! i))"
        using False Suc.prems i c by (cases "int i = c") auto
    qed
    then have "flow_scan tof after before b xs up (c - 1) =
      (case filter (P \<circ> fst) ys of [] \<Rightarrow> Inr (bEval b, 0) | rs \<Rightarrow> Inr (snd (last rs), tof (fst (last rs))))"
      using Suc by (intro Suc.hyps(1)) auto
    with False show ?thesis
      unfolding flow_scan.simps [of tof after before b xs up c] if_not_P [OF c'] at rbind_simps case_prod_unfold hit
      by simp
  qed
qed

lemma flow_get_ok:
  assumes "\<And>i j. i < j \<Longrightarrow> j < length xs \<Longrightarrow> flow_hit after before up (fst (flow_view up xs ! j)) \<Longrightarrow>
    flow_hit after before up (fst (flow_view up xs ! i))"
  shows "flow_get tof after before b xs up =
    (case filter (flow_hit after before up \<circ> fst) (flow_view up xs) of [] \<Rightarrow> Inr (bEval b, 0)
     | rs \<Rightarrow> Inr (snd (last rs), tof (fst (last rs))))"
proof -
  let ?c = "int (length xs) - 1"
  have "0 \<le> tdiv ?c 2" "2 * tdiv ?c 2 \<le> ?c \<or> tdiv ?c 2 = 0"
    by (cases xs, auto simp: tdiv_nonneg tdiv_def)+
  then have "\<exists>c'. flow_half after before xs up (tdiv ?c 2) ?c = Inr c' \<and> c' < int (length xs) \<and>
    (\<forall>i < length xs. int i > c' \<longrightarrow> \<not> flow_hit after before up (fst (flow_view up xs ! i)))"
    by (intro flow_half_ok [OF assms refl refl]) simp_all
  then obtain c' where "flow_half after before xs up (tdiv ?c 2) ?c = Inr c'" "c' < int (length xs)"
    "\<forall>i < length xs. int i > c' \<longrightarrow> \<not> flow_hit after before up (fst (flow_view up xs ! i))" by blast
  with flow_scan_ok [OF refl refl this(2,3)] show ?thesis by (simp only: flow_get_def Let_def rbind_simps)
qed

lemma filter_rev_flow: "flow_view up (filter P xs) = filter P (flow_view up xs)"
  by (simp add: flow_view_def rev_filter)

definition flow_before :: "'v tbuf \<Rightarrow> int \<Rightarrow> (int \<times> 'v) list" where
  "flow_before b tm = filter (\<lambda>r. flow_us b (fst r) \<le> tm) (flow_recs b)"

definition flow_after :: "'v tbuf \<Rightarrow> int \<Rightarrow> (int \<times> 'v) list" where
  "flow_after b tm = filter (\<lambda>r. tm \<le> flow_us b (fst r)) (flow_recs b)"

lemma tb_get_flow:
  assumes "flow_inv b" "0 \<le> tm" "bBeg b \<le> tm" "tm \<le> bEnd b"
  shows "tb_get b tm up =
    (case if up then rev (flow_after b tm) else flow_before b tm of [] \<Rightarrow> Inr (bEval b, 0)
     | rs \<Rightarrow> Inr (snd (last rs), flow_us b (fst (last rs))))"
proof -
  let ?after = "\<lambda>t. t \<le> flow_key b tm" and ?before = "\<lambda>t. tm \<le> flow_us b t" and ?xs = "flow_recs b"
  have st: "stamps_ok ?xs" "\<not> hrdGrd b" "bPer b = 0" "bStore b = flow_mk b ?xs"
    using assms by (auto simp: flow_inv_def)
  have m: "flow_hit ?after ?before up (fst (flow_view up ?xs ! i))"
    if "i < j" "j < length ?xs" "flow_hit ?after ?before up (fst (flow_view up ?xs ! j))" for i j
  proof (cases up)
    case True
    with that have "fst (?xs ! (length ?xs - Suc j)) < fst (?xs ! (length ?xs - Suc i))"
      by (intro stamps_ok_nth [OF st(1)]) auto
    then have "flow_us b (fst (?xs ! (length ?xs - Suc j))) < flow_us b (fst (?xs ! (length ?xs - Suc i)))"
      by (simp add: flow_us_mono)
    with True that show ?thesis by (simp add: flow_view_def flow_hit_def rev_nth)
  next
    case False
    with that stamps_ok_nth [OF st(1) that(1,2)] show ?thesis by (simp add: flow_view_def flow_hit_def)
  qed
  have "tb_get b tm up = flow_get (flow_us b) ?after ?before b ?xs up"
    using assms st
    by (cases "hgResTm b") (auto simp: tb_get_def flow_mk_def flow_us_def [abs_def] flow_key_def id_def)
  also have "\<dots> = (case filter (flow_hit ?after ?before up \<circ> fst) (flow_view up ?xs) of [] \<Rightarrow> Inr (bEval b, 0)
     | rs \<Rightarrow> Inr (snd (last rs), flow_us b (fst (last rs))))"
    by (rule flow_get_ok) (rule m)
  also have "filter (flow_hit ?after ?before up \<circ> fst) (flow_view up ?xs) =
      (if up then rev (flow_after b tm) else flow_before b tm)"
    using assms(2) by (simp add: flow_view_def flow_after_def flow_before_def flow_hit_def comp_def rev_filter
      flow_key_le)
  finally show ?thesis .
qed

end
