(* ===== verification/Tval_Grid.thy ===== *)
theory Tval_Grid
  imports Tval_Flow
begin

text \<open>
  The hard grid buffer (\<open>TBuf::set\<close> and \<open>TBuf::get\<close> with \<open>hrdGrd\<close>) against its specification: the
  ring of cells is the list of the values of the last periods in the order of time, and the
  counter of the empty values is their number.
\<close>

section \<open>The ring\<close>

lemma keep_last_0 [simp]: "keep_last 0 xs = xs"
  by (simp add: keep_last_def)

lemma keep_last_append: "keep_last sz (keep_last sz xs @ ys) = keep_last sz (xs @ ys)"
proof (cases "length xs - nat sz = 0")
  case False
  then have "length xs + length ys - nat sz = (length ys + nat sz - nat sz) + (length xs - nat sz)" by simp
  with False show ?thesis by (auto simp: keep_last_def drop_drop)
qed (auto simp: keep_last_def)

lemma keep_last_id: "sz \<noteq> 0 \<Longrightarrow> int (length xs) \<le> sz \<Longrightarrow> keep_last sz xs = xs"
  by (auto simp: keep_last_def)

lemma length_keep_last: "0 \<le> sz \<Longrightarrow> length (keep_last sz xs) = (if sz = 0 then length xs else min (nat sz) (length xs))"
  by (auto simp: keep_last_def)

lemma keep_last_not_Nil: "0 \<le> sz \<Longrightarrow> xs \<noteq> [] \<Longrightarrow> keep_last sz xs \<noteq> []"
proof -
  assume a: "0 \<le> sz" "xs \<noteq> []"
  then have "length (keep_last sz xs) \<noteq> 0" by (auto simp: length_keep_last)
  then show ?thesis by auto
qed

text \<open>The ring in the order of time.\<close>

definition ring_hist :: "int \<Rightarrow> 'a list \<Rightarrow> 'a list" where
  "ring_hist cur g = rotate (nat cur) g"

definition ring_ok :: "int \<Rightarrow> int \<Rightarrow> 'a list \<Rightarrow> bool" where
  "ring_ok sz cur g \<longleftrightarrow> 0 \<le> sz \<and> 0 \<le> cur \<and> (sz \<noteq> 0 \<longrightarrow> int (length g) \<le> sz) \<and>
     (if sz \<noteq> 0 \<and> int (length g) = sz then cur < sz else cur = int (length g))"

lemma length_ring_hist [simp]: "length (ring_hist cur g) = length g"
  by (simp add: ring_hist_def)

lemma set_ring_hist [simp]: "set (ring_hist cur g) = set g"
  by (simp add: ring_hist_def)

lemma ring_hist_parts: "0 \<le> cur \<Longrightarrow> cur \<le> int (length g) \<Longrightarrow> ring_hist cur g = drop (nat cur) g @ take (nat cur) g"
  unfolding ring_hist_def by (cases "nat cur = length g") (auto simp: rotate_drop_take)

lemma ring_push_room:
  assumes "ring_ok sz cur g" "cur \<ge> int (length g)"
  shows "ring_ok sz (cur_next sz cur) (g @ [w]) \<and>
    ring_hist (cur_next sz cur) (g @ [w]) = keep_last sz (ring_hist cur g @ [w])"
proof -
  have "nat (int (length g) + 1) = length (g @ [w])" by simp
  then have "rotate (nat (int (length g) + 1)) (g @ [w]) = g @ [w]" by (simp only: rotate_length01 rotate_id mod_self)
  with assms show ?thesis
    by (auto simp: ring_ok_def cur_next_def ring_hist_def keep_last_id split: if_splits)
qed

lemma ring_push_full:
  assumes "ring_ok sz cur g" "cur < int (length g)"
  shows "ring_ok sz (cur_next sz cur) (g[nat cur := w]) \<and>
    ring_hist (cur_next sz cur) (g[nat cur := w]) = keep_last sz (ring_hist cur g @ [w])"
proof -
  have sz: "sz \<noteq> 0" "int (length g) = sz" "0 \<le> cur" using assms by (auto simp: ring_ok_def split: if_splits)
  define c where "c = nat cur"
  have c: "c < length g" "cur = int c" using assms(2) sz c_def by auto
  have h: "ring_hist cur g = g ! c # drop (Suc c) g @ take c g"
    using c by (simp add: ring_hist_parts Cons_nth_drop_Suc)
  have "keep_last sz (ring_hist cur g @ [w]) = drop (Suc c) g @ take c g @ [w]"
    using sz c unfolding h keep_last_def by (simp add: nat_eq_iff Suc_diff_le)
  moreover have "ring_hist (cur_next sz cur) (g[nat cur := w]) = drop (Suc c) g @ take c g @ [w]"
  proof (cases "Suc c = length g")
    case True
    with c sz show ?thesis
      by (auto simp: cur_next_def ring_hist_def upd_conv_take_nth_drop)
  next
    case False
    with c sz have "cur_next sz cur = int (Suc c)" "Suc c < length g" by (auto simp: cur_next_def)
    moreover have "nat (1 + int c) = Suc c" by simp
    ultimately show ?thesis using c
      by (simp add: ring_hist_parts take_Suc_conv_app_nth)
  qed
  ultimately show ?thesis using assms sz by (auto simp: ring_ok_def cur_next_def)
qed

text \<open>The element \<open>n\<close> places before the newest.\<close>

lemma ring_nth:
  assumes "ring_ok sz cur g" "0 \<le> n" "n < int (length g)"
  shows "0 \<le> (if cur - n - 1 \<ge> 0 then cur - n - 1 else int (length g) + (cur - n - 1))"
    "(if cur - n - 1 \<ge> 0 then cur - n - 1 else int (length g) + (cur - n - 1)) < int (length g)"
    "g ! nat (if cur - n - 1 \<ge> 0 then cur - n - 1 else int (length g) + (cur - n - 1)) =
       ring_hist cur g ! nat (int (length g) - 1 - n)"
proof -
  have cur: "0 \<le> cur" "cur \<le> int (length g)" using assms(1) by (auto simp: ring_ok_def split: if_splits)
  then show "0 \<le> (if cur - n - 1 \<ge> 0 then cur - n - 1 else int (length g) + (cur - n - 1))"
    "(if cur - n - 1 \<ge> 0 then cur - n - 1 else int (length g) + (cur - n - 1)) < int (length g)"
    using assms by auto
  show "g ! nat (if cur - n - 1 \<ge> 0 then cur - n - 1 else int (length g) + (cur - n - 1)) =
       ring_hist cur g ! nat (int (length g) - 1 - n)"
    unfolding ring_hist_parts [OF cur] using cur assms(2,3)
    by (auto simp: nth_append nat_less_iff min_def intro!: arg_cong [where f = "(!) g"])
qed

lemma ring_update:
  assumes "ring_ok sz cur g" "0 \<le> n" "n < int (length g)"
  shows "ring_hist cur (g[nat (if cur - n - 1 < 0 then int (length g) + (cur - n - 1) else cur - n - 1) := v]) =
     (ring_hist cur g)[nat (int (length g) - 1 - n) := v]"
proof -
  have cur: "0 \<le> cur" "cur \<le> int (length g)" using assms(1) by (auto simp: ring_ok_def split: if_splits)
  let ?i = "if cur - n - 1 < 0 then int (length g) + (cur - n - 1) else cur - n - 1"
  define i where "i = nat ?i"
  have i: "i < length g" unfolding i_def using cur assms(2,3) by auto
  show ?thesis unfolding i_def [symmetric]
  proof (rule nth_equalityI)
    fix k assume "k < length (ring_hist cur (g[i := v]))"
    then have k: "k < length g" by simp
    have j: "(k + nat cur) mod length g = i \<longleftrightarrow> k = nat (int (length g) - 1 - n)"
      unfolding i_def using cur assms(2,3) k by (cases "k + nat cur < length g")
        (auto simp: mod_if [of "k + nat cur"] nat_eq_iff)
    have "(k + nat cur) mod length g < length g" using k by (intro mod_less_divisor) auto
    with j k show "ring_hist cur (g[i := v]) ! k = (ring_hist cur g)[nat (int (length g) - 1 - n) := v] ! k"
      using i by (cases "k = nat (int (length g) - 1 - n)") (auto simp: ring_hist_def nth_rotate add.commute)
  qed simp
qed

lemma count_update:
  assumes "i < length g"
  shows "of_nat (count_list (g[i := w]) e) = cnt_out e (g ! i) (cnt_in e w (of_nat (count_list g e)))"
proof -
  have "count_list g e = count_list (take i g) e + count_list (g ! i # drop (Suc i) g) e"
    using assms by (metis count_list_append id_take_nth_drop)
  then show ?thesis using assms
    by (simp add: upd_conv_take_nth_drop cnt_in_def cnt_out_def)
qed

section \<open>The hard grid\<close>

definition hard_ok :: "'v tbuf \<Rightarrow> 'v list \<Rightarrow> bool" where
  "hard_ok b g \<longleftrightarrow> hrdGrd b \<and> 0 < bPer b \<and> ring_ok (bSize b) (bCur b) g \<and>
     bEnd b = bBeg b + (int (length g) - 1) * bPer b \<and> mEvalCnt b = of_nat (count_list g (bEval b))"

lemma hard_push_ok:
  assumes "hard_ok b g"
  obtains b' g' where "hard_push w b g = Inr (b', g')" "hard_ok b' g'"
    "ring_hist (bCur b') g' = keep_last (bSize b) (ring_hist (bCur b) g @ [w])"
    "bEnd b' = bEnd b + bPer b" "bSize b' = bSize b" "bPer b' = bPer b" "bEval b' = bEval b" 
    "hgResTm b' = hgResTm b" "bBeg b \<le> bBeg b'"
proof -
  have ok: "ring_ok (bSize b) (bCur b) g" "0 < bPer b" using assms by (simp_all add: hard_ok_def)
  show thesis
  proof (cases "bCur b \<ge> int (length g)")
    case True
    with ring_push_room [OF ok(1) True] assms show thesis
      by (intro that [of "b\<lparr>mEvalCnt := cnt_in (bEval b) w (mEvalCnt b),
           bCur := cur_next (bSize b) (bCur b), bEnd := bEnd b + bPer b\<rparr>" "g @ [w]"])
        (auto simp: hard_push_def hard_ok_def cnt_in_def algebra_simps)
  next
    case False
    then have c: "0 \<le> bCur b" "bCur b < int (length g)" using ok by (auto simp: ring_ok_def)
    with ring_push_full [OF ok(1) c(2)] assms show thesis
      by (intro that [of "b\<lparr>mEvalCnt := cnt_out (bEval b) (g ! nat (bCur b)) (cnt_in (bEval b) w (mEvalCnt b)),
           bBeg := bBeg b + bPer b, bCur := cur_next (bSize b) (bCur b), bEnd := bEnd b + bPer b\<rparr>"
           "g[nat (bCur b) := w]"])
        (auto simp: hard_push_def hard_ok_def vat_ok vset_ok count_update nat_less_iff algebra_simps)
  qed
qed

lemma hard_fill_ok:
  assumes "hard_ok b g"
  shows "\<exists>b' g'. hard_fill n f v (b, g) = Inr (b', g') \<and> hard_ok b' g' \<and>
    ring_hist (bCur b') g' = keep_last (bSize b)
      (ring_hist (bCur b) g @ (if n = 0 then [] else replicate (n - 1) f @ [v])) \<and>
    bEnd b' = bEnd b + int n * bPer b \<and> bSize b' = bSize b \<and> bPer b' = bPer b \<and> bEval b' = bEval b \<and>
    hgResTm b' = hgResTm b \<and> bBeg b \<le> bBeg b'"
  using assms
proof (induction n arbitrary: b g)
  case 0
  then show ?case
    by (auto simp: hard_ok_def ring_ok_def keep_last_def)
next
  case (Suc n)
  let ?w = "if n \<noteq> 0 then f else v"
  obtain b1 g1 where 1: "hard_push ?w b g = Inr (b1, g1)" "hard_ok b1 g1"
    "ring_hist (bCur b1) g1 = keep_last (bSize b) (ring_hist (bCur b) g @ [?w])"
    "bEnd b1 = bEnd b + bPer b" "bSize b1 = bSize b" "bPer b1 = bPer b" "bEval b1 = bEval b" "hgResTm b1 = hgResTm b" "bBeg b \<le> bBeg b1"
    by (rule hard_push_ok [OF Suc.prems])
  from Suc.IH [OF 1(2)] obtain b2 g2 where 2: "hard_fill n f v (b1, g1) = Inr (b2, g2)" "hard_ok b2 g2"
    "ring_hist (bCur b2) g2 = keep_last (bSize b1)
      (ring_hist (bCur b1) g1 @ (if n = 0 then [] else replicate (n - 1) f @ [v]))"
    "bEnd b2 = bEnd b1 + int n * bPer b1" "bSize b2 = bSize b1" "bPer b2 = bPer b1" "bEval b2 = bEval b1" "hgResTm b2 = hgResTm b1" "bBeg b1 \<le> bBeg b2"
    by blast
  have "[?w] @ (if n = 0 then [] else replicate (n - 1) f @ [v]) = replicate n f @ [v]"
    by (cases n) auto
  then have "ring_hist (bCur b2) g2 = keep_last (bSize b) (ring_hist (bCur b) g @ replicate n f @ [v])"
    unfolding 2(3) 1(3) 1(5) keep_last_append by simp
  with 1 2 show ?case by (auto simp: algebra_simps)
qed

lemma hard_get_ok:
  fixes up :: bool
  assumes "hard_ok b g" "bBeg b \<le> tm" "tm \<le> bEnd b" "int (length g) < 2147483648"
  defines "i \<equiv> nat (if up then int (length g) - 1 - (bEnd b - tm) div bPer b else (tm - bBeg b) div bPer b)"
  shows "hard_get b g tm up = Inr (ring_hist (bCur b) g ! i, bBeg b + int i * bPer b)"
proof -
  let ?p = "bPer b" and ?sz = "int (length g)"
  have p: "0 < ?p" and e: "bEnd b = bBeg b + (?sz - 1) * ?p" and r: "ring_ok (bSize b) (bCur b) g"
    using assms by (auto simp: hard_ok_def)
  define n where "n = (if up then (bEnd b - tm) div ?p else ?sz - 1 - (tm - bBeg b) div ?p)"
  have n: "0 \<le> n" "n < ?sz"
  proof -
    have "(bEnd b - tm) div ?p \<le> (?sz - 1)" "(tm - bBeg b) div ?p \<le> (?sz - 1)"
      using p assms(2,3) by (metis add.commute add_diff_cancel diff_left_mono diff_right_mono e nonzero_mult_div_cancel_right zdiv_mono1 less_irrefl)+
    moreover have "0 \<le> (bEnd b - tm) div ?p" "0 \<le> (tm - bBeg b) div ?p"
      using p assms(2,3) by (simp_all add: pos_imp_zdiv_nonneg_iff)
    moreover have "0 < ?sz" using e p assms(2,3) by (cases g) auto
    ultimately show "0 \<le> n" "n < ?sz" by (auto simp: n_def)
  qed
  have np: "to_i32 (if up then tdiv (bEnd b - tm) ?p else ?sz - 1 - tdiv (tm - bBeg b) ?p) = n"
    using n assms(2-4) p by (auto simp: n_def tdiv_nonneg intro!: to_i32_id)
  have i: "int i = ?sz - 1 - n" using n by (auto simp: i_def n_def)
  let ?c = "if bCur b - n - 1 \<ge> 0 then bCur b - n - 1 else ?sz + (bCur b - n - 1)"
  have "nat (?sz - 1 - n) = i" using i by simp
  with ring_nth [OF r n] have at: "vat g ?c = Inr (ring_hist (bCur b) g ! i)" by (simp add: vat_ok)
  have tm: "bEnd b - n * ?p = bBeg b + int i * ?p" unfolding e i by (simp add: algebra_simps)
  from n p have "\<not> (n < 0 \<or> n \<ge> ?sz)" "bPer b \<noteq> 0" by auto
  then show ?thesis
    by (simp only: hard_get_def Let_def np at tm rbind_simps if_False)
qed

lemma ring_hist_last:
  assumes "ring_ok sz cur g" "g \<noteq> []"
  shows "last_val cur g = Inr (last (ring_hist cur g))"
proof -
  have c: "0 \<le> cur" "cur \<le> int (length g)" using assms(1) by (auto simp: ring_ok_def split: if_splits)
  have "ring_hist cur g \<noteq> []" using assms(2) by (simp add: ring_hist_def)
  then have l: "last (ring_hist cur g) = ring_hist cur g ! (length g - 1)" by (simp add: last_conv_nth)
  show ?thesis
  proof (cases "cur = 0")
    case True
    then show ?thesis using assms(2) l by (simp add: last_val_def ring_hist_def vat_last last_conv_nth)
  next
    case False
    with c have "0 \<le> cur - 1" "cur - 1 < int (length g)" by auto
    with False c assms ring_nth(3) [OF assms(1), of 0] show ?thesis
      by (simp add: last_val_def vat_ok l nat_diff_distrib)
  qed
qed

definition grid_cells :: "'v tbuf \<Rightarrow> 'v list" where
  "grid_cells b = (case bStore b of Grid g \<Rightarrow> g | _ \<Rightarrow> [])"

definition grid_hist :: "'v tbuf \<Rightarrow> 'v list" where
  "grid_hist b = ring_hist (bCur b) (grid_cells b)"

definition grid_inv :: "'v tbuf \<Rightarrow> bool" where
  "grid_inv b \<longleftrightarrow> bStore b = Grid (grid_cells b) \<and> hrdGrd b \<and> 0 < bPer b \<and>
     (if grid_cells b = []
      then bBeg b = 0 \<and> bEnd b = 0 \<and> bCur b = 0 \<and> 0 \<le> bSize b \<and> mEvalCnt b = 0
      else hard_ok b (grid_cells b) \<and> bPer b \<le> bBeg b \<and> bPer b dvd bBeg b \<and> bEnd b < 2147483648 * bPer b)"

lemma grid_len:
  assumes "grid_inv b" "grid_cells b \<noteq> []"
  shows "int (length (grid_cells b)) < 2147483648" "bBeg b \<le> bEnd b" "0 < bBeg b" "bPer b dvd bEnd b"
proof -
  let ?n = "int (length (grid_cells b))"
  have p: "0 < bPer b" "bPer b \<le> bBeg b" "bEnd b = bBeg b + (?n - 1) * bPer b" "bEnd b < 2147483648 * bPer b" "bPer b dvd bBeg b"
    using assms by (auto simp: grid_inv_def hard_ok_def)
  then have "?n * bPer b \<le> bEnd b" by (simp add: algebra_simps)
  with p(4) have "?n * bPer b < 2147483648 * bPer b" by linarith
  with p(1) show "?n < 2147483648" by (simp only: mult_less_cancel_right_pos)
  have "0 \<le> (?n - 1) * bPer b" using p(1) assms(2) by (intro mult_nonneg_nonneg) (auto simp: Suc_le_eq)
  with p show "bBeg b \<le> bEnd b" "0 < bBeg b" by linarith+
  show "bPer b dvd bEnd b" using p by simp
qed

text \<open>Writing inside of the window replaces a cell; writing after it appends cells.\<close>

lemma hard_set_replace:
  assumes "hard_ok b g" "bBeg b \<le> tm" "tm \<le> bEnd b" "int (length g) < 2147483648"
  defines "i \<equiv> nat (int (length g) - 1 - (bEnd b - tm) div bPer b)"
  shows "\<exists>b' g'. hard_set b g v tm = Inr (b'\<lparr>bStore := Grid g'\<rparr>) \<and> hard_ok b' g' \<and>
    ring_hist (bCur b) g' = (ring_hist (bCur b) g)[i := v] \<and> i < length g \<and> b' = b\<lparr>mEvalCnt := mEvalCnt b'\<rparr>"
proof -
  let ?p = "bPer b" and ?sz = "int (length g)"
  have p: "0 < ?p" and e: "bEnd b = bBeg b + (?sz - 1) * ?p" and r: "ring_ok (bSize b) (bCur b) g"
    using assms by (auto simp: hard_ok_def)
  define n where "n = (bEnd b - tm) div ?p"
  have n: "0 \<le> n" "n < ?sz"
  proof -
    have "(bEnd b - tm) div ?p \<le> (bEnd b - bBeg b) div ?p" using p assms(2) by (intro zdiv_mono1) auto
    moreover have "(bEnd b - bBeg b) div ?p = ?sz - 1" using p e by simp
    ultimately show "n < ?sz" by (simp add: n_def)
    show "0 \<le> n" using p assms(3) by (simp add: n_def pos_imp_zdiv_nonneg_iff)
  qed
  have np: "to_i32 (tdiv (tm - bEnd b) ?p) = - n"
  proof -
    have "tdiv (tm - bEnd b) ?p = - n"
      using p assms(3) by (cases "tm = bEnd b") (simp_all add: tdiv_def n_def)
    then show ?thesis using n assms(4) by (simp add: to_i32_id)
  qed
  let ?c = "if bCur b - n - 1 < 0 then ?sz + (bCur b - n - 1) else bCur b - n - 1"
  let ?g' = "g[nat ?c := v]"
  have c: "0 \<le> ?c" "?c < ?sz" using ring_nth(1,2) [OF r n] by (auto split: if_splits)
  have "nat ?c < length g" using c by linarith
  note cnt = count_update [OF this, of v "bEval b"]
  have len: "length ?g' = length g" by simp
  define n1 where "n1 = cnt_out (bEval b) (g ! nat ?c) (cnt_in (bEval b) v (mEvalCnt b))"
  have ok: "hard_ok (b\<lparr>mEvalCnt := n1\<rparr>) ?g'"
    using assms(1) cnt by (auto simp: hard_ok_def ring_ok_def n1_def)
  have i: "nat (?sz - 1 - n) = i" "i < length g" using n by (auto simp: i_def n_def)
  have c': "(if bCur b + (- n) - 1 < 0 then ?sz + (bCur b + (- n) - 1) else bCur b + (- n) - 1) = ?c" by simp
  from n have cond: "- n \<le> 0 \<and> - (- n) < ?sz" "\<not> ?p = 0" using p by auto
  have "hard_set b g v tm = Inr ((b\<lparr>mEvalCnt := n1\<rparr>)\<lparr>bStore := Grid ?g'\<rparr>)"
    unfolding hard_set_def Let_def np if_not_P [OF cond(2)] if_P [OF cond(1)] c'
      vat_ok [OF c] vset_ok [OF c] rbind_simps n1_def by simp
  moreover have "ring_hist (bCur b) ?g' = (ring_hist (bCur b) g)[i := v]"
    using ring_update [OF r n, of v] i by simp
  ultimately show ?thesis using ok i(2) by (intro exI [of _ "b\<lparr>mEvalCnt := n1\<rparr>"] exI [of _ ?g']) simp
qed

lemma hard_set_append:
  assumes "hard_ok b g" "n = (tm - bEnd b) div bPer b" "0 < n" "n < 2147483648"
  shows "\<exists>b' g'. hard_set b g v tm = Inr (b'\<lparr>bStore := Grid g'\<rparr>) \<and> hard_ok b' g' \<and>
    ring_hist (bCur b') g' = keep_last (bSize b) (ring_hist (bCur b) g @
       replicate (nat n - 1) (if fillLast b \<and> g \<noteq> [] then last (ring_hist (bCur b) g) else bEval b) @ [v]) \<and>
    bEnd b' = bEnd b + n * bPer b \<and> bSize b' = bSize b \<and> bPer b' = bPer b \<and> bEval b' = bEval b \<and>
    hgResTm b' = hgResTm b \<and> bBeg b \<le> bBeg b'"
proof -
  have p: "0 < bPer b" and r: "ring_ok (bSize b) (bCur b) g" using assms(1) by (auto simp: hard_ok_def)
  have "0 < tm - bEnd b"
  proof (rule ccontr)
    assume "\<not> 0 < tm - bEnd b"
    then have "(tm - bEnd b) div bPer b \<le> 0 div bPer b" using p by (intro zdiv_mono1) auto
    with assms(2,3) show False by simp
  qed
  then have np: "to_i32 (tdiv (tm - bEnd b) (bPer b)) = n"
    using p assms(2,3,4) by (simp add: tdiv_nonneg to_i32_id)
  let ?f = "if fillLast b \<and> g \<noteq> [] then last (ring_hist (bCur b) g) else bEval b"
  have f: "(if fillLast b \<and> g \<noteq> [] then last_val (bCur b) g else Inr (bEval b)) = Inr ?f"
    using ring_hist_last [OF r] by auto
  from hard_fill_ok [OF assms(1), of "nat n" ?f v] obtain b' g' where
    1: "hard_fill (nat n) ?f v (b, g) = Inr (b', g')" "hard_ok b' g'"
    "ring_hist (bCur b') g' = keep_last (bSize b) (ring_hist (bCur b) g @
      (if nat n = 0 then [] else replicate (nat n - 1) ?f @ [v]))"
    "bEnd b' = bEnd b + int (nat n) * bPer b" "bSize b' = bSize b" "bPer b' = bPer b" "bEval b' = bEval b"
    "hgResTm b' = hgResTm b" "bBeg b \<le> bBeg b'" by blast
  from assms(3) p have conds: "\<not> (n \<le> 0 \<and> - n < int (length g))" "\<not> n < 0" "\<not> bPer b = 0" by auto
  have "hard_set b g v tm = Inr (b'\<lparr>bStore := Grid g'\<rparr>)"
    unfolding hard_set_def Let_def np if_not_P [OF conds(1)] if_not_P [OF conds(2)] if_not_P [OF conds(3)] f rbind_simps 1(1)
    by simp
  with 1 assms(3) show ?thesis by (intro exI [of _ b'] exI [of _ g']) simp
qed

definition grid_accepts :: "'v tbuf \<Rightarrow> int \<Rightarrow> bool" where
  "grid_accepts b tm \<longleftrightarrow> bPer b \<le> tm \<and> tm < 2147483648 * bPer b \<and> bPer b dvd tm \<and>
     (grid_cells b = [] \<or> bBeg b \<le> tm)"

definition grid_write :: "'v tbuf \<Rightarrow> 'v \<Rightarrow> int \<Rightarrow> 'v list" where
  "grid_write b v tm =
     (if grid_cells b = [] then [v]
      else if tm \<le> bEnd b then (grid_hist b)[nat ((tm - bBeg b) div bPer b) := v]
      else keep_last (bSize b) (grid_hist b @
             replicate (nat ((tm - bEnd b) div bPer b) - 1) (if fillLast b then last (grid_hist b) else bEval b) @ [v]))"

lemma tb_set_grid:
  assumes "grid_inv b" "bPer b \<le> tm"
  shows "tb_set now b v tm = hard_set (if grid_cells b = []
     then b\<lparr>bEnd := bPer b * (tm div bPer b - 1), bBeg := bPer b * (tm div bPer b)\<rparr> else b) (grid_cells b) v tm"
proof -
  have p: "0 < bPer b" "0 < tm" using assms by (auto simp: grid_inv_def)
  have "grid_cells b \<noteq> [] \<Longrightarrow> bBeg b \<noteq> 0 \<and> bEnd b \<noteq> 0" using grid_len [OF assms(1)] by auto
  moreover have "b\<lparr>bEnd := bEnd b, bBeg := bBeg b\<rparr> = b" by simp
  moreover have "grid_cells b = [] \<Longrightarrow> bBeg b = 0 \<and> bEnd b = 0" "bStore b = Grid (grid_cells b)" "hrdGrd b"
    using assms by (auto simp: grid_inv_def)
  ultimately show ?thesis
    unfolding tb_set_def Let_def using p
    by (cases "grid_cells b = []") (simp_all add: tdiv_nonneg)
qed

lemma grid_set_ok:
  assumes inv: "grid_inv b" and acc: "grid_accepts b tm"
  shows "\<exists>b'. tb_set now b v tm = Inr b' \<and> grid_inv b' \<and> grid_hist b' = grid_write b v tm \<and>
    bEnd b' = (if grid_cells b = [] then tm else max (bEnd b) tm) \<and> bPer b' = bPer b \<and> bSize b' = bSize b \<and>
    bEval b' = bEval b \<and> hgResTm b' = hgResTm b"
proof -
  let ?g = "grid_cells b"
  define b1 where "b1 = (if ?g = [] then b\<lparr>bEnd := bPer b * (tm div bPer b - 1), bBeg := bPer b * (tm div bPer b)\<rparr> else b)"
  have same [simp]: "bPer b1 = bPer b" "bSize b1 = bSize b" "bEval b1 = bEval b" "hgResTm b1 = hgResTm b"
    "bCur b1 = bCur b" "fillLast b1 = fillLast b" "mEvalCnt b1 = mEvalCnt b" "hrdGrd b1 = hrdGrd b"
    by (simp_all add: b1_def)
  have p: "0 < bPer b" using inv by (auto simp: grid_inv_def)
  have tm: "bPer b \<le> tm" "tm < 2147483648 * bPer b" "bPer b * (tm div bPer b) = tm"
    using acc by (auto simp: grid_accepts_def)
  have ok: "hard_ok b1 ?g" using inv tm
    by (auto simp: b1_def grid_inv_def hard_ok_def ring_ok_def algebra_simps split: if_splits)
  have set: "tb_set now b v tm = hard_set b1 ?g v tm" unfolding b1_def using tb_set_grid [OF inv tm(1)] .
  have end_dvd: "bPer b dvd bEnd b1" using grid_len(4) [OF inv] by (auto simp: b1_def)
  show ?thesis
  proof (cases "?g \<noteq> [] \<and> tm \<le> bEnd b")
    case True
    then have b: "b1 = b" and t: "bBeg b \<le> tm" "tm \<le> bEnd b" using acc by (auto simp: grid_accepts_def b1_def)
    have len: "int (length ?g) < 2147483648" using grid_len [OF inv] True by auto
    have e: "bEnd b = bBeg b + (int (length ?g) - 1) * bPer b" using ok b by (simp add: hard_ok_def)
    have "bPer b dvd bBeg b" using inv True by (simp add: grid_inv_def)
    moreover have "bPer b dvd tm" using acc by (simp add: grid_accepts_def)
    ultimately have "bPer b dvd tm - bBeg b" by simp
    then obtain k where k: "tm - bBeg b = bPer b * k" by (rule dvdE)
    then have "bEnd b - tm = ((int (length ?g) - 1) - k) * bPer b" using e by (simp add: algebra_simps)
    then have idx: "int (length ?g) - 1 - (bEnd b - tm) div bPer b = (tm - bBeg b) div bPer b" using p k by simp
    from hard_set_replace [OF _ t len, of v] ok b obtain b' g' where
      1: "hard_set b ?g v tm = Inr (b'\<lparr>bStore := Grid g'\<rparr>)" "hard_ok b' g'"
      "ring_hist (bCur b) g' = (ring_hist (bCur b) ?g)[nat (int (length ?g) - 1 - (bEnd b - tm) div bPer b) := v]"
      "b' = b\<lparr>mEvalCnt := mEvalCnt b'\<rparr>" by auto
    have c: "bCur b' = bCur b" "bEnd b' = bEnd b" "bPer b' = bPer b" "bSize b' = bSize b" "bEval b' = bEval b"
      "hgResTm b' = hgResTm b" "bBeg b' = bBeg b"
      by (subst 1(4), simp)+
    have "length g' = length ?g" using arg_cong [OF 1(3), of length] by simp
    then have "g' \<noteq> []" using True by auto
    with 1 c inv True b set idx show ?thesis
      by (intro exI [of _ "b'\<lparr>bStore := Grid g'\<rparr>"])
        (auto simp: grid_inv_def grid_cells_def grid_hist_def grid_write_def hard_ok_def)
  next
    case False
    define n where "n = (tm - bEnd b1) div bPer b"
    have e0: "?g \<noteq> [] \<Longrightarrow> 0 < bEnd b" using grid_len [OF inv] by auto
    have "bPer b dvd tm - bEnd b1" using end_dvd acc by (simp add: grid_accepts_def)
    then have nt: "tm - bEnd b1 = n * bPer b" by (simp add: n_def)
    have gt: "0 < tm - bEnd b1" using False p tm by (auto simp: algebra_simps b1_def)
    then have n0: "0 < n" using nt p by (simp add: zero_less_mult_iff)
    have "tm - bEnd b1 < 2147483648 * bPer b" using e0 tm p by (cases "?g = []") (auto simp: algebra_simps b1_def)
    then have n1: "n < 2147483648" using nt p by (simp only: mult_less_cancel_right_pos)
    have n': "n = (tm - bEnd b1) div bPer b1" by (simp add: n_def)
    from hard_set_append [OF ok n' n0 n1, of v] obtain b' g' where
      1: "hard_set b1 ?g v tm = Inr (b'\<lparr>bStore := Grid g'\<rparr>)" "hard_ok b' g'"
      "ring_hist (bCur b') g' = keep_last (bSize b1) (ring_hist (bCur b1) ?g @
        replicate (nat n - 1) (if fillLast b1 \<and> ?g \<noteq> [] then last (ring_hist (bCur b1) ?g) else bEval b1) @ [v])"
      "bEnd b' = bEnd b1 + n * bPer b1" "bSize b' = bSize b1" "bPer b' = bPer b1" "bEval b' = bEval b1"
      "hgResTm b' = hgResTm b1" "bBeg b1 \<le> bBeg b'" by blast
    have e': "bEnd b' = tm" using 1(4) nt by simp
    have hist: "ring_hist (bCur b') g' = grid_write b v tm"
    proof (cases "?g = []")
      case True
      with nt p tm(3) have "n = 1" by (simp add: algebra_simps b1_def)
      with True 1(3) inv show ?thesis by (auto simp: grid_write_def ring_hist_def keep_last_def grid_inv_def)
    next
      case g: False
      then have "bEnd b1 = bEnd b" by (simp add: b1_def)
      with g 1(3) False show ?thesis by (simp add: grid_write_def grid_hist_def n_def)
    qed
    moreover have sz: "0 \<le> bSize b" using ok by (auto simp: hard_ok_def ring_ok_def split: if_splits)
    ultimately have "ring_hist (bCur b') g' \<noteq> []"
      using False sz by (cases "?g = []") (simp_all add: grid_write_def keep_last_not_Nil)
    then have g': "g' \<noteq> []" by (metis ring_hist_def rotate_is_Nil_conv)
    have beg: "bPer b dvd bBeg b'" "bPer b \<le> bBeg b'"
    proof -
      have "bEnd b' = bBeg b' + (int (length g') - 1) * bPer b'" using 1(2) by (simp add: hard_ok_def)
      then have "bBeg b' = tm - (int (length g') - 1) * bPer b" using e' 1(6) by simp
      with acc show "bPer b dvd bBeg b'" by (simp add: grid_accepts_def)
      have "bPer b \<le> bBeg b1" using tm inv by (auto simp: b1_def grid_inv_def)
      with 1(9) show "bPer b \<le> bBeg b'" by simp
    qed
    show ?thesis using 1 hist e' g' beg tm(2) set False gt
      by (intro exI [of _ "b'\<lparr>bStore := Grid g'\<rparr>"])
        (auto simp: grid_inv_def grid_cells_def grid_hist_def hard_ok_def)
  qed
qed

end
