(* ===== verification/Tval_Series.thy ===== *)
theory Tval_Series
  imports Tval_Grid
begin

text \<open>
  What the flow and the hard grid buffers have in common, as an interface: a series of values that
  takes a value for a time and gives it back.  The interface is interpreted on both modes of
  \<open>TBuf\<close>; the properties of the buffers follow, and the cases the code does not cover.
\<close>

section \<open>Reading the flow\<close>

lemma flow_ends:
  assumes "flow_inv b" "flow_recs b \<noteq> []"
  shows "0 < bBeg b" "bBeg b \<le> bEnd b" "r \<in> set (flow_recs b) \<Longrightarrow> bBeg b \<le> flow_us b (fst r)"
    "r \<in> set (flow_recs b) \<Longrightarrow> flow_us b (fst r) \<le> bEnd b"
proof -
  let ?xs = "flow_recs b"
  have st: "stamps_ok ?xs" "bBeg b = flow_us b (fst (hd ?xs))" "bEnd b = flow_us b (fst (last ?xs))" "0 < fst (hd ?xs)"
    using assms by (auto simp: flow_inv_def)
  show "0 < bBeg b" using st by (simp add: flow_us_pos)
  have *: "bBeg b \<le> flow_us b (fst r) \<and> flow_us b (fst r) \<le> bEnd b" if "r \<in> set ?xs" for r
  proof -
    from that obtain i where i: "i < length ?xs" "r = ?xs ! i" by (auto simp: in_set_conv_nth)
    have "fst (?xs ! 0) \<le> fst r" using i stamps_ok_nth [OF st(1), of 0 i] by (cases i) auto
    moreover have "fst r \<le> fst (?xs ! (length ?xs - 1))"
    proof (cases "i = length ?xs - 1")
      case False
      with i have "i < length ?xs - 1" "length ?xs - 1 < length ?xs" by linarith+
      from stamps_ok_nth [OF st(1) this] i show ?thesis by simp
    qed (use i in simp)
    ultimately show ?thesis using st(2,3) assms(2) flow_us_mono
      by (metis hd_conv_nth last_conv_nth not_le)
  qed
  from * show "r \<in> set ?xs \<Longrightarrow> bBeg b \<le> flow_us b (fst r)" "r \<in> set ?xs \<Longrightarrow> flow_us b (fst r) \<le> bEnd b" by auto
  from * [OF last_in_set [OF assms(2)]] show "bBeg b \<le> bEnd b" using st(3) by simp
qed

lemma case_list_whole: "xs \<noteq> [] \<Longrightarrow> (case xs of [] \<Rightarrow> a | x # l \<Rightarrow> f (x # l)) = f xs"
  by (cases xs) auto

lemma case_list_first: "xs \<noteq> [] \<Longrightarrow> (case xs of [] \<Rightarrow> a | x # l \<Rightarrow> f x) = f (hd xs)"
  by (cases xs) auto

lemma flow_get_prev:
  assumes "flow_inv b" "flow_recs b \<noteq> []"
  shows "tb_get b tm False = (case rev (flow_before b tm) of [] \<Rightarrow> Inr (bEval b, tm)
     | r # _ \<Rightarrow> Inr (snd r, flow_us b (fst r)))"
proof (cases "tm < bBeg b")
  case True
  then have "flow_before b tm = []"
    using flow_ends(3) [OF assms] by (force simp: flow_before_def filter_empty_conv)
  with True show ?thesis by (simp add: tb_get_def)
next
  case False
  note ends = flow_ends [OF assms]
  have m: "tb_get b tm False = tb_get b (min tm (bEnd b)) False"
    using False ends(1,2) by (simp add: tb_get_def min_def)
  have f: "flow_before b (min tm (bEnd b)) = flow_before b tm"
    using ends(4) by (auto simp: flow_before_def intro!: filter_cong)
  have "hd (flow_recs b) \<in> set (flow_before b tm)"
    using False assms by (auto simp: flow_before_def flow_inv_def)
  then have ne: "flow_before b tm \<noteq> []" by auto
  have "tb_get b (min tm (bEnd b)) False = (case flow_before b tm of [] \<Rightarrow> Inr (bEval b, 0)
     | rs \<Rightarrow> Inr (snd (last rs), flow_us b (fst (last rs))))"
    using tb_get_flow [OF assms(1), of "min tm (bEnd b)" False] False ends(1,2) unfolding f by simp
  also have "\<dots> = Inr (snd (last (flow_before b tm)), flow_us b (fst (last (flow_before b tm))))"
    using ne by (rule case_list_whole)
  finally show ?thesis using m ne by (simp add: case_list_first hd_rev)
qed

lemma flow_get_next:
  assumes "flow_inv b" "flow_recs b \<noteq> []"
  shows "tb_get b tm True = (case flow_after b tm of [] \<Rightarrow> Inr (bEval b, tm)
     | r # _ \<Rightarrow> Inr (snd r, flow_us b (fst r)))"
proof (cases "tm > bEnd b")
  case True
  then have "flow_after b tm = []"
    using flow_ends(4) [OF assms] by (force simp: flow_after_def filter_empty_conv)
  with True show ?thesis by (simp add: tb_get_def)
next
  case False
  note ends = flow_ends [OF assms]
  have m: "tb_get b tm True = tb_get b (max tm (bBeg b)) True"
    using False ends(1,2) by (simp add: tb_get_def max_def)
  have f: "flow_after b (max tm (bBeg b)) = flow_after b tm"
    using ends(3) by (auto simp: flow_after_def intro!: filter_cong)
  have "last (flow_recs b) \<in> set (flow_after b tm)"
    using False assms by (auto simp: flow_after_def flow_inv_def)
  then have ne: "flow_after b tm \<noteq> []" by auto
  have "tb_get b (max tm (bBeg b)) True = (case rev (flow_after b tm) of [] \<Rightarrow> Inr (bEval b, 0)
     | rs \<Rightarrow> Inr (snd (last rs), flow_us b (fst (last rs))))"
    using tb_get_flow [OF assms(1), of "max tm (bBeg b)" True] False ends(1,2) unfolding f by simp
  also have "\<dots> = Inr (snd (last (rev (flow_after b tm))), flow_us b (fst (last (rev (flow_after b tm)))))"
    using ne by (intro case_list_whole) simp
  finally show ?thesis using m ne by (simp add: case_list_first last_rev)
qed

lemma last_filter_le:
  assumes "stamps_ok ys" "(k, v) \<in> set ys"
  shows "last (filter (\<lambda>r. fst r \<le> k) ys) = (k, v)" "filter (\<lambda>r. fst r \<le> k) ys \<noteq> []"
proof -
  from assms(2) obtain y1 y2 where ys: "ys = y1 @ (k, v) # y2" by (auto simp: in_set_conv_decomp)
  with assms(1) have "filter (\<lambda>r. fst r \<le> k) y2 = []"
    by (auto simp: stamps_ok_def sorted_wrt_append filter_empty_conv)
  with ys show "last (filter (\<lambda>r. fst r \<le> k) ys) = (k, v)" "filter (\<lambda>r. fst r \<le> k) ys \<noteq> []" by auto
qed

lemma upd_sorted_mem: "(k, v) \<in> set (upd_sorted k v xs)"
  by (induction k v xs rule: upd_sorted.induct) auto

lemma flow_key_kept:
  assumes inv: "flow_inv b" and acc: "\<not> flow_rejects b tm" and tm: "0 < flow_key b tm"
  shows "(flow_key b tm, v) \<in> set (keep_last (bSize b) (upd_sorted (flow_key b tm) v (flow_recs b)))"
proof -
  let ?k = "flow_key b tm" and ?xs = "flow_recs b" let ?ys = "upd_sorted ?k v ?xs"
  have st: "stamps_ok ?xs" "0 \<le> bSize b" "bSize b \<noteq> 0 \<Longrightarrow> int (length ?xs) \<le> bSize b"
    using inv by (auto simp: flow_inv_def)
  have kl: "keep_last (bSize b) ?ys = (if bSize b \<noteq> 0 \<and> int (length ?ys) > bSize b then tl ?ys else ?ys)"
    using length_upd_sorted(1) [of ?k v ?xs] st(2,3) by (intro keep_last_one_more) auto
  show ?thesis
  proof (cases "bSize b \<noteq> 0 \<and> int (length ?ys) > bSize b")
    case True
    then have full: "int (length ?xs) \<ge> bSize b" using length_upd_sorted(1) [of ?k v ?xs] by linarith
    have new: "?k \<notin> fst ` set ?xs" using True st length_upd_sorted(3) [of ?k ?xs v] by auto
    have ne: "?xs \<noteq> []" using full True st(2) by auto
    then obtain k1 v1 xs1 where xs: "?xs = (k1, v1) # xs1" by (cases ?xs) auto
    have "bBeg b \<le> tm" using acc True full ne by (auto simp: flow_rejects_def)
    moreover have "bBeg b = flow_us b k1" using inv ne xs by (simp add: flow_inv_def)
    moreover have "0 \<le> tm"
    proof (rule ccontr)
      assume "\<not> 0 \<le> tm"
      with tm show False by (auto simp: flow_key_def tdiv_def sgn_if split: if_splits)
    qed
    ultimately have "k1 \<le> ?k" using flow_key_le [of tm k1 b] by simp
    with new xs have "k1 < ?k" by force
    with kl True upd_sorted_mem [of ?k v xs1] show ?thesis unfolding xs by simp
  next
    case False
    with kl upd_sorted_mem [of ?k v ?xs] show ?thesis by simp
  qed
qed

lemma flow_tm_pos: "0 < flow_key b tm \<Longrightarrow> 0 < tm"
proof (rule ccontr)
  assume "0 < flow_key b tm" "\<not> 0 < tm"
  then show False by (auto simp: flow_key_def tdiv_def sgn_if split: if_splits)
qed

lemma flow_set_get:
  assumes inv: "flow_inv b" and key: "0 < flow_key b tm" and acc: "\<not> flow_rejects b tm"
  shows "\<exists>b'. tb_set now b v tm = Inr b' \<and> flow_inv b' \<and>
    flow_recs b' = keep_last (bSize b) (upd_sorted (flow_key b tm) v (flow_recs b)) \<and>
    tb_get b' tm False = Inr (v, flow_us b (flow_key b tm)) \<and>
    hgResTm b' = hgResTm b \<and> bSize b' = bSize b \<and> bBeg b' \<le> tm"
proof -
  let ?k = "flow_key b tm"
  obtain b' where b': "tb_set now b v tm = Inr b'" "flow_inv b'"
    "flow_recs b' = keep_last (bSize b) (upd_sorted ?k v (flow_recs b))"
    "hgResTm b' = hgResTm b" "bSize b' = bSize b" "bEval b' = bEval b"
    by (rule flow_set_inv [OF assms])
  have same: "flow_us b' = flow_us b" "flow_key b' = flow_key b" using b'(4) by (auto simp: flow_us_def flow_key_def fun_eq_iff)
  have mem: "(?k, v) \<in> set (flow_recs b')" unfolding b'(3) by (rule flow_key_kept [OF inv acc key])
  then have ne: "flow_recs b' \<noteq> []" by auto
  have t: "0 < tm" using key by (rule flow_tm_pos)
  have "flow_before b' tm = filter (\<lambda>r. fst r \<le> ?k) (flow_recs b')"
    using t flow_key_le [of tm _ b'] by (simp add: flow_before_def same)
  with last_filter_le [OF _ mem] b'(2) have l: "last (flow_before b' tm) = (?k, v)" "flow_before b' tm \<noteq> []"
    by (simp_all add: flow_inv_def)
  then obtain rs where "flow_before b' tm = rs @ [(?k, v)]" by (metis append_butlast_last_id)
  with flow_get_prev [OF b'(2) ne, of tm] have "tb_get b' tm False = Inr (v, flow_us b ?k)" by (simp add: same)
  moreover have "bBeg b' \<le> tm"
    using flow_ends(3) [OF b'(2) ne mem] flow_us_key [of tm b'] t same by simp
  ultimately show ?thesis using b' by blast
qed

section \<open>Reading the hard grid\<close>

lemma grid_get_prev:
  assumes inv: "grid_inv b" and ne: "grid_cells b \<noteq> []" and tm: "bBeg b \<le> tm"
  shows "tb_get b tm False = Inr (grid_hist b ! nat ((min tm (bEnd b) - bBeg b) div bPer b),
     bBeg b + (min tm (bEnd b) - bBeg b) div bPer b * bPer b)"
proof -
  let ?t = "min tm (bEnd b)"
  have ok: "hard_ok b (grid_cells b)" "bStore b = Grid (grid_cells b)" "hrdGrd b" "0 < bPer b"
    using inv ne by (auto simp: grid_inv_def)
  note len = grid_len [OF inv ne]
  have "0 \<le> (?t - bBeg b) div bPer b" using tm len(2) ok(4) by (simp add: pos_imp_zdiv_nonneg_iff)
  with hard_get_ok [OF ok(1) _ _ len(1), of ?t False] len(2) tm
  have "hard_get b (grid_cells b) ?t False = Inr (grid_hist b ! nat ((?t - bBeg b) div bPer b),
     bBeg b + (?t - bBeg b) div bPer b * bPer b)"
    by (simp add: grid_hist_def)
  with ok tm show ?thesis by (simp add: tb_get_def)
qed

lemma grid_get_next:
  assumes inv: "grid_inv b" and ne: "grid_cells b \<noteq> []" and tm: "tm \<le> bEnd b"
  shows "tb_get b tm True = Inr (rev (grid_hist b) ! nat ((bEnd b - max tm (bBeg b)) div bPer b),
     bEnd b - (bEnd b - max tm (bBeg b)) div bPer b * bPer b)"
proof -
  let ?t = "max tm (bBeg b)" let ?n = "(bEnd b - ?t) div bPer b" let ?g = "grid_cells b"
  have ok: "hard_ok b ?g" "bStore b = Grid ?g" "hrdGrd b" "0 < bPer b"
    using inv ne by (auto simp: grid_inv_def)
  have e: "bEnd b - bBeg b = (int (length ?g) - 1) * bPer b" using ok(1) by (simp add: hard_ok_def)
  note len = grid_len [OF inv ne]
  have n: "0 \<le> ?n" "?n \<le> int (length ?g) - 1"
  proof -
    show "0 \<le> ?n" using tm len(2) ok(4) by (simp add: pos_imp_zdiv_nonneg_iff)
    have "?n \<le> (bEnd b - bBeg b) div bPer b" using ok(4) by (intro zdiv_mono1) auto
    with e ok(4) show "?n \<le> int (length ?g) - 1" by simp
  qed
  have i: "length (grid_hist b) - Suc (nat ?n) = nat (int (length ?g) - 1 - ?n)" "nat ?n < length (grid_hist b)"
    using n ne by (auto simp: grid_hist_def nat_diff_distrib nat_less_iff)
  have "bBeg b + int (nat (int (length ?g) - 1 - ?n)) * bPer b = bEnd b - ?n * bPer b"
    using n e by (simp add: algebra_simps)
  with hard_get_ok [OF ok(1) _ _ len(1), of ?t True] len(2) tm i
  have "hard_get b ?g ?t True = Inr (rev (grid_hist b) ! nat ?n, bEnd b - ?n * bPer b)"
    by (simp add: grid_hist_def rev_nth)
  with ok tm show ?thesis by (simp add: tb_get_def)
qed

lemma last_keep_last: "0 \<le> sz \<Longrightarrow> xs \<noteq> [] \<Longrightarrow> last (keep_last sz xs) = last xs"
  using keep_last_not_Nil [of sz xs] by (auto simp: keep_last_def last_drop)

lemma grid_set_get:
  assumes inv: "grid_inv b" and acc: "grid_accepts b tm"
  shows "\<exists>b'. tb_set now b v tm = Inr b' \<and> grid_inv b' \<and> grid_hist b' = grid_write b v tm \<and>
    bEnd b' = (if grid_cells b = [] then tm else max (bEnd b) tm) \<and>
    tb_get b' tm False = Inr (v, tm) \<and> bPer b' = bPer b \<and> bBeg b' \<le> tm"
proof -
  obtain b' where b': "tb_set now b v tm = Inr b'" "grid_inv b'" "grid_hist b' = grid_write b v tm"
    "bEnd b' = (if grid_cells b = [] then tm else max (bEnd b) tm)" "bPer b' = bPer b" "bSize b' = bSize b"
    using grid_set_ok [OF assms] by blast
  have p: "0 < bPer b" using inv by (auto simp: grid_inv_def)
  let ?n = "int (length (grid_hist b'))"
  have len: "length (grid_hist b') = length (grid_cells b')" by (simp add: grid_hist_def)
  have sz: "0 \<le> bSize b" using inv by (auto simp: grid_inv_def hard_ok_def ring_ok_def split: if_splits)
  have w: "grid_write b v tm \<noteq> []"
    using sz by (auto simp: grid_write_def grid_hist_def ring_hist_def keep_last_not_Nil)
  then have ne: "grid_cells b' \<noteq> []" using b'(3) len by auto
  have e: "bEnd b' = bBeg b' + (?n - 1) * bPer b" using b'(2,5) ne len by (simp add: grid_inv_def hard_ok_def)
  have tme: "tm \<le> bEnd b'" using b'(4) by auto
  have pos: "bBeg b' \<le> tm \<and> tm - bBeg b' = int i * bPer b \<and> grid_hist b' ! i = v"
    if "i = (if grid_cells b \<noteq> [] \<and> tm \<le> bEnd b then nat ((tm - bBeg b) div bPer b) else length (grid_hist b') - 1)" for i
  proof (cases "grid_cells b \<noteq> [] \<and> tm \<le> bEnd b")
    case True
    have old: "bEnd b = bBeg b + (int (length (grid_hist b)) - 1) * bPer b" "bPer b dvd bBeg b" "bBeg b \<le> tm" "bPer b dvd tm"
      using inv True acc by (auto simp: grid_inv_def hard_ok_def grid_hist_def grid_accepts_def)
    have h: "grid_hist b' = (grid_hist b)[i := v]" using b'(3) True that by (simp add: grid_write_def)
    then have beg: "bBeg b' = bBeg b" using e old(1) b'(4) True by simp
    have "bPer b dvd tm - bBeg b" using old by simp
    then have t: "(tm - bBeg b) div bPer b * bPer b = tm - bBeg b" by simp
    have i0: "0 \<le> (tm - bBeg b) div bPer b" using p old(3) by (simp add: pos_imp_zdiv_nonneg_iff)
    have "(tm - bBeg b) div bPer b \<le> (bEnd b - bBeg b) div bPer b" using p True by (intro zdiv_mono1) auto
    also have "\<dots> = int (length (grid_hist b)) - 1" using p old(1) by simp
    finally have "i < length (grid_hist b)" using i0 that True by auto
    with h beg t i0 that True old(3) show ?thesis by auto
  next
    case False
    then have "bEnd b' = tm" using b'(4) by auto
    moreover have "last (grid_write b v tm) = v" using False sz by (auto simp: grid_write_def last_keep_last)
    moreover have "0 \<le> (?n - 1) * bPer b" using w b'(3) p by (intro mult_nonneg_nonneg) (auto simp: Suc_le_eq)
    moreover have "int i = ?n - 1" using that False w b'(3) by (auto simp: of_nat_diff Suc_le_eq)
    ultimately show ?thesis using e w b'(3) that False
      by (auto simp: last_conv_nth)
  qed
  then obtain i where i: "bBeg b' \<le> tm" "tm - bBeg b' = int i * bPer b" "grid_hist b' ! i = v" by blast
  have "tb_get b' tm False = Inr (v, tm)"
    using grid_get_prev [OF b'(2) ne i(1)] tme i p b'(5) by simp
  with b' i(1) show ?thesis by blast
qed

section \<open>Times between the cells\<close>

text \<open>
  The position of a write is divided towards zero from the end: a time within the window belongs to the
  cell at or after it, a time after the window to the cell at or before it.
\<close>

definition grid_time :: "'v tbuf \<Rightarrow> int \<Rightarrow> int" where
  "grid_time b tm = (if grid_cells b \<noteq> [] \<and> tm \<le> bEnd b then bEnd b - (bEnd b - tm) div bPer b * bPer b
     else tm div bPer b * bPer b)"

lemma tdiv_neg: "0 \<le> d \<Longrightarrow> 0 < p \<Longrightarrow> tdiv (- d) p = - (d div p)"
  by (cases "d = 0") (simp_all add: tdiv_def)

lemma grid_time_ok:
  assumes "grid_inv b" "bPer b \<le> tm"
  shows "bPer b \<le> grid_time b tm" "bPer b dvd grid_time b tm" "\<bar>tm - grid_time b tm\<bar> < bPer b"
    "grid_cells b \<noteq> [] \<Longrightarrow> grid_time b tm \<le> bEnd b \<longleftrightarrow> tm \<le> bEnd b \<or> tm div bPer b * bPer b = bEnd b"
proof -
  have p: "0 < bPer b" using assms(1) by (simp add: grid_inv_def)
  have f: "tm div bPer b * bPer b \<le> tm" "tm < tm div bPer b * bPer b + bPer b"
    using p pos_mod_bound [of "bPer b" tm] pos_mod_sign [of "bPer b" tm] div_mult_mod_eq [of tm "bPer b"] by linarith+
  define d where "d = bEnd b - tm"
  have g: "d div bPer b * bPer b \<le> d" "d < d div bPer b * bPer b + bPer b"
    using p pos_mod_bound [of "bPer b" d] pos_mod_sign [of "bPer b" d] div_mult_mod_eq [of d "bPer b"] by linarith+
  have "1 \<le> tm div bPer b" using p assms(2) by (simp add: pos_imp_zdiv_pos_iff int_one_le_iff_zero_less)
  then have "bPer b \<le> tm div bPer b * bPer b" using p by (simp add: mult_le_cancel_right1)
  then show "bPer b \<le> grid_time b tm" using g assms(2) by (simp add: grid_time_def d_def)
  show "bPer b dvd grid_time b tm" using grid_len(4) [OF assms(1)] by (simp add: grid_time_def)
  show "\<bar>tm - grid_time b tm\<bar> < bPer b" using f g by (auto simp: grid_time_def d_def)
  show "grid_time b tm \<le> bEnd b \<longleftrightarrow> tm \<le> bEnd b \<or> tm div bPer b * bPer b = bEnd b" if c: "grid_cells b \<noteq> []"
  proof (cases "tm \<le> bEnd b")
    case True
    then have "0 \<le> d div bPer b * bPer b" using p by (simp add: d_def pos_imp_zdiv_nonneg_iff)
    with True c show ?thesis by (simp add: grid_time_def d_def)
  next
    case False
    obtain k where k: "bEnd b = k * bPer b" using grid_len(4) [OF assms(1) c] by (metis dvdE mult.commute)
    have "k \<le> tm div bPer b" using False p k zdiv_mono1 [of "k * bPer b" tm "bPer b"] by simp
    with False c k p show ?thesis by (auto simp: grid_time_def)
  qed
qed

lemma tb_set_grid_time:
  assumes "grid_inv b" "bPer b \<le> tm"
  shows "tb_set now b v tm = tb_set now b v (grid_time b tm)"
proof -
  have p: "0 < bPer b" using assms(1) by (simp add: grid_inv_def)
  have same: "hard_set c g v t = hard_set c g v u" if "tdiv (t - bEnd c) (bPer c) = tdiv (u - bEnd c) (bPer c)" for c g t u
    using that by (simp add: hard_set_def)
  have gt: "bPer b \<le> grid_time b tm" by (rule grid_time_ok [OF assms])
  show ?thesis
  proof (cases "grid_cells b = []")
    case True
    then have g: "grid_time b tm = tm div bPer b * bPer b" by (simp add: grid_time_def)
    have "tm - bPer b * (tm div bPer b - 1) = tm mod bPer b + 1 * bPer b"
      by (simp add: algebra_simps minus_mult_div_eq_mod)
    then have "(tm - bPer b * (tm div bPer b - 1)) div bPer b = 1"
      using p by (simp add: div_add_self2 div_pos_pos_trivial)
    moreover have "0 \<le> tm - bPer b * (tm div bPer b - 1)"
      unfolding \<open>tm - bPer b * (tm div bPer b - 1) = tm mod bPer b + 1 * bPer b\<close> using p pos_mod_sign [of "bPer b" tm] by linarith
    ultimately show ?thesis
      unfolding tb_set_grid [OF assms] tb_set_grid [OF assms(1) gt] using True p
      by (simp add: g) (rule same, simp add: tdiv_nonneg algebra_simps)
  next
    case False
    obtain k where k: "bEnd b = bPer b * k" using grid_len(4) [OF assms(1) False] by (rule dvdE)
    have "tdiv (tm - bEnd b) (bPer b) = tdiv (grid_time b tm - bEnd b) (bPer b)"
    proof (cases "tm \<le> bEnd b")
      case True
      then have "0 \<le> (bEnd b - tm) div bPer b" using p by (simp add: pos_imp_zdiv_nonneg_iff)
      then show ?thesis using tdiv_neg [of "bEnd b - tm" "bPer b"] tdiv_neg [of "(bEnd b - tm) div bPer b * bPer b" "bPer b"] True False p
        by (simp add: grid_time_def)
    next
      case gr: False
      have "k \<le> tm div bPer b" using gr p k zdiv_mono1 [of "bPer b * k" tm "bPer b"] by simp
      moreover have "(tm - bPer b * k) div bPer b = tm div bPer b - k" using p div_mult_self2 [of "bPer b" tm "- k"] by simp
      ultimately show ?thesis using gr False p k by (simp add: grid_time_def tdiv_nonneg algebra_simps)
    qed
    from same [OF this] show ?thesis
      unfolding tb_set_grid [OF assms] tb_set_grid [OF assms(1) gt] using False by simp
  qed
qed

lemma tb_set_grid_old:
  assumes "grid_inv b" "bPer b \<le> tm" "bPer b dvd tm" "grid_cells b \<noteq> []" "tm < bBeg b"
  shows "tb_set now b v tm = Inl (TError Arch_Val_OldBufVl)"
proof -
  let ?n = "int (length (grid_cells b))"
  have p: "0 < bPer b" and e: "bEnd b = bBeg b + (?n - 1) * bPer b" "bPer b dvd bBeg b" "bEnd b < 2147483648 * bPer b"
    using assms(1,4) by (auto simp: grid_inv_def hard_ok_def)
  obtain j where j: "bBeg b - tm = j * bPer b" using e(2) assms(3) by (metis dvdE dvd_diff mult.commute)
  have "0 < j" using assms(5) p j by (metis diff_gt_0_iff_gt zero_less_mult_pos2)
  have k: "bEnd b - tm = (?n - 1 + j) * bPer b" using e(1) j by (simp add: algebra_simps)
  have "(?n - 1 + j) * bPer b < 2147483648 * bPer b" using k e(3) assms(2) p by linarith
  then have "?n - 1 + j < 2147483648" using p by (simp only: mult_less_cancel_right_pos)
  moreover have n: "0 \<le> (?n - 1 + j) * bPer b" using p \<open>0 < j\<close> by (intro mult_nonneg_nonneg) auto
  then have "tdiv (tm - bEnd b) (bPer b) = - (?n - 1 + j)"
    using tdiv_neg [OF n p] p unfolding k [symmetric] minus_diff_eq by (simp add: k)
  ultimately have "to_i32 (tdiv (tm - bEnd b) (bPer b)) = - (?n - 1 + j)" using \<open>0 < j\<close> by (simp add: to_i32_id)
  moreover have "0 < ?n" using assms(4) by simp
  ultimately have "\<not> (to_i32 (tdiv (tm - bEnd b) (bPer b)) \<le> 0 \<and> - to_i32 (tdiv (tm - bEnd b) (bPer b)) < ?n)"
    "to_i32 (tdiv (tm - bEnd b) (bPer b)) < 0" using \<open>0 < j\<close> by linarith+
  then show ?thesis unfolding tb_set_grid [OF assms(1,2)] using assms(4) p by (simp add: hard_set_def Let_def)
qed

section \<open>The interface\<close>

locale value_series =
  fixes inv :: "'b \<Rightarrow> bool"
    and put :: "'b \<Rightarrow> 'v \<Rightarrow> int \<Rightarrow> 'b res"
    and look :: "'b \<Rightarrow> int \<Rightarrow> ('v \<times> int) res"
    and takes :: "'b \<Rightarrow> int \<Rightarrow> bool"
    and fits :: "'b \<Rightarrow> int \<Rightarrow> bool"
    and stamp :: "'b \<Rightarrow> int \<Rightarrow> int"
  assumes put_look: "inv b \<Longrightarrow> takes b t \<Longrightarrow>
      \<exists>b'. put b v t = Inr b' \<and> inv b' \<and> look b' t = Inr (v, stamp b t)"
    and put_later: "inv b \<Longrightarrow> takes b t \<Longrightarrow> put b v t = Inr b' \<Longrightarrow> t \<le> u \<Longrightarrow> fits b u \<Longrightarrow> takes b' u"
    and put_same: "inv b \<Longrightarrow> takes b t \<Longrightarrow> put b v t = Inr b' \<Longrightarrow> fits b' = fits b \<and> stamp b' = stamp b"

text \<open>Writing a list of values, as the acquisition does it one by one.\<close>

fun feed :: "('b \<Rightarrow> 'v \<Rightarrow> int \<Rightarrow> 'b res) \<Rightarrow> 'b \<Rightarrow> (int \<times> 'v) list \<Rightarrow> 'b res" where
  "feed put b [] = Inr b"
| "feed put b ((t, v) # ws) = rbind (put b v t) (\<lambda>b'. feed put b' ws)"

context value_series
begin

lemma feed_ordered:
  assumes "inv b" "ws \<noteq> []" "takes b (fst (hd ws))" "sorted (map fst ws)" "\<forall>w \<in> set ws. fits b (fst w)"
  shows "\<exists>b'. feed put b ws = Inr b' \<and> inv b' \<and>
    look b' (fst (last ws)) = Inr (snd (last ws), stamp b (fst (last ws)))"
  using assms
proof (induction ws arbitrary: b)
  case (Cons w ws)
  obtain t v where w: "w = (t, v)" by (cases w)
  from Cons.prems w put_look [of b t v] obtain b1 where
    b1: "put b v t = Inr b1" "inv b1" "look b1 t = Inr (v, stamp b t)" by auto
  show ?case
  proof (cases "ws = []")
    case True
    with b1 w show ?thesis by simp
  next
    case False
    have "t \<le> fst (hd ws)" "fits b (fst (hd ws))" using Cons.prems False w by (cases ws; auto)+
    then have "takes b1 (fst (hd ws))" using put_later [of b t v b1] Cons.prems w b1 by simp
    moreover have same: "fits b1 = fits b" "stamp b1 = stamp b" using put_same [of b t v b1] Cons.prems w b1 by auto
    ultimately have "\<exists>b'. feed put b1 ws = Inr b' \<and> inv b' \<and>
      look b' (fst (last ws)) = Inr (snd (last ws), stamp b1 (fst (last ws)))"
      using Cons.prems False b1(2) same by (intro Cons.IH) auto
    with b1 False w same show ?thesis by simp
  qed
qed simp

end

text \<open>The two modes of \<open>TBuf\<close> are such series.\<close>

definition flow_takes :: "'v tbuf \<Rightarrow> int \<Rightarrow> bool" where
  "flow_takes b tm \<longleftrightarrow> 0 < flow_key b tm \<and> \<not> flow_rejects b tm"

interpretation flow: value_series flow_inv "tb_set now" "\<lambda>b t. tb_get b t False" flow_takes
    "\<lambda>b t. 0 < flow_key b t" "\<lambda>b t. flow_us b (flow_key b t)" for now
proof (unfold_locales, goal_cases)
  case (1 b t v)
  with flow_set_get [of b t now v] show ?case by (auto simp: flow_takes_def)
next
  case (2 b t v b' u)
  with flow_set_get [of b t now v] have "bBeg b' \<le> t" "hgResTm b' = hgResTm b" by (auto simp: flow_takes_def)
  with 2 show ?case by (auto simp: flow_takes_def flow_rejects_def flow_key_def)
next
  case (3 b t v b')
  with flow_set_get [of b t now v] have "hgResTm b' = hgResTm b" by (auto simp: flow_takes_def)
  then show ?case by (simp add: flow_key_def flow_us_def fun_eq_iff)
qed

definition grid_fits :: "'v tbuf \<Rightarrow> int \<Rightarrow> bool" where
  "grid_fits b tm \<longleftrightarrow> bPer b \<le> tm \<and> tm < 2147483648 * bPer b \<and> bPer b dvd tm"

interpretation grid: value_series grid_inv "tb_set now" "\<lambda>b t. tb_get b t False" grid_accepts
    grid_fits "\<lambda>b t. t" for now
proof (unfold_locales, goal_cases)
  case (1 b t v)
  with grid_set_get [of b t now v] show ?case by auto
next
  case (2 b t v b' u)
  with grid_set_get [of b t now v] have "bBeg b' \<le> t" "bPer b' = bPer b" by auto
  with 2 show ?case by (auto simp: grid_accepts_def grid_fits_def)
next
  case (3 b t v b')
  with grid_set_get [of b t now v] have "bPer b' = bPer b" by auto
  then show ?case by (simp add: grid_fits_def fun_eq_iff)
qed

section \<open>The properties of the buffers\<close>

text \<open>A flow and a hard grid buffer the witnesses use.\<close>

definition flow_sample :: "int tbuf" where
  "flow_sample = \<lparr>hgResTm = True, hrdGrd = False, fillLast = False, bEnd = 7, bBeg = 5, bPer = 0, bSize = 2, bCur = 0,
     bEval = -1, mEvalCnt = 0, bStore = TmHigh [(5, 10), (7, 20)]\<rparr>"

definition grid_sample :: "int tbuf" where
  "grid_sample = \<lparr>hgResTm = True, hrdGrd = True, fillLast = True, bEnd = 40, bBeg = 20, bPer = 10, bSize = 3, bCur = 1,
     bEval = -1, mEvalCnt = 0, bStore = Grid [3, 1, 2]\<rparr>"

lemma flow_sample_inv: "flow_inv flow_sample" "flow_recs flow_sample = [(5, 10), (7, 20)]"
  "flow_key flow_sample t = t" "flow_us flow_sample t = t" "bSize flow_sample = 2" "bBeg flow_sample = 5"
  by (simp_all add: flow_sample_def flow_inv_def flow_recs_def flow_mk_def stamps_ok_def flow_us_def flow_key_def)

lemma grid_sample_inv: "grid_inv grid_sample" "grid_cells grid_sample = [3, 1, 2]"
  "grid_hist grid_sample = [1, 2, 3]" "bEnd grid_sample = 40" "bBeg grid_sample = 20" "bPer grid_sample = 10"
  "bSize grid_sample = 3" "fillLast grid_sample"
  by (simp_all add: grid_sample_def grid_inv_def hard_ok_def ring_ok_def grid_cells_def grid_hist_def ring_hist_def
     rotate1_def)

text \<open>C5. Writing to a flow buffer that fulfils its invariant keeps the invariant and is, on the records,
  the insertion in the order of the stamps (or the replacement of the value with the same stamp) with
  the oldest record dropped at the size limit; a value older than a full buffer is refused with the
  error \<open>Arch_Val_OldBufVl\<close>, and these are the only two results.\<close>

theorem flow_buffer_write:
  assumes "flow_inv b" "0 < flow_key b tm"
  shows "if flow_rejects b tm then tb_set now b v tm = Inl (TError Arch_Val_OldBufVl)
    else \<exists>b'. tb_set now b v tm = Inr b' \<and> flow_inv b' \<and>
      flow_recs b' = keep_last (bSize b) (upd_sorted (flow_key b tm) v (flow_recs b))"
  using flow_set_get [OF assms, of now v] tb_set_flow [OF assms, of now v]
  by (auto simp: flow_rejects_def flow_set_def)

lemma flow_buffer_write_witness:
  "(\<exists>b'. tb_set 0 flow_sample 30 6 = Inr b' \<and> flow_recs b' = [(6, 30), (7, 20)]) \<and>
   tb_set 0 flow_sample 30 4 = Inl (TError Arch_Val_OldBufVl)"
  using flow_buffer_write [of flow_sample 6 0 30] flow_buffer_write [of flow_sample 4 0 30]
  by (auto simp: flow_sample_inv flow_rejects_def keep_last_def)

text \<open>C6. Reading a flow buffer gives, downwards, the youngest record not after the time asked for and,
  upwards, the oldest record not before it, with the time of that record; when there is none it gives
  the empty value and leaves the time.\<close>

theorem flow_buffer_read:
  assumes "flow_inv b" "flow_recs b \<noteq> []"
  shows "tb_get b tm False = (case rev (filter (\<lambda>r. flow_us b (fst r) \<le> tm) (flow_recs b)) of
       [] \<Rightarrow> Inr (bEval b, tm) | r # _ \<Rightarrow> Inr (snd r, flow_us b (fst r))) \<and>
    tb_get b tm True = (case filter (\<lambda>r. tm \<le> flow_us b (fst r)) (flow_recs b) of
       [] \<Rightarrow> Inr (bEval b, tm) | r # _ \<Rightarrow> Inr (snd r, flow_us b (fst r)))"
  using flow_get_prev [OF assms] flow_get_next [OF assms] by (simp add: flow_before_def flow_after_def)

lemma flow_buffer_read_witness:
  "tb_get flow_sample 6 False = Inr (10, 5) \<and> tb_get flow_sample 6 True = Inr (20, 7)"
  using flow_buffer_read [of flow_sample 6] by (simp add: flow_sample_inv)

text \<open>C7. Writing to a hard grid buffer at a time from one period up to 2^31 periods.  A time within the window is that
  of the cell at or after it, a time after the window that of the cell at or before it (\<open>grid_time\<close>).  Before the
  window the value is refused with the error \<open>Arch_Val_OldBufVl\<close>.  Else the write succeeds and keeps the invariant:
  within the window the value of its cell is replaced, after it the cells up to that time are appended (filled with the
  last or the empty value) and the oldest beyond the size are dropped; the counter of the empty values stays exact.\<close>

theorem grid_buffer_write:
  assumes "grid_inv b" "bPer b \<le> tm" "tm < 2147483648 * bPer b"
  shows "if grid_cells b \<noteq> [] \<and> grid_time b tm < bBeg b then tb_set now b v tm = Inl (TError Arch_Val_OldBufVl)
    else \<exists>b'. tb_set now b v tm = Inr b' \<and> grid_inv b' \<and> grid_hist b' = grid_write b v (grid_time b tm) \<and>
      bEnd b' = (if grid_cells b = [] then grid_time b tm else max (bEnd b) (grid_time b tm)) \<and>
      mEvalCnt b' = of_nat (count_list (grid_cells b') (bEval b'))"
proof -
  note g = grid_time_ok [OF assms(1,2)] and t = tb_set_grid_time [OF assms(1,2), of now v]
  show ?thesis
  proof (cases "grid_cells b \<noteq> [] \<and> grid_time b tm < bBeg b")
    case True
    then show ?thesis using tb_set_grid_old [OF assms(1) g(1,2)] t by simp
  next
    case False
    have "grid_time b tm < 2147483648 * bPer b"
    proof (cases "grid_cells b \<noteq> [] \<and> tm \<le> bEnd b")
      case True
      then show ?thesis using g(4) assms(1) by (auto simp: grid_inv_def)
    next
      case False
      have "0 < bPer b" using assms(1) by (simp add: grid_inv_def)
      then have "tm div bPer b * bPer b \<le> tm" using pos_mod_sign [of "bPer b" tm] div_mult_mod_eq [of tm "bPer b"] by linarith
      then show ?thesis using False assms(3) by (auto simp: grid_time_def)
    qed
    then have "grid_accepts b (grid_time b tm)" using False g(1,2) by (auto simp: grid_accepts_def)
    from grid_set_get [OF assms(1) this, of now v] False t show ?thesis
      by (fastforce simp: grid_inv_def hard_ok_def split: if_splits)
  qed
qed

lemma grid_buffer_write_witness:
  "(\<exists>b'. tb_set 0 grid_sample 9 65 = Inr b' \<and> grid_hist b' = [3, 3, 9] \<and> bEnd b' = 60) \<and>
   (\<exists>b'. tb_set 0 grid_sample 9 25 = Inr b' \<and> grid_hist b' = [1, 9, 3] \<and> bEnd b' = 40) \<and>
   tb_set 0 grid_sample 9 10 = Inl (TError Arch_Val_OldBufVl)"
  using grid_buffer_write [of grid_sample 65 0 9] grid_buffer_write [of grid_sample 25 0 9] grid_buffer_write [of grid_sample 10 0 9]
  by (auto simp: grid_time_def grid_write_def grid_sample_inv keep_last_def numeral_2_eq_2)

text \<open>C8. Reading a hard grid buffer within its window gives, downwards, the cell of the period the time
  is in and, upwards, the cell of the next grid time, each with its grid time.\<close>

theorem grid_buffer_read:
  assumes "grid_inv b" "bBeg b \<le> tm" "tm \<le> bEnd b" "grid_cells b \<noteq> []"
  shows "tb_get b tm False = Inr (grid_hist b ! nat ((tm - bBeg b) div bPer b),
       bBeg b + (tm - bBeg b) div bPer b * bPer b) \<and>
    tb_get b tm True = Inr (rev (grid_hist b) ! nat ((bEnd b - tm) div bPer b),
       bEnd b - (bEnd b - tm) div bPer b * bPer b)"
  using grid_get_prev [OF assms(1,4,2)] grid_get_next [OF assms(1,4,3)] assms(2,3) by simp

lemma grid_buffer_read_witness:
  "tb_get grid_sample 35 False = Inr (2, 30) \<and> tb_get grid_sample 35 True = Inr (3, 40)"
  using grid_buffer_read [of grid_sample 35] by (simp add: grid_sample_inv)

text \<open>C9. Any series of values whose times do not decrease and have positive keys is taken by a flow buffer that
  takes the first one, whatever the size limit; the last value is read back at its time.\<close>

theorem flow_feed_last:
  assumes "flow_inv b" "ws \<noteq> []" "flow_takes b (fst (hd ws))" "sorted (map fst ws)"
    "\<forall>w \<in> set ws. 0 < flow_key b (fst w)"
  shows "\<exists>b'. feed (tb_set now) b ws = Inr b' \<and> flow_inv b' \<and>
    tb_get b' (fst (last ws)) False = Inr (snd (last ws), flow_us b (flow_key b (fst (last ws))))"
  using assms by (rule flow.feed_ordered)

lemma flow_feed_last_witness:
  "\<exists>b'. feed (tb_set 0) flow_sample [(6, 30), (9, 40), (9, 50)] = Inr b' \<and> tb_get b' 9 False = Inr (50, 9)"
  using flow_feed_last [of flow_sample "[(6, 30), (9, 40), (9, 50)]" 0]
  by (auto simp: flow_sample_inv flow_takes_def flow_rejects_def)

text \<open>C10. Any series of values whose times do not decrease and are on the grid (from one period up to 2^31 periods) is taken by a hard grid buffer
  when the first one is not before its window; the last value is read back at its time.\<close>

theorem grid_feed_last:
  assumes "grid_inv b" "ws \<noteq> []" "grid_accepts b (fst (hd ws))" "sorted (map fst ws)"
    "\<forall>w \<in> set ws. grid_fits b (fst w)"
  shows "\<exists>b'. feed (tb_set now) b ws = Inr b' \<and> grid_inv b' \<and>
    tb_get b' (fst (last ws)) False = Inr (snd (last ws), fst (last ws))"
  using assms by (rule grid.feed_ordered)

lemma grid_feed_last_witness:
  "\<exists>b'. feed (tb_set 0) grid_sample [(30, 7), (50, 8)] = Inr b' \<and> tb_get b' 50 False = Inr (8, 50)"
proof -
  have "grid_accepts grid_sample 30" "grid_fits grid_sample 30" "grid_fits grid_sample 50"
    by (simp_all add: grid_accepts_def grid_fits_def grid_sample_def)
  then show ?thesis using grid_feed_last [of grid_sample "[(30, 7), (50, 8)]" 0]
    by (auto simp: grid_sample_inv)
qed

section \<open>What the code does not keep\<close>

text \<open>Replacing a value of the flow by the empty value does not count it: the counter of the empty
  values stays below their number by one.\<close>

lemma flow_replace_not_counted:
  assumes "flow_inv b" "0 < flow_key b tm" "\<not> flow_rejects b tm"
    "map_of (flow_recs b) (flow_key b tm) = Some old" "old \<noteq> bEval b"
  shows "\<exists>b'. tb_set now b (bEval b) tm = Inr b' \<and> mEvalCnt b' = mEvalCnt b \<and>
    map_of (flow_recs b') (flow_key b tm) = Some (bEval b)"
proof -
  let ?k = "flow_key b tm" and ?xs = "flow_recs b"
  have st: "stamps_ok ?xs" "0 \<le> bSize b" and ne: "?xs \<noteq> []" using assms(1,4) by (auto simp: flow_inv_def)
  have "tb_set now b (bEval b) tm = Inr (flow_result (flow_us b) (flow_mk b) b ?xs ?k (bEval b))"
    using tb_set_flow [OF assms(1,2)] flow_set_ok [OF st] assms(3) ne by (simp add: flow_rejects_def)
  with assms(4,5) st(1) show ?thesis
    by (auto simp: flow_result_def cnt_out_def flow_recs_def map_of_upd_sorted)
qed

lemma flow_replace_not_counted_witness:
  "\<exists>b'. tb_set 0 flow_sample (-1) 7 = Inr b' \<and> mEvalCnt b' = 0 \<and> map_of (flow_recs b') 7 = Some (-1)"
proof -
  have "bEval flow_sample = -1" "mEvalCnt flow_sample = 0" by (simp_all add: flow_sample_def)
  with flow_replace_not_counted [of flow_sample 7 20 0] show ?thesis
    by (auto simp: flow_sample_inv flow_rejects_def)
qed

text \<open>C11. Leaving the hard grid mode deletes the vector of plain values under the type of the vector of
  stamped values: the new mode flags are stored before the old vector is deleted.\<close>

theorem makeBuf_wrong_type:
  assumes "bStore b = Grid g" "hrdGrd b"
  shows "tb_makeBuf isz ipr False ihg b = Inl BadCast"
  using assms by (simp add: tb_makeBuf_def)

lemma makeBuf_wrong_type_witness: "tb_makeBuf 3 0 False True grid_sample = Inl BadCast"
  by (rule makeBuf_wrong_type [of _ "[3, 1, 2]"]) (simp_all add: grid_sample_def)

lemma soft_scan_ends:
  assumes "0 \<le> c" "c < int (length xs)"
  shows "(if e > c then e - c else e - c + int (length xs)) \<le> int k \<Longrightarrow> e < int (length xs) \<Longrightarrow> 0 < k \<Longrightarrow>
    soft_scan k tof b xs up npos c e \<noteq> Inl Diverge"
proof (induction k arbitrary: e)
  case (Suc k)
  show ?case
  proof (cases "0 \<le> e")
    case False
    then show ?thesis by (simp add: vat_def)
  next
    case True
    let ?e = "if e - 1 < 0 then int (length xs) - 1 else e - 1"
    have "soft_scan k tof b xs up npos c ?e \<noteq> Inl Diverge" if "?e \<noteq> c"
    proof (rule Suc.IH)
      show "(if ?e > c then ?e - c else ?e - c + int (length xs)) \<le> int k" using Suc.prems True that assms by (auto split: if_splits)
      then show "0 < k" using that assms True by (auto split: if_splits)
      show "?e < int (length xs)" using Suc.prems True by auto
    qed
    moreover have "vat xs e = Inr (xs ! nat e)" using True Suc.prems by (simp add: vat_def)
    ultimately show ?thesis by (cases "e < 1"; cases up; cases "xs ! nat e") (simp_all add: Let_def)
  qed
qed simp


lemma soft_half_range:
  "0 \<le> c \<Longrightarrow> c < int (length xs) \<Longrightarrow> case soft_half tof per xs tm w c of Inr e \<Rightarrow> 0 \<le> e \<and> e < int (length xs) | Inl f \<Rightarrow> f = UndefRead"
proof (induction tof per xs tm w c rule: soft_half.induct)
  case (1 tof per xs tm w c)
  let ?n = "if c - w < 0 then c - w + int (length xs) else c - w"
  show ?case
  proof (cases "w > HalfDivMinWin \<and> 0 \<le> ?n \<and> ?n < int (length xs)")
    case True
    then have v: "vat xs ?n = Inr (xs ! nat ?n)" by (simp add: vat_def)
    let ?e = "if tdiv tm per < tdiv (tof (fst (xs ! nat ?n))) per then ?n else c"
    have "0 \<le> ?e" "?e < int (length xs)" using True 1(2,3) by auto
    from 1(1) [OF conjunct1 [OF True] refl refl this] v True show ?thesis by (subst soft_half.simps) (simp only: Let_def rbind_simps if_True)
  qed (use 1(2,3) in \<open>subst soft_half.simps, auto simp: Let_def vat_def simp del: soft_half.simps\<close>)
qed

text \<open>The fuel of the scan of the soft grid is enough: it looks at each cell once.\<close>

lemma soft_get_ends: "0 \<le> bCur b \<Longrightarrow> bCur b \<le> int (length xs) \<Longrightarrow> soft_get tof b xs tm up \<noteq> Inl Diverge"
proof -
  assume b: "0 \<le> bCur b" "bCur b \<le> int (length xs)"
  let ?c = "if bCur b \<noteq> 0 then bCur b - 1 else int (length xs) - 1"
  show ?thesis
  proof (cases "xs = []")
    case True
    then show ?thesis using b by (simp add: soft_get_def soft_half.simps HalfDivMinWin_def vat_def tdiv_def)
  next
    case False
    then have c: "0 \<le> ?c" "?c < int (length xs)" using b by auto
    note h = soft_half_range [OF c, of tof "bPer b" tm "tdiv (int (length xs)) 2"]
    show ?thesis
    proof (cases "soft_half tof (bPer b) xs tm (tdiv (int (length xs)) 2) ?c")
      case (Inl f)
      then show ?thesis using h by (simp add: soft_get_def Let_def del: soft_half.simps)
    next
      case (Inr e)
      then have "0 \<le> e" "e < int (length xs)" using h by (simp_all del: soft_half.simps)
      with c have "(if e > ?c then e - ?c else e - ?c + int (length xs)) \<le> int (Suc (length xs))" by (simp split: if_splits del: soft_half.simps)
      from soft_scan_ends [OF c this \<open>e < _\<close>] Inr show ?thesis
        unfolding soft_get_def Let_def by (simp only: rbind_simps zero_less_Suc simp_thms)
    qed
  qed
qed

text \<open>Reading an empty soft grid buffer (downwards, for any time not before 1970) reads the element
  before the first of the vector.\<close>

lemma soft_empty_get:
  assumes "\<not> hrdGrd b" "bPer b \<noteq> 0" "bStore b = new_store False (hgResTm b)" "bCur b = 0" "bBeg b = 0" "bEnd b = 0"
    "0 \<le> tm"
  shows "tb_get b tm False = Inl UndefRead"
  using assms
  by (cases "hgResTm b")
    (simp_all add: tb_get_def new_store_def soft_get_def soft_half.simps HalfDivMinWin_def vat_def Let_def)

lemma soft_empty_get_witness:
  "tb_get (grid_sample\<lparr>hrdGrd := False, bStore := TmHigh [], bCur := 0, bBeg := 0, bEnd := 0\<rparr>) 5 False = Inl UndefRead"
  by (rule soft_empty_get) (simp_all add: grid_sample_def new_store_def)

end
