(* ===== verification/Cpp_String.thy ===== *)
theory Cpp_String
  imports Cpp_Base
begin

text \<open>
  The part of \<open>std::string\<close> and of the C library the text components use: a text is a list of
  \<open>char\<close> (the bytes of the C++ \<open>char\<close>), offsets are integers as the code keeps them, \<open>npos\<close> is
  \<open>None\<close>.  The character classes are those of the C locale; no byte from 128 on is in a class.
\<close>

section \<open>Characters\<close>

abbreviation nul :: char where "nul \<equiv> CHR 0x00"

definition code :: "char \<Rightarrow> nat" where
  "code c = of_char c"

definition byte :: "char \<Rightarrow> u8" where
  "byte c = word_of_nat (code c)"

definition chr :: "u8 \<Rightarrow> char" where
  "chr w = char_of (unat w)"

lemma code_less [simp]: "code c < 256"
  by (simp add: code_def)

lemma code_byte: "code c = unat (byte c)"
  by (simp add: byte_def unat_of_nat)

lemma chr_byte [simp]: "chr (byte c) = c"
  by (simp add: chr_def code_byte [symmetric] code_def)

lemma byte_chr [simp]: "byte (chr w) = w"
  using u8_unat_less [of w] by (simp add: chr_def byte_def code_def)

lemma byte_inj: "byte c = byte d \<longleftrightarrow> c = d"
  by (metis chr_byte)

lemma code_inj: "code c = code d \<longleftrightarrow> c = d"
  by (simp add: code_def)

definition isspace :: "char \<Rightarrow> bool" where
  "isspace c \<longleftrightarrow> code c = 32 \<or> (9 \<le> code c \<and> code c \<le> 13)"

definition isdigit :: "char \<Rightarrow> bool" where
  "isdigit c \<longleftrightarrow> 48 \<le> code c \<and> code c \<le> 57"

definition isxdigit :: "char \<Rightarrow> bool" where
  "isxdigit c \<longleftrightarrow> isdigit c \<or> (65 \<le> code c \<and> code c \<le> 70) \<or> (97 \<le> code c \<and> code c \<le> 102)"

definition isprint :: "char \<Rightarrow> bool" where
  "isprint c \<longleftrightarrow> 32 \<le> code c \<and> code c \<le> 126"

definition tolower :: "char \<Rightarrow> char" where
  "tolower c = (if 65 \<le> code c \<and> code c \<le> 90 then char_of (code c + 32) else c)"

section \<open>Searching and cutting\<close>

text \<open>\<open>s.find(sub, i)\<close>; a negative \<open>i\<close> becomes a huge \<open>size_t\<close>, from which nothing is found.\<close>

definition sfind :: "string \<Rightarrow> string \<Rightarrow> int \<Rightarrow> int option" where
  "sfind s sub i =
     (if i < 0 then None
      else map_option int (List.find (\<lambda>p. take (length sub) (drop p s) = sub) [nat i ..< length s + 1 - length sub]))"

text \<open>\<open>s.rfind(sub, i)\<close>; a negative \<open>i\<close> becomes a huge \<open>size_t\<close>, hence all of the text is searched.\<close>

definition srfind :: "string \<Rightarrow> string \<Rightarrow> int \<Rightarrow> int option" where
  "srfind s sub i =
     (let top = (if i < 0 then length s + 1 - length sub else min (nat i + 1) (length s + 1 - length sub))
      in map_option int (List.find (\<lambda>p. take (length sub) (drop p s) = sub) (rev [0 ..< top])))"

text \<open>\<open>s.substr(i, n)\<close>, which throws for a position outside; a negative count becomes a huge one.\<close>

definition ssubstr :: "string \<Rightarrow> int \<Rightarrow> int \<Rightarrow> string res" where
  "ssubstr s i n =
     (if i < 0 \<or> i > int (length s) then Inl OutOfRange
      else Inr (if n < 0 then drop (nat i) s else take (nat n) (drop (nat i) s)))"

text \<open>The symbol at a position; after the text there is the zero byte of \<open>std::string\<close>.\<close>

definition at :: "string \<Rightarrow> nat \<Rightarrow> char" where
  "at vl i = (if i < length vl then vl ! i else nul)"

lemma find_upt_Some: "List.find P [a ..< b] = Some p \<Longrightarrow> a \<le> p \<and> p < b \<and> P p \<and> (\<forall>q. a \<le> q \<and> q < p \<longrightarrow> \<not> P q)"
proof -
  assume "List.find P [a ..< b] = Some p"
  then obtain i where i: "i < b - a" "P (a + i)" "p = a + i" "\<forall>j < i. \<not> P ([a ..< b] ! j)"
    by (auto simp: find_Some_iff)
  have "\<not> P q" if "a \<le> q" "q < p" for q
    using i(4) [rule_format, of "q - a"] that i by simp
  with i show ?thesis by auto
qed

lemma sfind_range: "sfind s sub i = Some t \<Longrightarrow> i \<le> t \<and> 0 \<le> t \<and> t + int (length sub) \<le> int (length s)"
  by (auto simp: sfind_def dest!: find_upt_Some split: if_splits)

lemma sfind_char:
  assumes "0 \<le> i" "i \<le> int (length s)"
  shows "sfind s [c] i = (if c \<in> set (drop (nat i) s)
    then Some (i + int (length (takeWhile (\<lambda>x. x \<noteq> c) (drop (nat i) s)))) else None)"
proof -
  have f: "List.find (\<lambda>p. take (Suc 0) (drop p s) = [c]) [a ..< length s] =
     (if c \<in> set (drop a s) then Some (a + length (takeWhile (\<lambda>x. x \<noteq> c) (drop a s))) else None)" if "a \<le> length s" for a
    using that
  proof (induction "length s - a" arbitrary: a)
    case (Suc n)
    then have a: "a < length s" by simp
    then have d: "drop a s = s ! a # drop (Suc a) s" by (simp add: Cons_nth_drop_Suc)
    with Suc.hyps(1) [of "Suc a"] Suc.hyps(2) a show ?case by (auto simp: upt_conv_Cons)
  qed simp
  show ?thesis using f [of "nat i"] assms by (simp add: sfind_def)
qed

section \<open>Numbers\<close>

definition digit_val :: "char \<Rightarrow> nat" where
  "digit_val c = (if isdigit c then code c - 48
     else if 97 \<le> code c \<and> code c \<le> 122 then code c - 87
     else if 65 \<le> code c \<and> code c \<le> 90 then code c - 55 else 36)"

definition digits_val :: "nat \<Rightarrow> string \<Rightarrow> nat" where
  "digits_val base ds = foldl (\<lambda>n c. n * base + digit_val c) 0 (takeWhile (\<lambda>c. digit_val c < base) ds)"

definition has_0x :: "string \<Rightarrow> bool" where
  "has_0x s \<longleftrightarrow> length s \<ge> 3 \<and> s ! 0 = CHR ''0'' \<and> tolower (s ! 1) = CHR ''x'' \<and> digit_val (s ! 2) < 16"

text \<open>\<open>strtol\<close> of a text up to its first zero byte; the result is bounded by the range of \<open>long\<close>.\<close>

definition strtol :: "nat \<Rightarrow> string \<Rightarrow> int" where
  "strtol base s0 =
     (let s1 = dropWhile isspace (takeWhile (\<lambda>c. c \<noteq> nul) s0);
          neg = (s1 \<noteq> [] \<and> hd s1 = CHR ''-'');
          s2 = (if s1 \<noteq> [] \<and> (hd s1 = CHR ''-'' \<or> hd s1 = CHR ''+'') then tl s1 else s1);
          hex = ((base = 16 \<or> base = 0) \<and> has_0x s2);
          b = (if hex then 16 else if base \<noteq> 0 then base
               else if s2 \<noteq> [] \<and> hd s2 = CHR ''0'' then 8 else 10);
          n = int (digits_val b (if hex then drop 2 s2 else s2))
      in max (- 9223372036854775808) (min 9223372036854775807 (if neg then - n else n)))"

text \<open>\<open>atoi\<close>, that is \<open>s2i\<close>: the value of \<open>strtol\<close> narrowed to \<open>int\<close>; \<open>atoll\<close> is \<open>s2ll\<close>.\<close>

definition s2i :: "string \<Rightarrow> int" where
  "s2i s = to_i32 (strtol 10 s)"

definition s2ll :: "string \<Rightarrow> int" where
  "s2ll s = strtol 10 s"

definition digit_chr :: "nat \<Rightarrow> char" where
  "digit_chr n = char_of (if n < 10 then n + 48 else n + 87)"

fun nat_str :: "nat \<Rightarrow> nat \<Rightarrow> string" where
  "nat_str base n = (if base < 2 \<or> n < base then [digit_chr n] else nat_str base (n div base) @ [digit_chr (n mod base)])"

declare nat_str.simps [simp del]

definition int_str :: "int \<Rightarrow> string" where
  "int_str n = (if n < 0 then CHR ''-'' # nat_str 10 (nat (- n)) else nat_str 10 (nat n))"

datatype int_view = Dec | Oct | Hex

text \<open>\<open>TSYS::int2str\<close>, that is \<open>i2s\<close>; the argument is narrowed to \<open>int\<close> by the call.\<close>

definition i2s :: "int \<Rightarrow> int_view \<Rightarrow> string" where
  "i2s val view = (case view of
       Oct \<Rightarrow> nat_str 8 (nat (to_i32 val mod 4294967296))
     | Hex \<Rightarrow> nat_str 16 (nat (to_i32 val mod 4294967296))
     | Dec \<Rightarrow> int_str (to_i32 val))"

lemma digit_chr_val: "n < 36 \<Longrightarrow> digit_val (digit_chr n) = n"
  by (auto simp: digit_val_def digit_chr_def isdigit_def code_def)

lemma digits_val_app:
  assumes "\<forall>c \<in> set xs. digit_val c < b" "digit_val c < b"
  shows "digits_val b (xs @ [c]) = digits_val b xs * b + digit_val c"
proof -
  have "takeWhile (\<lambda>c. digit_val c < b) (xs @ [c]) = xs @ [c]" "takeWhile (\<lambda>c. digit_val c < b) xs = xs"
    using assms by (simp_all add: takeWhile_eq_all_conv)
  then show ?thesis unfolding digits_val_def by (simp only: foldl_append foldl.simps)
qed

lemma nat_str_digits:
  "2 \<le> b \<Longrightarrow> b \<le> 36 \<Longrightarrow> (\<forall>c \<in> set (nat_str b n). digit_val c < b) \<and> digits_val b (nat_str b n) = n"
proof (induction b n rule: nat_str.induct)
  case (1 b n)
  show ?case
  proof (cases "n < b")
    case True
    with 1 show ?thesis by (simp add: nat_str.simps [of b n] digits_val_def digit_chr_val)
  next
    case False
    with 1 have IH: "\<forall>c \<in> set (nat_str b (n div b)). digit_val c < b" "digits_val b (nat_str b (n div b)) = n div b"
      by auto
    have d: "digit_val (digit_chr (n mod b)) = n mod b" using 1(2,3) by (intro digit_chr_val) (auto intro: less_le_trans [OF mod_less_divisor])
    have eq: "nat_str b n = nat_str b (n div b) @ [digit_chr (n mod b)]"
      using False 1(2) by (simp add: nat_str.simps [of b n])
    show ?thesis unfolding eq using IH d 1(2) digits_val_app [OF IH(1), of "digit_chr (n mod b)"] by auto
  qed
qed

lemma nat_str_not_Nil [simp]: "nat_str b n \<noteq> []"
  by (subst nat_str.simps) simp

end
