(* ===== verification/Tmess_Utf8.thy ===== *)
theory Tmess_Utf8
  imports Cpp_String
begin

text \<open>
  The reading and writing of Unicode symbols and the test of the message level
  (\<^verbatim>\<open>src/src/tmess.cpp\<close>: \<open>TMess::getUTF8\<close>, \<open>TMess::setUTF8\<close>, \<open>TMess::messLevelTest\<close>).
\<close>

section \<open>The code\<close>

text \<open>The bytes after the first one, which each must be a continuation.\<close>

fun utf8_tail :: "string \<Rightarrow> u32 \<Rightarrow> u32 option" where
  "utf8_tail [] rez = Some rez"
| "utf8_tail (c # cs) rez =
     (if byte c AND 0xC0 \<noteq> 0x80 then None
      else utf8_tail cs (push_bit 6 rez OR ucast (byte c AND 0x3F)))"

text \<open>The result is the length and the symbol, where \<open>*symb\<close> is written.\<close>

definition getUTF8 :: "bool \<Rightarrow> string \<Rightarrow> int \<Rightarrow> int \<times> u32 option" where
  "getUTF8 isUTF8 str off =
     (if off < 0 \<or> off \<ge> int (length str) then (0, None)
      else let b = byte (str ! nat off) in
        if \<not> isUTF8 \<or> b AND 0x80 = 0 then (1, Some (ucast b))
        else let (len, rez) =
               (if b AND 0xE0 = 0xC0 then (2, ucast (b AND 0x1F))
                else if b AND 0xF0 = 0xE0 then (3, ucast (b AND 0x0F))
                else if b AND 0xF8 = 0xF0 then (4, ucast (b AND 0x07)) else (0::nat, 0))
             in if off + int len > int (length str) then (0, None)
                else case utf8_tail (take (len - 1) (drop (nat off + 1) str)) rez of
                       None \<Rightarrow> (0, None) | Some r \<Rightarrow> (int len, Some r))"

text \<open>The loop of \<open>setUTF8\<close> over \<open>iCh\<close>, with the position \<open>iSt\<close> of the first byte.\<close>

fun utf8_put :: "u32 \<Rightarrow> int \<Rightarrow> nat list \<Rightarrow> string" where
  "utf8_put symb iSt [] = []"
| "utf8_put symb iSt (iCh # is) =
     (let sh = drop_bit (iCh * 6) symb;
          iSt' = (if iSt < int iCh \<and> sh \<noteq> 0 then int iCh else iSt)
      in (if int iCh = iSt' then [chr (ucast (push_bit (7 - iCh) 0xFF OR sh))]
          else if int iCh < iSt' then [chr (ucast (0x80 OR (0x3F AND sh)))] else []) @
         utf8_put symb iSt' is)"

definition setUTF8 :: "u32 \<Rightarrow> string" where
  "setUTF8 symb = (if sint symb < 0x80 then [chr (ucast symb)] else utf8_put symb (-1) [5, 4, 3, 2, 1, 0])"

text \<open>The levels of messages, \<open>Debug\<close> to \<open>Emerg\<close>; a category of ten levels is divided by ten.\<close>

definition to_i8 :: "int \<Rightarrow> int" where
  "to_i8 x = (x + 128) mod 256 - 128"

definition messLevelTest :: "int \<Rightarrow> int \<Rightarrow> bool" where
  "messLevelTest condLev0 messLev0 =
     (let condLev = max 0 (min 7 \<bar>condLev0\<bar>); messLev = to_i8 \<bar>messLev0\<bar>
      in (if messLev \<le> 7 then messLev else tdiv messLev 10) \<ge> condLev)"

section \<open>Round trip\<close>

lemma word8_eqI: "list_all (\<lambda>n. bit (a::u8) n = bit b n) [0,1,2,3,4,5,6,7] \<Longrightarrow> a = b"
proof (rule bit_word_eqI)
  fix n assume l: "list_all (\<lambda>n. bit a n = bit b n) [0,1,2,3,4,5,6,7]" and "n < LENGTH(8)"
  then have "n < 8" by simp
  then have "n \<in> set [0,1,2,3,4,5,6,7]" by (auto simp: less_Suc_eq numeral_eq_Suc)
  with l show "bit a n = bit b n" by (auto simp: list_all_iff)
qed

lemma drop_zero_bit: "drop_bit k (x::u32) = 0 \<Longrightarrow> k \<le> n \<Longrightarrow> \<not> bit x n"
proof -
  assume "drop_bit k x = 0" "k \<le> n"
  then have "bit x n = bit (0::u32) (n - k)" by (metis bit_drop_bit_eq comp_apply le_add_diff_inverse)
  then show ?thesis by simp
qed

lemma drop_zero: "drop_bit k (x::u32) = 0 \<longleftrightarrow> unat x < 2 ^ k"
proof -
  have "drop_bit k x = 0 \<longleftrightarrow> drop_bit k (unat x) = 0"
    by (simp only: unat_drop_bit_eq [symmetric] unat_eq_0)
  then show ?thesis by (simp add: drop_bit_eq_div div_eq_0_iff)
qed

lemma sint_small: "unat (x::u32) < 0x80000000 \<Longrightarrow> sint x = int (unat x)"
proof -
  assume a: "unat x < 0x80000000"
  have "sint x = signed_take_bit 31 (int (unat x))" by (simp add: sint_uint)
  also have "\<dots> = int (unat x)" using a by (intro signed_take_bit_int_eq_self) (simp_all del: of_nat_unat)
  finally show ?thesis .
qed

lemma word32_eqI: "list_all (\<lambda>n. bit (a::u32) n = bit b n)
    [0,1,2,3,4,5,6,7,8,9,10,11,12,13,14,15,16,17,18,19,20,21,22,23,24,25,26,27,28,29,30,31] \<Longrightarrow> a = b"
proof (rule bit_word_eqI)
  fix n assume l: "list_all (\<lambda>n. bit a n = bit b n)
    [0,1,2,3,4,5,6,7,8,9,10,11,12,13,14,15,16,17,18,19,20,21,22,23,24,25,26,27,28,29,30,31]" and "n < LENGTH(32)"
  then have "n < 32" by simp
  then have "n \<in> set [0,1,2,3,4,5,6,7,8,9,10,11,12,13,14,15,16,17,18,19,20,21,22,23,24,25,26,27,28,29,30,31]"
    by (auto simp: less_Suc_eq numeral_eq_Suc)
  with l show "bit a n = bit b n" by (auto simp: list_all_iff)
qed

lemma utf8_one: "unat x < 0x80 \<Longrightarrow> getUTF8 True (setUTF8 x @ rest) 0 = (1, Some x) \<and> length (setUTF8 x) = 1"
proof -
  assume a: "unat x < 0x80"
  have b: "\<not> bit x n" if "7 \<le> n" for n using a by (intro drop_zero_bit [OF _ that]) (simp add: drop_zero)
  have "ucast x AND 0x80 = (0::u8)" by (rule word8_eqI) (simp add: bit_simps b)
  moreover have "ucast (ucast x :: u8) = x" by (rule bit_word_eqI) (use b in \<open>auto simp: bit_simps not_less intro: ccontr\<close>)
  ultimately show ?thesis using a by (simp add: setUTF8_def sint_small getUTF8_def del: of_nat_unat)
qed

lemma utf8_two:
  assumes "0x80 \<le> unat x" "unat x < 0x800"
  shows "getUTF8 True (setUTF8 x @ rest) 0 = (2, Some x) \<and> length (setUTF8 x) = 2"
proof -
  have z: "drop_bit 30 x = 0" "drop_bit 24 x = 0" "drop_bit 18 x = 0" "drop_bit 12 x = 0" "drop_bit 6 x \<noteq> 0"
    using assms by (simp_all add: drop_zero)
  have b: "\<not> bit x n" if "11 \<le> n" for n using assms by (intro drop_zero_bit [OF _ that]) (simp add: drop_zero)
  let ?l = "ucast (push_bit 6 0xFF OR drop_bit 6 x) :: u8" and ?c = "ucast (0x80 OR (0x3F AND x)) :: u8"
  have s: "setUTF8 x = [chr ?l, chr ?c]"
    using assms z by (simp add: setUTF8_def sint_small Let_def del: of_nat_unat)
  have h: "?l AND 0x80 = 0x80" "?l AND 0xE0 = 0xC0" "?c AND 0xC0 = 0x80"
    by (rule word8_eqI, simp add: bit_simps b)+
  have "push_bit 6 (ucast (?l AND 0x1F)) OR ucast (?c AND 0x3F) = x"
    by (rule word32_eqI) (simp add: bit_simps b)
  with h show ?thesis by (simp add: s getUTF8_def)
qed

lemma utf8_three:
  assumes "0x1000 \<le> unat x" "unat x < 0x10000"
  shows "getUTF8 True (setUTF8 x @ rest) 0 = (3, Some x) \<and> length (setUTF8 x) = 3"
proof -
  have z: "drop_bit 30 x = 0" "drop_bit 24 x = 0" "drop_bit 18 x = 0" "drop_bit 12 x \<noteq> 0"
    using assms by (simp_all add: drop_zero)
  have b: "\<not> bit x n" if "16 \<le> n" for n using assms by (intro drop_zero_bit [OF _ that]) (simp add: drop_zero)
  let ?l = "ucast (push_bit 5 0xFF OR drop_bit 12 x) :: u8" and ?c = "ucast (0x80 OR (0x3F AND drop_bit 6 x)) :: u8"
    and ?d = "ucast (0x80 OR (0x3F AND x)) :: u8"
  have s: "setUTF8 x = [chr ?l, chr ?c, chr ?d]"
    using assms z by (simp add: setUTF8_def sint_small Let_def del: of_nat_unat)
  have h: "?l AND 0x80 = 0x80" "?l AND 0xE0 = 0xE0" "?l AND 0xF0 = 0xE0" "?c AND 0xC0 = 0x80" "?d AND 0xC0 = 0x80"
    by (rule word8_eqI, simp add: bit_simps b)+
  have "push_bit 6 (push_bit 6 (ucast (?l AND 0x0F)) OR ucast (?c AND 0x3F)) OR ucast (?d AND 0x3F) = x"
    by (rule word32_eqI) (simp add: bit_simps b)
  with h show ?thesis by (simp add: s getUTF8_def)
qed

lemma utf8_four:
  assumes "0x40000 \<le> unat x" "unat x < 0x200000"
  shows "getUTF8 True (setUTF8 x @ rest) 0 = (4, Some x) \<and> length (setUTF8 x) = 4"
proof -
  have z: "drop_bit 30 x = 0" "drop_bit 24 x = 0" "drop_bit 18 x \<noteq> 0"
    using assms by (simp_all add: drop_zero)
  have b: "\<not> bit x n" if "21 \<le> n" for n using assms by (intro drop_zero_bit [OF _ that]) (simp add: drop_zero)
  let ?l = "ucast (push_bit 4 0xFF OR drop_bit 18 x) :: u8" and ?c = "ucast (0x80 OR (0x3F AND drop_bit 12 x)) :: u8"
    and ?d = "ucast (0x80 OR (0x3F AND drop_bit 6 x)) :: u8" and ?e = "ucast (0x80 OR (0x3F AND x)) :: u8"
  have s: "setUTF8 x = [chr ?l, chr ?c, chr ?d, chr ?e]"
    using assms z by (simp add: setUTF8_def sint_small Let_def del: of_nat_unat)
  have h: "?l AND 0x80 = 0x80" "?l AND 0xE0 = 0xE0" "?l AND 0xF0 = 0xF0" "?l AND 0xF8 = 0xF0"
    "?c AND 0xC0 = 0x80" "?d AND 0xC0 = 0x80" "?e AND 0xC0 = 0x80"
    by (rule word8_eqI, simp add: bit_simps b)+
  have "push_bit 6 (push_bit 6 (push_bit 6 (ucast (?l AND 0x07)) OR ucast (?c AND 0x3F)) OR ucast (?d AND 0x3F)) OR
      ucast (?e AND 0x3F) = x"
    by (rule word32_eqI) (simp add: bit_simps b)
  with h show ?thesis by (simp add: s getUTF8_def numeral_3_eq_3)
qed

lemma utf8_broken_length:
  assumes "0x800 \<le> unat x" "unat x < 0x1000"
  shows "length (setUTF8 x) = 2" "fst (getUTF8 True (setUTF8 x) 0) = 0"
proof -
  have z: "drop_bit 30 x = 0" "drop_bit 24 x = 0" "drop_bit 18 x = 0" "drop_bit 12 x = 0" "drop_bit 6 x \<noteq> 0"
    using assms by (simp_all add: drop_zero)
  let ?l = "ucast (push_bit 6 0xFF OR drop_bit 6 x) :: u8" and ?c = "ucast (0x80 OR (0x3F AND x)) :: u8"
  have s: "setUTF8 x = [chr ?l, chr ?c]"
    using assms z by (simp add: setUTF8_def sint_small Let_def del: of_nat_unat)
  then show "length (setUTF8 x) = 2" by simp
  have "bit x 11"
  proof -
    have "unat x div 2 ^ 11 = 1" using assms by simp
    then have "bit (unat x) 11" by (simp add: bit_iff_odd)
    then show ?thesis by (simp add: bit_simps)
  qed
  then have "bit (?l AND 0xE0) 5 \<noteq> bit (0xC0::u8) 5" by (simp add: bit_simps)
  then have l: "?l AND 0xE0 \<noteq> 0xC0" by metis
  have "bit (?l AND 0x80) 7" by (simp add: bit_simps)
  then have "?l AND 0x80 \<noteq> 0" by (metis bit_0_eq bot_apply bot_bool_def)
  with l show "fst (getUTF8 True (setUTF8 x) 0) = 0" by (auto simp: s getUTF8_def Let_def)
qed

section \<open>The properties\<close>

text \<open>C12. Reading back a symbol written by \<open>setUTF8\<close> gives the symbol and the number of bytes
  written, whatever follows, for the symbols below 800, from 1000 to FFFF and from 40000 to 1FFFFF
  (hexadecimal).\<close>

theorem utf8_roundtrip:
  assumes "unat x < 0x800 \<or> 0x1000 \<le> unat x \<and> unat x < 0x10000 \<or> 0x40000 \<le> unat x \<and> unat x < 0x200000"
  shows "getUTF8 True (setUTF8 x @ rest) 0 = (int (length (setUTF8 x)), Some x)"
  using assms utf8_one [of x rest] utf8_two [of x rest] utf8_three [of x rest] utf8_four [of x rest]
  by (cases "unat x < 0x80") auto

lemma utf8_roundtrip_witness: "getUTF8 True (setUTF8 0x20AC @ ''abc'') 0 = (int (length (setUTF8 0x20AC)), Some 0x20AC)"
  by (rule utf8_roundtrip) simp

text \<open>C13. The symbols from 800 to FFF are written with two bytes, which are not UTF-8: reading them
  back fails.\<close>

theorem utf8_broken:
  assumes "0x800 \<le> unat x" "unat x < 0x1000"
  shows "length (setUTF8 x) = 2 \<and> fst (getUTF8 True (setUTF8 x) 0) = 0"
  using utf8_broken_length [OF assms] by simp

lemma utf8_broken_witness: "length (setUTF8 0x905) = 2 \<and> fst (getUTF8 True (setUTF8 0x905) 0) = 0"
  by (rule utf8_broken) simp_all

end
