(* ===== verification/Tsys_Codec.thy ===== *)
theory Tsys_Codec
  imports Tmess_Utf8
begin

text \<open>
  The encodings of texts, \<open>TSYS::strEncode\<close> and \<open>TSYS::strDecode\<close> of \<^verbatim>\<open>src/src/tsys.cpp\<close>, one
  definition for each of the codes, and that decoding gives back what was encoded.
\<close>

datatype str_code = PathEl | HttpURL | Html | JavaSc | SQL | Custom | Base64 | FormatPrint | OscdID |
  BinCode | Reverse | ShieldSymb | ShieldBin | ToLower | Limit

section \<open>Printing of bytes\<close>

definition hexU :: "nat \<Rightarrow> char" where
  "hexU n = char_of (if n < 10 then n + 48 else n + 55)"

text \<open>\<open>%02X\<close> and \<open>%03o\<close> of a byte.\<close>

definition print_02X :: "char \<Rightarrow> string" where
  "print_02X c = [hexU (code c div 16), hexU (code c mod 16)]"

definition print_03o :: "char \<Rightarrow> string" where
  "print_03o c = [digit_chr (code c div 64), digit_chr (code c div 8 mod 8), digit_chr (code c mod 8)]"

section \<open>Encoding\<close>

definition path_sym :: "char \<Rightarrow> string" where
  "path_sym c = (if c = CHR ''/'' then ''%2f'' else if c = CHR ''%'' then ''%25'' else [c])"

definition http_sym :: "char \<Rightarrow> string" where
  "http_sym c = (if c = CHR ''%'' then ''%25'' else if c = CHR '' '' then ''%20''
     else if c = CHR 0x09 then ''%09'' else if byte c AND 0x80 \<noteq> 0 then CHR ''%'' # print_02X c else [c])"

definition html_sym :: "char \<Rightarrow> string" where
  "html_sym c = (if c = CHR ''>'' then ''&gt;'' else if c = CHR ''<'' then ''&lt;''
     else if c = CHR 0x22 then ''&quot;'' else if c = CHR ''&'' then ''&amp;''
     else if c = CHR 0x27 then ''&apos;'' else [c])"

definition java_sym :: "char \<Rightarrow> string" where
  "java_sym c = (if c = CHR 0x0A then [CHR 0x5C, CHR ''n''] else [c])"

definition sql_sym :: "char \<Rightarrow> string" where
  "sql_sym c = (if c = CHR 0x27 \<or> c = CHR 0x22 \<or> c = CHR 0x60 \<or> c = CHR 0x5C then [CHR 0x5C, c] else [c])"

text \<open>The doubling: each place of \<open>opt\<close> that holds the symbol adds one of it.\<close>

definition sql_double :: "string \<Rightarrow> char \<Rightarrow> string" where
  "sql_double opt c = foldl (\<lambda>acc q. if c = q then acc @ [q] else acc) [c] opt"

definition custom_sym :: "string \<Rightarrow> char \<Rightarrow> string" where
  "custom_sym opt c = (if c \<in> set opt then CHR ''%'' # print_02X c else [c])"

definition base64alph :: string where
  "base64alph = ''ABCDEFGHIJKLMNOPQRSTUVWXYZabcdefghijklmnopqrstuvwxyz0123456789+/''"

definition alph :: "u8 \<Rightarrow> char" where
  "alph w = base64alph ! unat w"

definition b64_sep :: "string \<Rightarrow> nat \<Rightarrow> string" where
  "b64_sep opt iSz = (if iSz \<noteq> 0 \<and> iSz mod 57 = 0 \<and> opt \<noteq> [] then opt else [])"

fun b64_enc :: "string \<Rightarrow> nat \<Rightarrow> string \<Rightarrow> string" where
  "b64_enc opt iSz [] = []"
| "b64_enc opt iSz [a] =
     b64_sep opt iSz @ [alph (drop_bit 2 (byte a)), alph (push_bit 4 (byte a AND 0x03))] @ ''==''"
| "b64_enc opt iSz [a, b] =
     b64_sep opt iSz @ [alph (drop_bit 2 (byte a)),
       alph (push_bit 4 (byte a AND 0x03) OR drop_bit 4 (byte b)), alph (push_bit 2 (byte b AND 0x0F))] @ ''=''"
| "b64_enc opt iSz (a # b # c # cs) =
     b64_sep opt iSz @ [alph (drop_bit 2 (byte a)),
       alph (push_bit 4 (byte a AND 0x03) OR drop_bit 4 (byte b)),
       alph (push_bit 2 (byte b AND 0x0F) OR drop_bit 6 (byte c)), alph (byte c AND 0x3F)] @
     b64_enc opt (iSz + 3) cs"

definition format_sym :: "char \<Rightarrow> string" where
  "format_sym c = (if c = CHR ''%'' then ''%%'' else [c])"

definition oscd_bad :: string where
  "oscd_bad = '' /&()[]!~@%^-+=*{}:;<>?.,'' @ [CHR 0x5C, CHR 0x60, CHR 0x22, CHR 0x27]"

definition oscd_sym :: "char \<Rightarrow> string" where
  "oscd_sym c = (if c \<in> set oscd_bad then ''_'' else [c])"

text \<open>The text of hexadecimal bytes to the bytes; other symbols are left out.\<close>

definition hex_chr :: "string \<Rightarrow> char" where
  "hex_chr s = chr (word_of_int (strtol 16 s))"

fun bin_enc :: "string \<Rightarrow> string" where
  "bin_enc [] = []"
| "bin_enc [c] = (if isxdigit c then [hex_chr [c]] else [])"
| "bin_enc (c # d # cs) = (if isxdigit c then hex_chr [c, d] # bin_enc cs else bin_enc (d # cs))"

definition shield_sym :: "string \<Rightarrow> char \<Rightarrow> string" where
  "shield_sym optW c =
     (if c \<notin> set optW then [c]
      else if c = CHR 0x08 then [CHR 0x5C, CHR ''b''] else if c = CHR 0x0C then [CHR 0x5C, CHR ''f'']
      else if c = CHR 0x0A then [CHR 0x5C, CHR ''n''] else if c = CHR 0x0D then [CHR 0x5C, CHR ''r'']
      else if c = CHR 0x09 then [CHR 0x5C, CHR ''t'']
      else if code c \<le> 7 \<or> code c = 0x0B \<or> 0x0E \<le> code c \<and> code c \<le> 0x1F then CHR 0x5C # print_03o c
      else [CHR 0x5C, c])"

definition shield_bin_sym :: "char \<Rightarrow> string" where
  "shield_bin_sym c =
     (if code c \<le> 8 \<or> 0x0B \<le> code c \<and> code c \<le> 0x0C \<or> 0x0E \<le> code c \<and> code c \<le> 0x1F
      then CHR 0x5C # print_03o c else [c])"

text \<open>The limit to a number of symbols: the loop over the symbols, \<open>n\<close> of them still to come.\<close>

fun limit_off :: "bool \<Rightarrow> string \<Rightarrow> nat \<Rightarrow> int \<Rightarrow> int" where
  "limit_off isUTF8 s 0 off = off"
| "limit_off isUTF8 s (Suc n) off =
     (if off < int (length s)
      then let cL = fst (getUTF8 isUTF8 s off) in limit_off isUTF8 s n (off + (if cL \<noteq> 0 then cL else 1))
      else off)"

definition strEncode :: "bool \<Rightarrow> string \<Rightarrow> str_code \<Rightarrow> string \<Rightarrow> string" where
  "strEncode isUTF8 s tp opt = (case tp of
       PathEl \<Rightarrow> concat (map path_sym s)
     | HttpURL \<Rightarrow> concat (map http_sym s)
     | Html \<Rightarrow> concat (map html_sym s)
     | JavaSc \<Rightarrow> concat (map java_sym s)
     | SQL \<Rightarrow> if opt = [] then concat (map sql_sym s) else concat (map (sql_double opt) s)
     | Custom \<Rightarrow> concat (map (custom_sym opt) s)
     | Base64 \<Rightarrow> b64_enc opt 0 s
     | FormatPrint \<Rightarrow> concat (map format_sym s)
     | OscdID \<Rightarrow> concat (map oscd_sym s)
     | BinCode \<Rightarrow> bin_enc s
     | Reverse \<Rightarrow> rev s
     | ShieldSymb \<Rightarrow>
         concat (map (shield_sym (if opt \<noteq> [] then opt @ [CHR 0x5C] else [CHR 0x27, CHR 0x22, CHR 0x60, CHR 0x5C])) s)
     | ShieldBin \<Rightarrow> concat (map shield_bin_sym s)
     | ToLower \<Rightarrow> map tolower s
     | Limit \<Rightarrow> let lVal = s2i opt in
         if lVal = 0 then s else take (nat (limit_off isUTF8 s (nat lVal) 0)) s)"

section \<open>Decoding\<close>

definition getBase64Code :: "char \<Rightarrow> u8" where
  "getBase64Code a =
     (if 65 \<le> code a \<and> code a \<le> 90 then byte a - 65
      else if 97 \<le> code a \<and> code a \<le> 122 then 26 + byte a - 97
      else if 48 \<le> code a \<and> code a \<le> 57 then 52 + byte a - 48
      else if a = CHR ''+'' then 62 else if a = CHR ''/'' then 63 else 0)"

definition is_oct :: "char \<Rightarrow> bool" where
  "is_oct c \<longleftrightarrow> 48 \<le> code c \<and> code c \<le> 55"

text \<open>The back slash sequences; the result is the symbol and the number of symbols used of the rest.\<close>

definition unshield :: "string \<Rightarrow> char \<times> nat" where
  "unshield s =
     (let c = hd s in
      if c = CHR ''b'' then (CHR 0x08, 1) else if c = CHR ''f'' then (CHR 0x0C, 1)
      else if c = CHR ''n'' then (CHR 0x0A, 1) else if c = CHR ''r'' then (CHR 0x0D, 1)
      else if c = CHR ''t'' then (CHR 0x09, 1)
      else if c = CHR ''x'' \<or> c = CHR ''X''
      then if length s \<ge> 3 \<and> isxdigit (s ! 1) \<and> isxdigit (s ! 2) then (hex_chr [s ! 1, s ! 2], 3) else (c, 1)
      else if length s \<ge> 3 \<and> is_oct c \<and> is_oct (s ! 1) \<and> is_oct (s ! 2)
      then (chr (word_of_int (strtol 8 [c, s ! 1, s ! 2])), 3) else (c, 1))"

function shield_dec :: "string \<Rightarrow> string" where
  "shield_dec [] = []"
| "shield_dec (c # cs) =
     (if c = CHR 0x5C \<and> cs \<noteq> [] then fst (unshield cs) # shield_dec (drop (snd (unshield cs)) cs)
      else c # shield_dec cs)"
  by pat_completeness auto
termination
  by (relation "measure length") (auto simp: le_imp_less_Suc)

fun percent_dec :: "string \<Rightarrow> string" where
  "percent_dec (c # d # e # cs) =
     (if c = CHR ''%'' then hex_chr [d, e] # percent_dec cs else c # percent_dec (d # e # cs))"
| "percent_dec s = s"

definition b64_quad :: "char \<Rightarrow> char \<Rightarrow> char \<Rightarrow> char \<Rightarrow> string" where
  "b64_quad a b c d =
     (if b = CHR ''='' then []
      else let w1 = getBase64Code b; w2 = getBase64Code c
           in chr (push_bit 2 (getBase64Code a) OR drop_bit 4 w1) #
              (if c = CHR ''='' then []
               else chr (push_bit 4 w1 OR drop_bit 2 w2) #
                    (if d = CHR ''='' then [] else [chr (push_bit 6 w2 OR getBase64Code d)])))"

function b64_dec :: "string \<Rightarrow> string" where
  "b64_dec [] = []"
| "b64_dec (a # cs) =
     (if isspace a then b64_dec cs
      else (if length cs \<ge> 3 then b64_quad a (cs ! 0) (cs ! 1) (cs ! 2) else []) @ b64_dec (drop 3 cs))"
  by pat_completeness auto
termination
  by (relation "measure length") (auto simp: le_imp_less_Suc)

text \<open>The dump of bytes with a separator.\<close>

fun hex_dump :: "string \<Rightarrow> nat \<Rightarrow> string \<Rightarrow> string" where
  "hex_dump opt iSz [] = []"
| "hex_dump opt iSz (c # cs) =
     (if iSz \<noteq> 0 \<and> opt \<noteq> [] then (if iSz mod 16 \<noteq> 0 then takeWhile (\<lambda>x. x \<noteq> nul) opt else [CHR 0x0A]) else []) @
     print_02X c @ hex_dump opt (iSz + 1) cs"

text \<open>
  The dump with the offsets and the text; \<open>width\<close> is the width of the offsets, which the code
  computes by logarithms in floating point.
\<close>

definition print_0x :: "nat \<Rightarrow> nat \<Rightarrow> string" where
  "print_0x width n = replicate (width - length (nat_str 16 n)) (CHR ''0'') @ nat_str 16 n"

function text_dump :: "nat \<Rightarrow> string \<Rightarrow> nat \<Rightarrow> string \<Rightarrow> string" where
  "text_dump width s iSz txt =
     (if iSz < length s \<or> iSz mod 16 \<noteq> 0
      then let pre = (if iSz mod 16 = 0 then print_0x width iSz @ '': '' else []);
               buf = (if iSz < length s then print_02X (s ! iSz) else ''  '');
               txt' = (if iSz < length s then txt @ [if isprint (s ! iSz) then s ! iSz else CHR ''.''] else txt)
           in if (iSz + 1) mod 16 \<noteq> 0 then pre @ buf @ '' '' @ text_dump width s (iSz + 1) txt'
              else pre @ buf @ ''   '' @ txt' @ (if iSz + 1 < length s then [CHR 0x0A] else []) @
                   text_dump width s (iSz + 1) []
      else [])"
  by pat_completeness auto
termination
proof (relation "measure (\<lambda>(width, s, i, txt). if i < length s then length s - i + 16 else (16 - i mod 16) mod 16)", goal_cases)
  case (2 width s iSz pre buf txt')
  then show ?case by (auto simp: mod_Suc)
next
  case (3 width s iSz pre buf txt')
  then show ?case by (auto simp: mod_Suc split: if_splits)
qed simp

definition strDecode :: "nat \<Rightarrow> string \<Rightarrow> str_code \<Rightarrow> string \<Rightarrow> string" where
  "strDecode width s tp opt = (case tp of
       ShieldSymb \<Rightarrow> shield_dec s
     | PathEl \<Rightarrow> percent_dec s
     | HttpURL \<Rightarrow> percent_dec s
     | Custom \<Rightarrow> percent_dec s
     | Base64 \<Rightarrow> b64_dec s
     | BinCode \<Rightarrow> if opt = ''<text>'' then text_dump width s 0 [] else hex_dump opt 0 s
     | _ \<Rightarrow> s)"

section \<open>Reading back printed bytes\<close>

lemma code_hexU: "n < 16 \<Longrightarrow> code (hexU n) = (if n < 10 then n + 48 else n + 55)"
  by (auto simp: hexU_def code_def)

lemma hexU_val: "n < 16 \<Longrightarrow> digit_val (hexU n) = n"
  by (auto simp: digit_val_def isdigit_def code_hexU)

lemma hexU_xdigit: "n < 16 \<Longrightarrow> isxdigit (hexU n)"
  by (auto simp: isxdigit_def isdigit_def code_hexU)

text \<open>A short text of digits, without sign and prefix.\<close>

lemma strtol_digits:
  assumes d: "\<forall>c \<in> set (a # s). digit_val c < base" and base: "2 \<le> base" "base \<le> 16" and len: "length s \<le> 2"
    and hex: "base = 16 \<Longrightarrow> length s \<le> 1"
  shows "strtol base (a # s) = int (digits_val base (a # s))"
proof -
  have ne: "c \<noteq> nul \<and> \<not> isspace c \<and> c \<noteq> CHR ''-'' \<and> c \<noteq> CHR ''+''" if "c \<in> set (a # s)" for c
  proof -
    have "digit_val c < 16" using d base that by fastforce
    then show ?thesis by (auto simp: digit_val_def isdigit_def isspace_def code_def split: if_splits)
  qed
  then have "\<forall>c \<in> set (a # s). c \<noteq> nul" by blast
  then have t: "takeWhile (\<lambda>c. c \<noteq> nul) (a # s) = a # s" by (simp only: takeWhile_eq_all_conv)
  from ne [of a] have a: "\<not> isspace a" "a \<noteq> CHR ''-''" "a \<noteq> CHR ''+''" by simp_all
  have h: "\<not> ((base = 16 \<or> base = 0) \<and> has_0x (a # s))" using hex base by (auto simp: has_0x_def)
  have bound: "digits_val base (a # s) < 16 ^ 3"
  proof -
    have *: "foldl (\<lambda>n c. n * base + digit_val c) n ds < (n + 1) * 16 ^ length ds"
      if "\<forall>c \<in> set ds. digit_val c < 16" for n ds
      using that
    proof (induction ds arbitrary: n)
      case (Cons c ds)
      then have "foldl (\<lambda>n c. n * base + digit_val c) (n * base + digit_val c) ds < (n * base + digit_val c + 1) * 16 ^ length ds" by simp
      also have "n * base + digit_val c + 1 \<le> (n + 1) * 16"
      proof -
        have "n * base \<le> n * 16" using base(2) by (rule mult_le_mono2)
        moreover have "digit_val c < 16" using Cons.prems by simp
        ultimately show ?thesis unfolding add_mult_distrib by linarith
      qed
      then have "(n * base + digit_val c + 1) * 16 ^ length ds \<le> (n + 1) * 16 * 16 ^ length ds" by (rule mult_le_mono1)
      finally show ?case by (simp add: algebra_simps)
    qed simp
    have "takeWhile (\<lambda>c. digit_val c < base) (a # s) = a # s" using d by (simp only: takeWhile_eq_all_conv)
    moreover have "\<forall>c \<in> set (a # s). digit_val c < 16" using d base by fastforce
    ultimately have "digits_val base (a # s) < (0 + 1) * 16 ^ length (a # s)"
      using * [of "a # s" 0] by (simp only: digits_val_def)
    also have "\<dots> \<le> 16 ^ 3"
    proof -
      have "length (a # s) \<le> 3" using len by simp
      then have "(16::nat) ^ length (a # s) \<le> 16 ^ 3" by (rule power_increasing) simp
      then show ?thesis by (simp only: plus_nat.add_0 nat_mult_1 One_nat_def [symmetric])
    qed
    finally show ?thesis .
  qed
  have b0: "base \<noteq> 0" using base by simp
  have "strtol base (a # s) = max (- 9223372036854775808) (min 9223372036854775807 (int (digits_val base (a # s))))"
    unfolding strtol_def Let_def t using a h b0 by auto
  then show ?thesis using bound by simp
qed

lemma strtol_two:
  assumes "digit_val a < 16" "digit_val b < 16"
  shows "strtol 16 [a, b] = int (16 * digit_val a + digit_val b)"
  using assms strtol_digits [of a "[b]" 16] by (simp add: digits_val_def mult.commute)

lemma strtol_three:
  assumes "digit_val a < 8" "digit_val b < 8" "digit_val c < 8"
  shows "strtol 8 [a, b, c] = int (64 * digit_val a + 8 * digit_val b + digit_val c)"
  using assms strtol_digits [of a "[b, c]" 8] by (simp add: digits_val_def algebra_simps)

lemma chr_code: "chr (word_of_nat (code c)) = c"
  by (metis byte_def chr_byte)

lemma chr_numeral: "chr 0x2F = CHR ''/''" "chr 0x25 = CHR ''%''" "chr 0x20 = CHR '' ''" "chr 9 = CHR 0x09"
  by code_simp+

lemma hex_chr_print: "hex_chr (print_02X c) = c"
proof -
  have "code c div 16 < 16" using code_less [of c] by (simp add: div_less_iff_less_mult)
  then show ?thesis
    by (simp add: hex_chr_def print_02X_def strtol_two hexU_val mult_div_mod_eq chr_code del: of_nat_add of_nat_mult)
qed

lemma percent_dec_print: "percent_dec (CHR ''%'' # print_02X c @ s) = c # percent_dec s"
  using hex_chr_print [of c] by (simp add: print_02X_def)

lemma percent_dec_other: "c \<noteq> CHR ''%'' \<Longrightarrow> percent_dec (c # s) = c # percent_dec s"
proof -
  assume c: "c \<noteq> CHR ''%''"
  show ?thesis
  proof (cases s)
    case (Cons d s')
    with c show ?thesis by (cases s') auto
  qed simp
qed

lemma percent_dec_concat:
  assumes "\<And>c s. percent_dec (f c @ s) = c # percent_dec s"
  shows "percent_dec (concat (map f s)) = s"
  by (induction s) (simp_all add: assms)

lemma percent_lower: "percent_dec (''%2f'' @ s) = CHR ''/'' # percent_dec s"
  "percent_dec (''%25'' @ s) = CHR ''%'' # percent_dec s" "percent_dec (''%20'' @ s) = CHR '' '' # percent_dec s"
  "percent_dec (''%09'' @ s) = CHR 0x09 # percent_dec s"
  by (simp_all add: hex_chr_def strtol_two digit_val_def isdigit_def code_def chr_numeral)

lemma path_dec: "percent_dec (path_sym c @ s) = c # percent_dec s"
  using percent_lower [of s] percent_dec_other [of c s] by (simp add: path_sym_def)

lemma http_dec: "percent_dec (http_sym c @ s) = c # percent_dec s"
  using percent_lower [of s] percent_dec_other [of c s] percent_dec_print [of c s] by (simp add: http_sym_def)

lemma custom_dec: "CHR ''%'' \<in> set opt \<or> c \<noteq> CHR ''%'' \<Longrightarrow> percent_dec (custom_sym opt c @ s) = c # percent_dec s"
  using percent_dec_other [of c s] percent_dec_print [of c s] by (auto simp: custom_sym_def)

lemma custom_dec_all: "CHR ''%'' \<in> set opt \<or> CHR ''%'' \<notin> set s \<Longrightarrow> percent_dec (concat (map (custom_sym opt) s)) = s"
  by (induction s) (auto simp: custom_dec)

section \<open>base64\<close>

lemma alph_table: "list_all (\<lambda>n. getBase64Code (base64alph ! n) = word_of_nat n \<and> base64alph ! n \<noteq> CHR ''='' \<and>
    \<not> isspace (base64alph ! n)) [0..<64]"
  by code_simp

lemma alph_code: "unat w < 64 \<Longrightarrow> getBase64Code (alph w) = w \<and> alph w \<noteq> CHR ''='' \<and> \<not> isspace (alph w)"
  using alph_table by (auto simp: list_all_iff alph_def)

lemma u8_bits_bound: "\<not> bit (w::u8) 6 \<Longrightarrow> \<not> bit w 7 \<Longrightarrow> unat w < 64"
proof -
  assume a: "\<not> bit w 6" "\<not> bit w 7"
  have "take_bit 6 w = w" by (rule word8_eqI) (simp add: bit_simps a)
  then have "take_bit 6 (unat w) = unat w" by (metis unsigned_take_bit_eq)
  then show ?thesis by (simp add: take_bit_nat_eq_self_iff)
qed

text \<open>The groups of six bits of three bytes.\<close>

definition six1 :: "u8 \<Rightarrow> u8" where "six1 a = drop_bit 2 a"
definition six2 :: "u8 \<Rightarrow> u8 \<Rightarrow> u8" where "six2 a b = push_bit 4 (a AND 0x03) OR drop_bit 4 b"
definition six3 :: "u8 \<Rightarrow> u8 \<Rightarrow> u8" where "six3 b c = push_bit 2 (b AND 0x0F) OR drop_bit 6 c"
definition six4 :: "u8 \<Rightarrow> u8" where "six4 c = c AND 0x3F"

lemma six_last: "push_bit 4 (a AND 0x03) = six2 a 0" "push_bit 2 (b AND 0x0F) = six3 b 0"
  by (simp_all add: six2_def six3_def)

declare b64_enc.simps(2-4) [simp del]

lemmas b64_enc_six = b64_enc.simps(2-4) [folded six1_def six2_def six3_def six4_def, unfolded six_last]

lemma sextets [simp]: "unat (six1 a) < 64" "unat (six2 a b) < 64" "unat (six3 b c) < 64" "unat (six4 c) < 64"
  by (rule u8_bits_bound, simp_all add: bit_simps six1_def six2_def six3_def six4_def)+

lemma sextets_join [simp]:
  "push_bit 2 (six1 a) OR drop_bit 4 (six2 a b) = a"
  "push_bit 4 (six2 a b) OR drop_bit 2 (six3 b c) = b"
  "push_bit 6 (six3 b c) OR six4 c = c"
  by (rule word8_eqI, simp add: bit_simps six1_def six2_def six3_def six4_def,
      (simp add: numeral_2_eq_2 numeral_3_eq_3)?)+

lemma b64_dec_spaces: "list_all isspace ws \<Longrightarrow> b64_dec (ws @ s) = b64_dec s"
  by (induction ws) auto

lemma b64_sep_spaces: "list_all isspace opt \<Longrightarrow> list_all isspace (b64_sep opt i)"
  by (simp add: b64_sep_def)

lemma b64_roundtrip: "list_all isspace opt \<Longrightarrow> b64_dec (b64_enc opt i s) = s"
  by (induction opt i s rule: b64_enc.induct)
    (simp_all add: b64_enc_six b64_dec_spaces b64_sep_spaces b64_quad_def alph_code Let_def)

section \<open>Hexadecimal bytes\<close>

lemma bin_enc_skip: "\<forall>c \<in> set ws. \<not> isxdigit c \<Longrightarrow> bin_enc (ws @ s) = bin_enc s"
proof (induction ws)
  case (Cons c ws)
  have "bin_enc (c # t) = bin_enc t" if "\<not> isxdigit c" for t using that by (cases t) auto
  with Cons show ?case by simp
qed simp

lemma bin_enc_byte: "bin_enc (print_02X c @ s) = c # bin_enc s"
proof -
  have "isxdigit (hexU (code c div 16))" by (rule hexU_xdigit) (use code_less [of c] in \<open>simp add: div_less_iff_less_mult\<close>)
  with hex_chr_print [of c] show ?thesis by (simp add: print_02X_def)
qed

lemma bin_roundtrip: "\<forall>c \<in> set opt. \<not> isxdigit c \<Longrightarrow> bin_enc (hex_dump opt i s) = s"
proof (induction opt i s rule: hex_dump.induct)
  case (2 opt i c cs)
  have "\<forall>c \<in> set (if i \<noteq> 0 \<and> opt \<noteq> [] then (if i mod 16 \<noteq> 0 then takeWhile (\<lambda>x. x \<noteq> nul) opt else [CHR 0x0A]) else []). \<not> isxdigit c"
    using 2(2) by (auto dest: set_takeWhileD simp: isxdigit_def isdigit_def code_def)
  with 2 show ?case by (simp only: hex_dump.simps bin_enc_skip bin_enc_byte)
qed simp

section \<open>The back slash\<close>

lemma unshield_quote: "c \<in> {CHR 0x27, CHR 0x22, CHR 0x60, CHR 0x5C} \<Longrightarrow> unshield (c # s) = (c, 1)"
  by (elim insertE emptyE) (simp_all add: unshield_def is_oct_def code_def)

lemma shield_sym_quote:
  "shield_sym [CHR 0x27, CHR 0x22, CHR 0x60, CHR 0x5C] c =
     (if c \<in> {CHR 0x27, CHR 0x22, CHR 0x60, CHR 0x5C} then [CHR 0x5C, c] else [c])"
proof (cases "c \<in> {CHR 0x27, CHR 0x22, CHR 0x60, CHR 0x5C}")
  case True
  then show ?thesis by (elim insertE emptyE) (simp_all add: shield_sym_def code_def)
next
  case False
  then show ?thesis by (simp add: shield_sym_def)
qed

lemma shield_dec_sym: "shield_dec (shield_sym [CHR 0x27, CHR 0x22, CHR 0x60, CHR 0x5C] c @ s) = c # shield_dec s"
  using unshield_quote [of c s] by (auto simp: shield_sym_quote)

section \<open>The properties\<close>

lemma strEncode_path: "strDecode w (strEncode u s PathEl opt) PathEl opt' = s"
  by (simp add: strEncode_def strDecode_def percent_dec_concat path_dec)

lemma path_sym_set: "CHR ''/'' \<notin> set (concat (map path_sym s))"
  by (auto simp: path_sym_def split: if_splits)

text \<open>C14. A path element is coded without any path separator and decoding gives it back; the coding of
  URLs is undone by its decoding as well, and so is the coding of chosen symbols when the percent sign is one
  of them or does not occur in the text.\<close>

theorem percent_roundtrip:
  "strDecode w (strEncode u s PathEl opt) PathEl opt' = s \<and> CHR ''/'' \<notin> set (strEncode u s PathEl opt) \<and>
   strDecode w (strEncode u s HttpURL opt) HttpURL opt' = s \<and>
   (CHR ''%'' \<in> set opt \<or> CHR ''%'' \<notin> set s \<longrightarrow> strDecode w (strEncode u s Custom opt) Custom opt' = s)"
proof (intro conjI impI)
  show "strDecode w (strEncode u s PathEl opt) PathEl opt' = s" by (rule strEncode_path)
  show "CHR ''/'' \<notin> set (strEncode u s PathEl opt)" using path_sym_set by (simp add: strEncode_def)
  show "strDecode w (strEncode u s HttpURL opt) HttpURL opt' = s"
    by (simp add: strEncode_def strDecode_def percent_dec_concat http_dec)
  assume "CHR ''%'' \<in> set opt \<or> CHR ''%'' \<notin> set s"
  then show "strDecode w (strEncode u s Custom opt) Custom opt' = s"
    by (simp add: strEncode_def strDecode_def custom_dec_all)
qed

lemma percent_roundtrip_witness:
  "strDecode 2 (strEncode True ''a/%b'' PathEl []) PathEl [] = ''a/%b'' \<and>
   strDecode 2 (strEncode True ''k=v%'' Custom ''%='') Custom [] = ''k=v%'' \<and>
   strDecode 2 (strEncode True ''k:v'' Custom '':'') Custom [] = ''k:v''"
  using percent_roundtrip [of 2 True "''a/%b''" "[]" "[]"] percent_roundtrip [of 2 True "''k=v%''" "''%=''" "[]"]
    percent_roundtrip [of 2 True "''k:v''" "'':''" "[]"] by simp

text \<open>Without the percent sign among the chosen symbols another one in the text is taken for a code.\<close>

lemma custom_percent_lost: "strDecode 2 (strEncode True ''%41'' Custom [CHR '':'', CHR 0x0A]) Custom [] = ''A''"
  by code_simp

text \<open>C15. Decoding base64 gives back any bytes that were encoded, with any separator of white space.\<close>

theorem base64_roundtrip:
  assumes "list_all isspace opt"
  shows "strDecode w (strEncode u s Base64 opt) Base64 opt' = s"
  using assms by (simp add: strEncode_def strDecode_def b64_roundtrip)

lemma base64_roundtrip_witness: "strDecode 2 (strEncode True ''some bytes'' Base64 [CHR 0x0A]) Base64 [] = ''some bytes''"
  by (rule base64_roundtrip) (simp add: isspace_def code_def)

text \<open>C16. Reading a dump of bytes gives back the bytes, for each separator without hexadecimal digits.\<close>

theorem bin_dump_roundtrip:
  assumes "\<forall>c \<in> set opt. \<not> isxdigit c" "opt \<noteq> ''<text>''"
  shows "strEncode u (strDecode w s BinCode opt) BinCode opt' = s"
  using assms by (simp add: strEncode_def strDecode_def bin_roundtrip)

lemma bin_dump_roundtrip_witness: "strEncode True (strDecode 2 ''OpenSCADA'' BinCode '' '') BinCode [] = ''OpenSCADA''"
  by (rule bin_dump_roundtrip) (simp_all add: isxdigit_def isdigit_def code_def)

text \<open>Removing the back slashes gives back a text shielded with the default symbols.\<close>

lemma shield_roundtrip: "strDecode w (strEncode u s ShieldSymb []) ShieldSymb opt' = s"
  by (induction s) (simp_all add: strEncode_def strDecode_def shield_dec_sym)

end
