(* ===== verification/Tsys_Path.thy ===== *)
theory Tsys_Path
  imports Tsys_Codec
begin

text \<open>
  The parsing of texts and of node addresses of \<^verbatim>\<open>src/src/tsys.cpp\<close>: \<open>strTrim\<close>, \<open>strLabEnum\<close>,
  \<open>strSepParse\<close>, \<open>strParse\<close>, \<open>strParseEnd\<close>, \<open>strLine\<close>, \<open>pathLev\<close>, \<open>pathLevEnd\<close>, \<open>path2sepstr\<close> and
  \<open>sepstr2path\<close>, and their use in \<open>TMess::setSelDebCats\<close>.  An offset argument is \<open>None\<close> where the
  pointer is null; the result has the new offset.
\<close>

section \<open>Trimming and enumeration\<close>

fun trim_loop :: "string \<Rightarrow> string \<Rightarrow> int \<Rightarrow> int \<Rightarrow> int \<Rightarrow> int \<times> int" where
  "trim_loop cfg [] iS beg en = (beg, en)"
| "trim_loop cfg (c # cs) iS beg en =
     (if c \<in> set cfg then trim_loop cfg cs (iS + 1) beg en
      else trim_loop cfg cs (iS + 1) (if beg < 0 then iS else beg) iS)"

definition strTrim :: "string \<Rightarrow> string \<Rightarrow> string" where
  "strTrim val cfg =
     (case trim_loop cfg val 0 (-1) (-1) of (beg, en) \<Rightarrow>
        if beg \<ge> 0 then take (nat (en - beg + 1)) (drop (nat beg) val) else [])"

text \<open>
  The loop of \<open>strLabEnum\<close> downwards from the last symbol; \<open>i_c\<close> is the count of symbols not yet
  seen.  \<open>strncasecmp(p,"0x",2)\<close> sees the zero byte at the end of the text.
\<close>

definition is_0x :: "string \<Rightarrow> nat \<Rightarrow> bool" where
  "is_0x s p \<longleftrightarrow> p + 1 < length s \<and> s ! p = CHR ''0'' \<and> tolower (s ! (p + 1)) = CHR ''x''"

fun lab_loop :: "string \<Rightarrow> nat \<Rightarrow> nat \<Rightarrow> nat \<Rightarrow> bool \<Rightarrow> nat \<times> nat" where
  "lab_loop base 0 numbDig numbXDig noDig = (numbDig, numbXDig)"
| "lab_loop base (Suc i_c) numbDig numbXDig noDig =
     (let c = base ! i_c;
          dig = (\<not> noDig \<and> isdigit c);
          numbDig' = (if dig then i_c else numbDig);
          noDig' = (if dig then noDig else True)
      in if \<not> (isxdigit c \<or> i_c \<noteq> 0 \<and> is_0x base (i_c - 1)) then (numbDig', numbXDig)
         else if \<not> isxdigit c then (numbDig', i_c - 1)
         else lab_loop base i_c numbDig' numbXDig noDig')"

definition strLabEnum :: "string \<Rightarrow> string" where
  "strLabEnum base =
     (case lab_loop base (length base) (length base) (length base) False of (numbDig, numbXDig) \<Rightarrow>
        if numbXDig < numbDig \<and> length base - numbXDig > 2 \<and> is_0x base numbXDig
        then take numbXDig base @ ''0x'' @ i2s (strtol 16 (drop numbXDig base) + 1) Hex
        else if length base - numbDig > 1 \<and> base ! numbDig = CHR ''0''
        then take numbDig base @ ''0'' @ i2s (strtol 8 (drop numbDig base) + 1) Oct
        else take numbDig base @ i2s (strtol 0 (drop numbDig base) + 1) Dec)"

section \<open>Parsing by a separator\<close>

definition size_of :: "string \<Rightarrow> int" where
  "size_of s = int (length s)"

function sep_loop :: "string \<Rightarrow> int \<Rightarrow> char \<Rightarrow> int \<Rightarrow> int \<Rightarrow> (string \<times> int) res" where
  "sep_loop path level sep an_dir t_lev =
     (case sfind path [sep] an_dir of
        None \<Rightarrow> if t_lev = level then rbind (ssubstr path an_dir (-1)) (\<lambda>r. Inr (r, size_of path))
                else Inr ([], size_of path)
      | Some t_dir \<Rightarrow>
          if t_lev = level then rbind (ssubstr path an_dir (t_dir - an_dir)) (\<lambda>r. Inr (r, t_dir + 1))
          else sep_loop path level sep (t_dir + 1) (t_lev + 1))"
  by pat_completeness auto
termination
  by (relation "measure (\<lambda>(path, level, sep, an_dir, t_lev). nat (int (length path) - an_dir))")
    (auto dest: sfind_range)

definition strSepParse :: "string \<Rightarrow> int \<Rightarrow> char \<Rightarrow> int option \<Rightarrow> (string \<times> int option) res" where
  "strSepParse path level sep off =
     (let an_dir = (case off of Some i \<Rightarrow> i | None \<Rightarrow> 0)
      in if an_dir \<ge> size_of path then Inr ([], off)
         else rbind (sep_loop path level sep an_dir 0) (\<lambda>(r, e). Inr (r, map_option (\<lambda>_. e) off)))"

text \<open>The first position from \<open>i\<close> on that has another symbol.\<close>

definition skip_sym :: "string \<Rightarrow> char \<Rightarrow> int \<Rightarrow> int" where
  "skip_sym s c i = (if 0 \<le> i \<and> i < size_of s then i + int (length (takeWhile (\<lambda>x. x = c) (drop (nat i) s))) else i)"

text \<open>The last position up to \<open>i\<close> that has another symbol, or -1.\<close>

definition skip_sym_back :: "string \<Rightarrow> char \<Rightarrow> int \<Rightarrow> int" where
  "skip_sym_back s c i =
     (if 0 \<le> i \<and> i < size_of s then i - int (length (takeWhile (\<lambda>x. x = c) (rev (take (nat i + 1) s)))) else i)"

lemma skip_sym_ge: "i \<le> skip_sym s c i"
  by (simp add: skip_sym_def)

function parse_loop :: "string \<Rightarrow> int \<Rightarrow> string \<Rightarrow> bool \<Rightarrow> int \<Rightarrow> int \<Rightarrow> (string \<times> int) res" where
  "parse_loop path level sep merge an_dir t_lev =
     (case sfind path sep an_dir of
        None \<Rightarrow> if t_lev = level then rbind (ssubstr path an_dir (-1)) (\<lambda>r. Inr (r, size_of path))
                else Inr ([], size_of path)
      | Some t_dir \<Rightarrow>
          let n0 = t_dir + size_of sep;
              n1 = (if merge \<and> length sep = 1 then skip_sym path (hd sep) n0 else n0)
          in if t_lev = level then rbind (ssubstr path an_dir (t_dir - an_dir)) (\<lambda>r. Inr (r, n1))
             else if sep = [] then Inl Diverge
             else parse_loop path level sep merge n1 (t_lev + 1))"
  by pat_completeness auto
termination
proof (relation "measure (\<lambda>(path, level, sep, merge, an_dir, t_lev). nat (int (length path) - an_dir))", goal_cases)
  case (2 path level sep merge an_dir t_lev t_dir n0 n1)
  have "1 \<le> int (length sep)" using 2(5) by (cases sep) auto
  moreover have "n0 \<le> n1" using 2(3) skip_sym_ge by simp
  ultimately have "t_dir < n1" "an_dir \<le> t_dir" "t_dir < int (length path)"
    using sfind_range [OF 2(1)] 2(2) unfolding size_of_def by linarith+
  then show ?case by simp
qed simp

definition strParse :: "string \<Rightarrow> int \<Rightarrow> string \<Rightarrow> int option \<Rightarrow> bool \<Rightarrow> (string \<times> int option) res" where
  "strParse path level sep off merge =
     (let an_dir = max 0 (case off of Some i \<Rightarrow> i | None \<Rightarrow> 0)
      in if an_dir \<ge> size_of path \<or> sep = [] then Inr ([], off)
         else rbind (parse_loop path level sep merge an_dir 0) (\<lambda>(r, e). Inr (r, map_option (\<lambda>_. e) off)))"

text \<open>
  The parsing from the end.  The position can become negative, from which \<open>rfind\<close> starts at the end
  again: for a negative level the loop then never ends, hence the fuel.
\<close>

fun parse_end_loop :: "nat \<Rightarrow> string \<Rightarrow> int \<Rightarrow> string \<Rightarrow> bool \<Rightarrow> int \<Rightarrow> int \<Rightarrow> (string \<times> int) res" where
  "parse_end_loop 0 path level sep merge an_dir t_lev = Inl Diverge"
| "parse_end_loop (Suc k) path level sep merge an_dir t_lev =
     (case srfind path sep an_dir of
        None \<Rightarrow> if t_lev = level then rbind (ssubstr path 0 (an_dir + 1)) (\<lambda>r. Inr (r, -1)) else Inr ([], -1)
      | Some t_dir \<Rightarrow>
          let n0 = t_dir - size_of sep;
              n1 = (if merge \<and> length sep = 1 then skip_sym_back path (hd sep) n0 else n0)
          in if t_lev = level
             then rbind (ssubstr path (t_dir + size_of sep) (an_dir - (t_dir + size_of sep - 1))) (\<lambda>r. Inr (r, n1))
             else parse_end_loop k path level sep merge n1 (t_lev + 1))"

definition strParseEnd :: "string \<Rightarrow> int \<Rightarrow> string \<Rightarrow> int option \<Rightarrow> bool \<Rightarrow> (string \<times> int option) res" where
  "strParseEnd path level sep off merge =
     (let an_dir = min (size_of path) (case off of Some i \<Rightarrow> i | None \<Rightarrow> size_of path - 1)
      in if an_dir < 0 \<or> sep = [] \<or> path = [] then Inr ([], off)
         else rbind (parse_end_loop (nat level + length path + 2) path level sep merge an_dir 0)
                (\<lambda>(r, e). Inr (r, map_option (\<lambda>_. e) off)))"

section \<open>Lines\<close>

definition is_eol :: "char \<Rightarrow> bool" where
  "is_eol c \<longleftrightarrow> c = CHR 0x0D \<or> c = CHR 0x0A"

function line_loop :: "string \<Rightarrow> int \<Rightarrow> nat \<Rightarrow> int \<Rightarrow> string \<times> nat" where
  "line_loop s level an_dir t_lev =
     (let t_dir = an_dir + length (takeWhile (\<lambda>c. \<not> is_eol c) (drop an_dir s))
      in if t_dir \<ge> length s then (if t_lev = level then drop an_dir s else [], length s)
         else let edLn = (if s ! t_dir = CHR 0x0D \<and> t_dir + 1 < length s \<and> s ! (t_dir + 1) = CHR 0x0A then 2 else 1)
              in if t_lev = level then (take (t_dir - an_dir) (drop an_dir s), t_dir + edLn)
                 else line_loop s level (t_dir + edLn) (t_lev + 1))"
  by pat_completeness auto
termination
  by (relation "measure (\<lambda>(s, level, an_dir, t_lev). length s - an_dir)") auto

definition strLine :: "string \<Rightarrow> int \<Rightarrow> int option \<Rightarrow> string \<times> int option" where
  "strLine s level off =
     (let an_dir = max 0 (case off of Some i \<Rightarrow> i | None \<Rightarrow> 0)
      in if an_dir \<ge> size_of s then ([], off)
         else case line_loop s level (nat an_dir) 0 of (r, e) \<Rightarrow> (r, map_option (\<lambda>_. int e) off))"

section \<open>Paths\<close>

text \<open>The loop of \<open>pathLev\<close>; \<open>offp\<close> is whether the pointer \<open>off\<close> is given.\<close>

function path_loop :: "string \<Rightarrow> int \<Rightarrow> bool \<Rightarrow> int \<Rightarrow> int \<Rightarrow> (string \<times> int) res" where
  "path_loop path level offp an_dir t_lev =
     (case sfind path ''/'' an_dir of
        None \<Rightarrow> if t_lev = level then rbind (ssubstr path an_dir (-1)) (\<lambda>r. Inr (r, size_of path))
                else Inr ([], size_of path)
      | Some t_dir \<Rightarrow>
          if t_lev = level
          then rbind (ssubstr path an_dir (t_dir - an_dir))
                 (\<lambda>r. Inr (r, if offp then skip_sym path (CHR ''/'') t_dir else t_dir))
          else path_loop path level offp (skip_sym path (CHR ''/'') t_dir) (t_lev + 1))"
  by pat_completeness auto

lemma sfind_char_at: "sfind s [c] i = Some t \<Longrightarrow> i \<le> t \<and> 0 \<le> i \<and> t < int (length s) \<and> s ! nat t = c"
  by (auto simp: sfind_def take_Suc hd_drop_conv_nth dest!: find_upt_Some split: if_splits)

lemma skip_sym_gt: "0 \<le> i \<Longrightarrow> i < int (length s) \<Longrightarrow> s ! nat i = c \<Longrightarrow> i < skip_sym s c i"
  by (subst skip_sym_def) (auto simp: size_of_def simp flip: Cons_nth_drop_Suc)

termination path_loop
proof (relation "measure (\<lambda>(path, level, offp, an_dir, t_lev). nat (int (length path) - an_dir))", goal_cases)
  case (2 path level offp an_dir t_lev t_dir)
  from sfind_char_at [OF 2(1)] skip_sym_gt [of t_dir path] show ?case by auto
qed simp

definition pathLev :: "string \<Rightarrow> int \<Rightarrow> bool \<Rightarrow> int option \<Rightarrow> int option \<Rightarrow> (string \<times> int option \<times> int option) res" where
  "pathLev path level decode offCmtbl off =
     (let a0 = max 0 (case off of Some i \<Rightarrow> i | None \<Rightarrow> (case offCmtbl of Some i \<Rightarrow> i | None \<Rightarrow> 0));
          an_dir = skip_sym path (CHR ''/'') a0
      in if an_dir \<ge> size_of path then Inr ([], offCmtbl, off)
         else rbind (path_loop path level (off \<noteq> None) an_dir 0) (\<lambda>(rezTk, e).
           Inr (if decode \<and> rezTk \<noteq> [] then percent_dec rezTk else rezTk,
                if off \<noteq> None then offCmtbl else map_option (\<lambda>_. e) offCmtbl, map_option (\<lambda>_. e) off)))"

fun path_end_loop :: "nat \<Rightarrow> string \<Rightarrow> int \<Rightarrow> bool \<Rightarrow> int \<Rightarrow> int \<Rightarrow> (string \<times> int) res" where
  "path_end_loop 0 path level decode an_dir t_lev = Inl Diverge"
| "path_end_loop (Suc k) path level decode an_dir t_lev =
     (case srfind path ''/'' an_dir of
        None \<Rightarrow> if t_lev = level
                then rbind (ssubstr path 0 an_dir) (\<lambda>r. Inr (if decode then percent_dec r else r, -1))
                else Inr ([], -1)
      | Some t_dir \<Rightarrow>
          let n1 = skip_sym_back path (CHR ''/'') (t_dir - 1)
          in if t_lev = level
             then rbind (ssubstr path (t_dir + 1) (an_dir - t_dir)) (\<lambda>r. Inr (if decode then percent_dec r else r, n1))
             else path_end_loop k path level decode n1 (t_lev + 1))"

definition pathLevEnd :: "string \<Rightarrow> int \<Rightarrow> bool \<Rightarrow> int option \<Rightarrow> (string \<times> int option) res" where
  "pathLevEnd path level decode off =
     (let an_dir = min (size_of path) (case off of Some i \<Rightarrow> i | None \<Rightarrow> size_of path - 1)
      in if an_dir < 0 \<or> path = [] then Inr ([], off)
         else rbind (path_end_loop (nat level + length path + 2) path level decode an_dir 0)
                (\<lambda>(r, e). Inr (r, map_option (\<lambda>_. e) off)))"

text \<open>
  The loops of \<open>path2sepstr\<close> and \<open>sepstr2path\<close>; each turn that goes on moves the offset forward, so
  the number of symbols and one are turns enough.
\<close>

fun path2sep_loop :: "nat \<Rightarrow> string \<Rightarrow> char \<Rightarrow> int \<Rightarrow> string res" where
  "path2sep_loop 0 path sep off = Inl Diverge"
| "path2sep_loop (Suc k) path sep off =
     rbind (pathLev path 0 False None (Some off)) (\<lambda>(curv, _, off').
       if curv = [] then Inr []
       else rbind (path2sep_loop k path sep (the off')) (\<lambda>r. Inr (curv @ sep # r)))"

definition path2sepstr :: "string \<Rightarrow> char \<Rightarrow> string res" where
  "path2sepstr path sep = rbind (path2sep_loop (length path + 1) path sep 0) (\<lambda>r. Inr (butlast r))"

fun sep2path_loop :: "nat \<Rightarrow> string \<Rightarrow> char \<Rightarrow> int \<Rightarrow> string res" where
  "sep2path_loop 0 s sep off = Inl Diverge"
| "sep2path_loop (Suc k) s sep off =
     rbind (strSepParse s 0 sep (Some off)) (\<lambda>(curv, off').
       if curv = [] then Inr []
       else rbind (sep2path_loop k s sep (the off')) (\<lambda>r. Inr (CHR ''/'' # curv @ r)))"

definition sepstr2path :: "string \<Rightarrow> char \<Rightarrow> string res" where
  "sepstr2path s sep = sep2path_loop (length s + 1) s sep 0"

text \<open>\<open>TMess::setSelDebCats\<close>: the list of the selected categories.\<close>

fun deb_cats_loop :: "nat \<Rightarrow> string \<Rightarrow> int \<Rightarrow> string list res" where
  "deb_cats_loop 0 vl off = Inl Diverge"
| "deb_cats_loop (Suc k) vl off =
     rbind (strParse vl 0 '';'' (Some off) False) (\<lambda>(curCat, off').
       if curCat = [] then Inr []
       else rbind (deb_cats_loop k vl (the off')) (\<lambda>r. Inr (curCat # r)))"

definition setSelDebCats :: "string \<Rightarrow> string list res" where
  "setSelDebCats vl = deb_cats_loop (length vl + 1) vl 0"

definition selDebCats :: "string list \<Rightarrow> string" where
  "selDebCats cats = concat (map (\<lambda>c. c @ '';'') cats)"

declare sep_loop.simps [simp del] parse_loop.simps [simp del] line_loop.simps [simp del] path_loop.simps [simp del]

section \<open>The tokens of a text\<close>

fun toks :: "char \<Rightarrow> string \<Rightarrow> string list" where
  "toks c [] = [[]]"
| "toks c (x # xs) = (if x = c then [] # toks c xs else (x # hd (toks c xs)) # tl (toks c xs))"

definition nth_or :: "string list \<Rightarrow> nat \<Rightarrow> string" where
  "nth_or ts n = (if n < length ts then ts ! n else [])"

lemma toks_not_Nil [simp]: "toks c s \<noteq> []"
  by (induction s) auto

lemma toks_step: "toks c s = (if c \<in> set s
   then takeWhile (\<lambda>x. x \<noteq> c) s # toks c (drop (length (takeWhile (\<lambda>x. x \<noteq> c) s) + 1) s) else [s])"
  by (induction s) auto

lemma toks_join: "\<forall>t \<in> set ts. c \<notin> set t \<Longrightarrow> ts \<noteq> [] \<Longrightarrow> toks c (concat (map (\<lambda>t. t @ [c]) ts)) = ts @ [[]]"
proof (induction ts)
  case (Cons t ts)
  have "toks c (t @ c # r) = t # toks c r" if "c \<notin> set t" for r using that by (induction t) auto
  with Cons show ?case by (cases "ts = []") auto
qed simp

lemma substr_take: "0 \<le> a \<Longrightarrow> a \<le> int (length s) \<Longrightarrow> ssubstr s a (int n) = Inr (take n (drop (nat a) s))"
  by (simp add: ssubstr_def)

lemma substr_rest: "0 \<le> a \<Longrightarrow> a \<le> int (length s) \<Longrightarrow> ssubstr s a (-1) = Inr (drop (nat a) s)"
  by (simp add: ssubstr_def)

lemma takeWhile_shorter: "c \<in> set s \<Longrightarrow> length (takeWhile (\<lambda>x. x \<noteq> c) s) < length s"
  by (induction s) auto

lemma sep_loop_toks:
  assumes "0 \<le> a" "a \<le> int (length path)" "level = t + int n"
  shows "\<exists>e. sep_loop path level sep a t = Inr (nth_or (toks sep (drop (nat a) path)) n, e)"
  using assms
proof (induction n arbitrary: a t)
  case 0
  let ?s = "drop (nat a) path"
  show ?case
  proof (cases "sep \<in> set ?s")
    case True
    then have "nth_or (toks sep ?s) 0 = takeWhile (\<lambda>x. x \<noteq> sep) ?s" by (simp add: toks_step [of sep ?s] nth_or_def)
    also have "\<dots> = take (length (takeWhile (\<lambda>x. x \<noteq> sep) ?s)) ?s" by (rule takeWhile_eq_take)
    finally show ?thesis using True 0
      by (subst sep_loop.simps) (simp add: sfind_char substr_take)
  next
    case False
    with 0 show ?thesis
      by (subst sep_loop.simps) (simp add: sfind_char substr_rest toks_step [of sep ?s] nth_or_def)
  qed
next
  case (Suc n)
  let ?s = "drop (nat a) path" let ?w = "length (takeWhile (\<lambda>x. x \<noteq> sep) ?s)"
  show ?case
  proof (cases "sep \<in> set ?s")
    case True
    then have w: "?w < length ?s" by (rule takeWhile_shorter)
    with Suc.prems have "\<exists>e. sep_loop path level sep (a + int ?w + 1) (t + 1) =
        Inr (nth_or (toks sep (drop (nat (a + int ?w + 1)) path)) n, e)"
      by (intro Suc.IH) auto
    then obtain e where e: "sep_loop path level sep (a + int ?w + 1) (t + 1) =
        Inr (nth_or (toks sep (drop (nat (a + int ?w + 1)) path)) n, e)" by blast
    have "nat (a + int ?w + 1) = ?w + 1 + nat a" using Suc.prems by simp
    then have "drop (nat (a + int ?w + 1)) path = drop (?w + 1) ?s" by (simp only: drop_drop)
    then have "nth_or (toks sep ?s) (Suc n) = nth_or (toks sep (drop (nat (a + int ?w + 1)) path)) n"
      using True by (simp only: toks_step [of sep ?s] if_True) (simp add: nth_or_def)
    moreover have "sep_loop path level sep a t = sep_loop path level sep (a + int ?w + 1) (t + 1)"
      using True Suc.prems by (subst sep_loop.simps) (simp add: sfind_char)
    ultimately show ?thesis using e by simp
  next
    case False
    with Suc.prems show ?thesis
      by (subst sep_loop.simps) (simp add: sfind_char toks_step [of sep ?s] nth_or_def)
  qed
qed

lemma strSepParse_toks: "\<exists>e. strSepParse path (int n) sep None = Inr (nth_or (toks sep path) n, e)"
proof (cases path)
  case Nil
  then show ?thesis by (auto simp: strSepParse_def size_of_def nth_or_def)
next
  case (Cons c cs)
  with sep_loop_toks [of 0 path "int n" 0 n sep] show ?thesis
    by (auto simp: strSepParse_def size_of_def)
qed

lemma trim_loop_spec:
  "0 \<le> i \<Longrightarrow> trim_loop cfg s i beg en =
    (if list_all (\<lambda>c. c \<in> set cfg) s then (beg, en)
     else (if beg < 0 then i + int (length (takeWhile (\<lambda>c. c \<in> set cfg) s)) else beg,
           i + int (length s) - 1 - int (length (takeWhile (\<lambda>c. c \<in> set cfg) (rev s)))))"
proof (induction cfg s i beg en rule: trim_loop.induct)
  case (2 cfg c cs i beg en)
  have r: "length (takeWhile (\<lambda>c. c \<in> set cfg) (rev cs @ [c])) =
     (if list_all (\<lambda>c. c \<in> set cfg) cs then length cs + (if c \<in> set cfg then 1 else 0)
      else length (takeWhile (\<lambda>c. c \<in> set cfg) (rev cs)))"
  proof (cases "list_all (\<lambda>c. c \<in> set cfg) cs")
    case True
    then have "\<forall>x \<in> set (rev cs). x \<in> set cfg" by (simp add: list_all_iff)
    then have "takeWhile (\<lambda>c. c \<in> set cfg) (rev cs @ [c]) = rev cs @ takeWhile (\<lambda>c. c \<in> set cfg) [c]"
      by (intro takeWhile_append2) simp
    with True show ?thesis by simp
  next
    case False
    then obtain x where "x \<in> set (rev cs)" "x \<notin> set cfg" by (auto simp: list_all_iff)
    then have "takeWhile (\<lambda>c. c \<in> set cfg) (rev cs @ [c]) = takeWhile (\<lambda>c. c \<in> set cfg) (rev cs)"
      by (intro takeWhile_append1) auto
    with False show ?thesis by simp
  qed
  from 2 show ?case by (auto simp: r)
qed simp

lemma strTrim_spec:
  "strTrim val cfg = rev (dropWhile (\<lambda>c. c \<in> set cfg) (rev (dropWhile (\<lambda>c. c \<in> set cfg) val)))"
proof (cases "list_all (\<lambda>c. c \<in> set cfg) val")
  case True
  then have "dropWhile (\<lambda>c. c \<in> set cfg) val = []" by (simp add: list_all_iff)
  then show ?thesis using True by (simp only: strTrim_def trim_loop_spec) simp
next
  case False
  let ?P = "\<lambda>c. c \<in> set cfg" let ?d = "dropWhile ?P val"
  let ?a = "length (takeWhile ?P val)" and ?b = "length (takeWhile ?P (rev ?d))"
  obtain x where x: "x \<in> set val" "\<not> ?P x" using False by (auto simp: list_all_iff)
  have sp: "takeWhile ?P val @ ?d = val" by simp
  have "x \<in> set ?d" using x sp by (metis Un_iff set_append set_takeWhileD)
  then have "takeWhile ?P (rev ?d @ rev (takeWhile ?P val)) = takeWhile ?P (rev ?d)"
    using x(2) by (intro takeWhile_append1) auto
  then have b: "takeWhile ?P (rev val) = takeWhile ?P (rev ?d)" by (metis sp rev_append)
  have len: "length val = ?a + length ?d" using sp by (metis length_append)
  have le: "?b \<le> length ?d" using length_takeWhile_le [of ?P "rev ?d"] by simp
  have "trim_loop cfg val 0 (-1) (-1) = (int ?a, int (length val) - 1 - int ?b)"
    using False by (simp add: trim_loop_spec b)
  moreover have "nat (int (length val) - 1 - int ?b - int ?a + 1) = length ?d - ?b" using len le by simp
  moreover have "drop ?a val = ?d" by (metis dropWhile_eq_drop)
  ultimately have "strTrim val cfg = take (length ?d - ?b) ?d" by (simp add: strTrim_def)
  also have "\<dots> = rev (drop ?b (rev ?d))" by (simp add: rev_drop)
  also have "drop ?b (rev ?d) = dropWhile ?P (rev ?d)" by (metis dropWhile_eq_drop)
  finally show ?thesis .
qed

section \<open>The elements of an address\<close>

definition segs :: "string \<Rightarrow> string list" where
  "segs s = filter (\<lambda>t. t \<noteq> []) (toks (CHR ''/'') s)"

lemma segs_Nil [simp]: "segs [] = []"
  by (simp add: segs_def)

lemma segs_slashes: "segs (dropWhile (\<lambda>x. x = CHR ''/'') s) = segs s"
  by (induction s) (auto simp: segs_def)

lemma segs_step:
  assumes "s \<noteq> []" "hd s \<noteq> CHR ''/''"
  shows "segs s = (if CHR ''/'' \<in> set s
    then takeWhile (\<lambda>x. x \<noteq> CHR ''/'') s #
         segs (dropWhile (\<lambda>x. x = CHR ''/'') (drop (length (takeWhile (\<lambda>x. x \<noteq> CHR ''/'') s)) s))
    else [s])"
proof (cases "CHR ''/'' \<in> set s")
  case True
  let ?w = "length (takeWhile (\<lambda>x. x \<noteq> CHR ''/'') s)"
  have "takeWhile (\<lambda>x. x \<noteq> CHR ''/'') s \<noteq> []" using assms by (cases s) auto
  moreover have "segs (drop ?w s) = segs (drop (?w + 1) s)"
  proof -
    have w: "?w < length s" using True by (rule takeWhile_shorter)
    then have "s ! ?w = CHR ''/''" using nth_length_takeWhile by fastforce
    then have "drop ?w s = CHR ''/'' # drop (?w + 1) s" using w by (metis Cons_nth_drop_Suc Suc_eq_plus1)
    then show ?thesis by (simp add: segs_def)
  qed
  ultimately show ?thesis using True
    by (simp add: segs_slashes) (simp add: segs_def toks_step [of _ s])
next
  case False
  with assms show ?thesis by (simp add: segs_def toks_step [of _ s])
qed

lemma drop_skip_sym: "0 \<le> i \<Longrightarrow> drop (nat (skip_sym s c i)) s = dropWhile (\<lambda>x. x = c) (drop (nat i) s)"
  by (auto simp: skip_sym_def size_of_def dropWhile_eq_drop nat_add_distrib add.commute)

lemma skip_sym_bounds: "0 \<le> i \<Longrightarrow> i \<le> int (length s) \<Longrightarrow> i \<le> skip_sym s c i \<and> skip_sym s c i \<le> int (length s)"
  using length_takeWhile_le [of "\<lambda>x. x = c" "drop (nat i) s"] by (auto simp: skip_sym_def)

lemma hd_after: "dropWhile (\<lambda>x. x = c) s \<noteq> [] \<longrightarrow> hd (dropWhile (\<lambda>x. x = c) s) \<noteq> c"
  by (induction s) auto

lemma path_loop_segs:
  assumes "0 \<le> a" "a \<le> int (length path)" "level = t + int n"
    "drop (nat a) path \<noteq> [] \<longrightarrow> hd (drop (nat a) path) \<noteq> CHR ''/''"
  shows "\<exists>e. path_loop path level offp a t = Inr (nth_or (segs (drop (nat a) path)) n, e)"
  using assms
proof (induction n arbitrary: a t)
  case 0
  let ?s = "drop (nat a) path"
  show ?case
  proof (cases "CHR ''/'' \<in> set ?s")
    case True
    then have "?s \<noteq> []" by auto
    then have "nth_or (segs ?s) 0 = takeWhile (\<lambda>x. x \<noteq> CHR ''/'') ?s" using True 0 by (simp add: segs_step [of ?s] nth_or_def)
    also have "\<dots> = take (length (takeWhile (\<lambda>x. x \<noteq> CHR ''/'') ?s)) ?s" by (rule takeWhile_eq_take)
    finally show ?thesis using True 0
      by (subst path_loop.simps) (simp add: sfind_char substr_take)
  next
    case False
    with 0 show ?thesis
      by (subst path_loop.simps) (cases "?s = []", simp_all add: sfind_char substr_rest segs_step [of ?s] nth_or_def)
  qed
next
  case (Suc n)
  let ?s = "drop (nat a) path" let ?w = "length (takeWhile (\<lambda>x. x \<noteq> CHR ''/'') ?s)"
  show ?case
  proof (cases "CHR ''/'' \<in> set ?s")
    case True
    then have w: "?w < length ?s" by (rule takeWhile_shorter)
    let ?b = "skip_sym path (CHR ''/'') (a + int ?w)"
    have "0 \<le> a + int ?w" "a + int ?w \<le> int (length path)" using w Suc.prems by auto
    from skip_sym_bounds [OF this, of "CHR ''/''"] this have b: "0 \<le> ?b" "?b \<le> int (length path)" by linarith+
    have d: "drop (nat ?b) path = dropWhile (\<lambda>x. x = CHR ''/'') (drop ?w ?s)"
      using Suc.prems by (simp add: drop_skip_sym nat_add_distrib add.commute)
    have "drop (nat ?b) path \<noteq> [] \<longrightarrow> hd (drop (nat ?b) path) \<noteq> CHR ''/''"
      unfolding d by (rule hd_after)
    then have "\<exists>e. path_loop path level offp ?b (t + 1) = Inr (nth_or (segs (drop (nat ?b) path)) n, e)"
      using Suc.prems b by (intro Suc.IH) auto
    moreover have "nth_or (segs ?s) (Suc n) = nth_or (segs (drop (nat ?b) path)) n"
    proof -
      have "?s \<noteq> []" using True by auto
      then have "segs ?s = takeWhile (\<lambda>x. x \<noteq> CHR ''/'') ?s # segs (drop (nat ?b) path)"
        unfolding d using segs_step [of ?s] True Suc.prems(4) by simp
      then show ?thesis by (simp add: nth_or_def)
    qed
    ultimately show ?thesis using True Suc.prems
      by (subst path_loop.simps) (simp add: sfind_char)
  next
    case False
    with Suc.prems show ?thesis
      by (subst path_loop.simps) (cases "?s = []", simp_all add: sfind_char segs_step [of ?s] nth_or_def)
  qed
qed

lemma pathLev_segs:
  "pathLev path (int n) decode None None =
     Inr (if decode then percent_dec (nth_or (segs path) n) else nth_or (segs path) n, None, None)"
proof -
  let ?a = "skip_sym path (CHR ''/'') 0"
  have a: "0 \<le> ?a" "?a \<le> int (length path)" using skip_sym_bounds [of 0 path] by auto
  have d: "drop (nat ?a) path = dropWhile (\<lambda>x. x = CHR ''/'') path" using drop_skip_sym [of 0 path] by simp
  then have s: "segs (drop (nat ?a) path) = segs path" by (simp add: segs_slashes)
  show ?thesis
  proof (cases "?a \<ge> size_of path")
    case True
    with a have "drop (nat ?a) path = []" by (simp add: size_of_def)
    with s have "segs path = []" by simp
    with True show ?thesis by (simp add: pathLev_def nth_or_def)
  next
    case False
    have "drop (nat ?a) path \<noteq> [] \<longrightarrow> hd (drop (nat ?a) path) \<noteq> CHR ''/''"
      unfolding d by (rule hd_after)
    with path_loop_segs [OF a, of "int n" 0 n False] s obtain e where
      "path_loop path (int n) False ?a 0 = Inr (nth_or (segs path) n, e)" by auto
    with False show ?thesis by (auto simp: pathLev_def)
  qed
qed

lemma toks_slash: "c \<notin> set e \<Longrightarrow> toks c (e @ c # s) = e # toks c s"
  by (induction e) auto

lemma toks_none: "c \<notin> set e \<Longrightarrow> toks c e = [e]"
  by (induction e) auto

lemma segs_address:
  assumes "\<forall>e \<in> set es. e \<noteq> [] \<and> CHR ''/'' \<notin> set e"
  shows "segs (concat (map (\<lambda>e. CHR ''/'' # e) es)) = es"
proof -
  have "toks (CHR ''/'') (concat (map (\<lambda>e. CHR ''/'' # e) es)) = [] # es"
    using assms
  proof (induction es)
    case (Cons e es)
    then show ?case
      by (cases es) (auto simp: toks_slash toks_none)
  qed simp
  with assms show ?thesis by (simp add: segs_def filter_id_conv)
qed

section \<open>The ends of texts\<close>

lemma srfind_none: "c \<notin> set s \<Longrightarrow> srfind s [c] i = None"
proof -
  assume c: "c \<notin> set s"
  have "take (Suc 0) (drop p s) \<noteq> [c]" for p
    using c by (metis in_set_takeD in_set_dropD list.set_intros(1))
  then show ?thesis by (simp add: srfind_def Let_def find_None_iff)
qed

lemma srfind_first:
  assumes "c \<notin> set s"
  shows "srfind (c # s) [c] i = Some 0"
proof -
  have no: "take (Suc 0) (drop p (c # s)) = [c] \<longleftrightarrow> p = 0" for p
  proof (cases p)
    case (Suc q)
    have "take (Suc 0) (drop q s) \<noteq> [c]" using assms by (metis in_set_takeD in_set_dropD list.set_intros(1))
    with Suc show ?thesis by simp
  qed simp
  have "List.find (\<lambda>p. take (Suc 0) (drop p (c # s)) = [c]) (rev [0 ..< n]) = Some 0" if "0 < n" for n
    using that by (induction n) (auto simp: no)
  then show ?thesis by (simp add: srfind_def Let_def)
qed

section \<open>The list of categories\<close>

lemma strParse_first:
  assumes "0 \<le> a" "a < int (length path)" "c \<in> set (drop (nat a) path)"
  shows "strParse path 0 [c] (Some a) False =
    Inr (takeWhile (\<lambda>x. x \<noteq> c) (drop (nat a) path),
         Some (a + int (length (takeWhile (\<lambda>x. x \<noteq> c) (drop (nat a) path))) + 1))"
proof -
  have "take (length (takeWhile (\<lambda>x. x \<noteq> c) (drop (nat a) path))) (drop (nat a) path) =
      takeWhile (\<lambda>x. x \<noteq> c) (drop (nat a) path)" by (rule takeWhile_eq_take [symmetric])
  with assms show ?thesis
    by (simp add: strParse_def size_of_def parse_loop.simps [of path 0 "[c]" False a 0] sfind_char substr_take)
qed

lemma takeWhile_upto: "c \<notin> set t \<Longrightarrow> takeWhile (\<lambda>x. x \<noteq> c) (t @ c # r) = t"
  by (induction t) auto

text \<open>The next token of a text, up to its separator or the end.\<close>

lemma strParse_token:
  assumes "0 \<le> i" "i \<le> size_of s"
  shows "strParse s 0 [c] (Some i) False = Inr (takeWhile (\<lambda>x. x \<noteq> c) (drop (nat i) s),
    Some (min (size_of s) (i + size_of (takeWhile (\<lambda>x. x \<noteq> c) (drop (nat i) s)) + 1)))"
proof (cases "i < size_of s \<and> c \<in> set (drop (nat i) s)")
  case True
  let ?t = "takeWhile (\<lambda>x. x \<noteq> c) (drop (nat i) s)"
  obtain ys zs where "drop (nat i) s = ys @ c # zs" "c \<notin> set ys" using True split_list_first by metis
  then have "length ?t < length (drop (nat i) s)" by (simp add: takeWhile_upto)
  then have "i + int (length ?t) + 1 \<le> int (length s)" using assms True by (simp add: size_of_def)
  then show ?thesis using strParse_first [of i s c] assms True by (simp add: size_of_def)
next
  case False
  then have n: "takeWhile (\<lambda>x. x \<noteq> c) (drop (nat i) s) = drop (nat i) s"
    using assms by (auto simp: takeWhile_eq_all_conv size_of_def)
  show ?thesis
  proof (cases "i < size_of s")
    case True
    with False have "sfind s [c] i = None" using assms sfind_char [of i s c] by (simp add: size_of_def)
    with True assms show ?thesis unfolding n
      by (simp add: strParse_def Let_def parse_loop.simps [of s 0 "[c]" False i 0] ssubstr_def size_of_def)
  qed (unfold n, use assms in \<open>simp add: strParse_def size_of_def\<close>)
qed

text \<open>The fuel of the loops over the tokens of a text is enough.\<close>

lemma deb_cats_loop_total:
  assumes "0 \<le> a" "a \<le> size_of vl" "size_of vl - a < int k"
  shows "\<exists>cs. deb_cats_loop k vl a = Inr cs"
  using assms
proof (induction k arbitrary: a)
  case (Suc k)
  let ?t = "takeWhile (\<lambda>x. x \<noteq> CHR '';'') (drop (nat a) vl)" and ?o = "min (size_of vl) (a + size_of (takeWhile (\<lambda>x. x \<noteq> CHR '';'') (drop (nat a) vl)) + 1)"
  note p = strParse_token [OF Suc.prems(1,2), of "CHR '';''"]
  show ?case
  proof (cases "?t = []")
    case False
    have "length ?t \<le> length (drop (nat a) vl)" by (rule length_takeWhile_le)
    then have "a < ?o" using False Suc.prems by (cases ?t) (auto simp: size_of_def)
    then have "0 \<le> ?o" "?o \<le> size_of vl" "size_of vl - ?o < int k" using Suc.prems by linarith+
    then obtain cs where "deb_cats_loop k vl ?o = Inr cs" using Suc.IH by blast
    then show ?thesis using p False by simp
  qed (use p in simp)
qed simp

lemma strSepParse_step:
  assumes "0 \<le> a"
  shows "\<exists>t e. strSepParse s 0 c (Some a) = Inr (t, Some e) \<and> (t \<noteq> [] \<longrightarrow> a < e \<and> e \<le> size_of s)"
proof (cases "a < size_of s")
  case True
  show ?thesis
  proof (cases "sfind s [c] a")
    case None
    then show ?thesis using True assms substr_rest [of a s] by (simp add: strSepParse_def sep_loop.simps size_of_def)
  next
    case (Some d)
    from sfind_char_at [OF Some] have "a \<le> d" "d < int (length s)" by auto
    then show ?thesis using Some True assms substr_take [of a s "nat (d - a)"] by (simp add: strSepParse_def sep_loop.simps size_of_def)
  qed
qed (simp add: strSepParse_def)

lemma pathLev_step:
  assumes "0 \<le> a" "a \<le> size_of s"
  shows "\<exists>t e. pathLev s 0 False None (Some a) = Inr (t, None, Some e) \<and> (t \<noteq> [] \<longrightarrow> a < e \<and> e \<le> size_of s)"
proof -
  let ?b = "skip_sym s (CHR ''/'') a"
  have b: "a \<le> ?b" "?b \<le> int (length s)" "0 \<le> ?b"
    using skip_sym_bounds [of a s "CHR ''/''"] assms by (auto simp: size_of_def)
  show ?thesis
  proof (cases "?b < size_of s")
    case True
    show ?thesis
    proof (cases "sfind s ''/'' ?b")
      case None
      then show ?thesis using True assms b substr_rest [of ?b s] by (simp add: pathLev_def path_loop.simps [of s 0] Let_def size_of_def)
    next
      case (Some d)
      from sfind_char_at [OF Some] have d: "?b \<le> d" "d < int (length s)" "s ! nat d = CHR ''/''" by auto
      with b skip_sym_gt [of d s] skip_sym_bounds [of d s]
      have e: "d < skip_sym s (CHR ''/'') d" "skip_sym s (CHR ''/'') d \<le> int (length s)" by auto
      show ?thesis using Some True assms b d e substr_take [of ?b s "nat (d - ?b)"]
        by (simp add: pathLev_def path_loop.simps [of s 0] Let_def size_of_def)
    qed
  qed (use assms in \<open>simp add: pathLev_def Let_def\<close>)
qed

lemma sep2path_total: "0 \<le> a \<Longrightarrow> size_of s - a < int k \<Longrightarrow> 0 < k \<Longrightarrow> \<exists>r. sep2path_loop k s c a = Inr r"
proof (induction k arbitrary: a)
  case (Suc k)
  obtain t e where p: "strSepParse s 0 c (Some a) = Inr (t, Some e)" "t \<noteq> [] \<longrightarrow> a < e \<and> e \<le> size_of s"
    using strSepParse_step [OF Suc.prems(1)] by blast
  show ?case
  proof (cases "t = []")
    case False
    then obtain r where "sep2path_loop k s c e = Inr r" using Suc.IH [of e] Suc.prems p(2) by force
    then show ?thesis using p by simp
  qed (use p in simp)
qed simp

lemma path2sep_total: "0 \<le> a \<Longrightarrow> a \<le> size_of s \<Longrightarrow> size_of s - a < int k \<Longrightarrow> \<exists>r. path2sep_loop k s c a = Inr r"
proof (induction k arbitrary: a)
  case (Suc k)
  obtain t e where p: "pathLev s 0 False None (Some a) = Inr (t, None, Some e)" "t \<noteq> [] \<longrightarrow> a < e \<and> e \<le> size_of s"
    using pathLev_step [OF Suc.prems(1,2)] by blast
  show ?case
  proof (cases "t = []")
    case False
    then obtain r where "path2sep_loop k s c e = Inr r" using Suc.IH [of e] Suc.prems p(2) by force
    then show ?thesis using p by simp
  qed (use p in simp)
qed simp

lemma paths_total: "\<exists>r. path2sepstr s c = Inr r" "\<exists>r. sepstr2path s c = Inr r"
  using path2sep_total [of 0 s "length s + 1" c] sep2path_total [of 0 s "length s + 1" c]
  by (auto simp: path2sepstr_def sepstr2path_def size_of_def)

text \<open>Parsing from the end ends for a level that is not negative.\<close>

lemma parse_end_ends:
  "t \<le> level \<Longrightarrow> level - t < int k \<Longrightarrow> parse_end_loop k path level sep merge i t \<noteq> Inl Diverge"
proof (induction k arbitrary: i t)
  case (Suc k)
  then show ?case by (auto simp: Let_def ssubstr_def split: option.split)
qed simp

lemma path_end_ends: "t \<le> level \<Longrightarrow> level - t < int k \<Longrightarrow> path_end_loop k path level dec i t \<noteq> Inl Diverge"
proof (induction k arbitrary: i t)
  case (Suc k)
  then show ?case by (auto simp: Let_def ssubstr_def split: option.split)
qed simp

lemma rbind_pair_Diverge: "rbind r (\<lambda>(x, e). Inr (f x e)) = Inl d \<longleftrightarrow> r = Inl d"
  by (cases r) (auto split: prod.split)

lemma parse_from_end_ends:
  assumes "0 \<le> level"
  shows "strParseEnd path level sep off merge \<noteq> Inl Diverge" "pathLevEnd path level dec off \<noteq> Inl Diverge"
  using parse_end_ends [of 0 level "nat level + length path + 2"] path_end_ends [of 0 level "nat level + length path + 2"] assms
  unfolding strParseEnd_def pathLevEnd_def Let_def by (simp_all add: rbind_pair_Diverge del: parse_end_loop.simps path_end_loop.simps)

lemma deb_cats_loop_ok:
  assumes "\<forall>t \<in> set cats. t \<noteq> [] \<and> CHR '';'' \<notin> set t" "0 \<le> a" "a \<le> int (length vl)"
    "drop (nat a) vl = selDebCats cats" "length cats < k"
  shows "deb_cats_loop k vl a = Inr cats"
  using assms
proof (induction cats arbitrary: k a)
  case Nil
  then obtain k' where "k = Suc k'" by (cases k) auto
  moreover have "a = int (length vl)" using Nil by (simp add: selDebCats_def)
  ultimately show ?case by (simp add: strParse_def size_of_def)
next
  case (Cons t cats)
  obtain k' where k: "k = Suc k'" using Cons.prems(5) by (cases k) auto
  let ?s = "drop (nat a) vl"
  have s: "?s = t @ CHR '';'' # selDebCats cats" using Cons.prems(4) by (simp add: selDebCats_def)
  then have lt: "a < int (length vl)" using Cons.prems(2) by (cases "nat a < length vl") auto
  have w: "takeWhile (\<lambda>x. x \<noteq> CHR '';'') ?s = t" unfolding s using Cons.prems(1) by (intro takeWhile_upto) simp
  have p: "strParse vl 0 '';'' (Some a) False = Inr (t, Some (a + int (length t) + 1))"
    using strParse_first [OF Cons.prems(2) lt, of "CHR '';''"] s w by simp
  have n: "nat (a + int (length t) + 1) = length t + 1 + nat a" using Cons.prems(2) by simp
  have "drop (nat (a + int (length t) + 1)) vl = drop (length t + 1) ?s" unfolding n by (simp only: drop_drop)
  then have d: "drop (nat (a + int (length t) + 1)) vl = selDebCats cats" using s by simp
  have "length ?s = length t + 1 + length (selDebCats cats)" using s by simp
  then have "a + int (length t) + 1 \<le> int (length vl)" using Cons.prems(2) lt by simp
  with d Cons.prems k have "deb_cats_loop k' vl (a + int (length t) + 1) = Inr cats"
    by (intro Cons.IH) auto
  with p k Cons.prems(1) show ?case by simp
qed

lemma selDebCats_length: "\<forall>t \<in> set cats. t \<noteq> [] \<Longrightarrow> length cats \<le> length (selDebCats cats)"
  by (induction cats) (auto simp: selDebCats_def)

section \<open>The enumeration of labels\<close>

lemma lab_digits:
  "\<forall>j. m \<le> j \<and> j < i \<longrightarrow> isdigit (base ! j) \<Longrightarrow> m \<le> i \<Longrightarrow>
   lab_loop base i nd nx False = lab_loop base m (if m < i then m else nd) nx False"
proof (induction "i - m" arbitrary: i nd)
  case (Suc k)
  then obtain i' where i: "i = Suc i'" "m \<le> i'" by (cases i) auto
  with Suc have "isdigit (base ! i')" by auto
  then have "lab_loop base i nd nx False = lab_loop base i' i' nx False" using i by (simp add: isxdigit_def)
  also have "\<dots> = lab_loop base m (if m < i' then m else i') nx False" using Suc i by (intro Suc.hyps) auto
  finally show ?case using i by auto
qed simp

lemma nat_str_10: "nat_str 10 n = (if n < 10 then [digit_chr n] else nat_str 10 (n div 10) @ [digit_chr (n mod 10)])"
  by (subst nat_str.simps) simp

lemma nat_str_isdigit: "c \<in> set (nat_str 10 n) \<Longrightarrow> isdigit c"
proof (induction n rule: less_induct)
  case (less n)
  have d: "isdigit (digit_chr m)" if "m < 10" for m using that by (simp add: isdigit_def digit_chr_def code_def)
  show ?case
  proof (cases "n < 10")
    case True
    with less.prems d show ?thesis by (simp add: nat_str_10 [of n])
  next
    case False
    then have "c \<in> set (nat_str 10 (n div 10)) \<or> c = digit_chr (n mod 10)" using less.prems by (auto simp: nat_str_10 [of n])
    with less.IH [of "n div 10"] False d [of "n mod 10"] show ?thesis by auto
  qed
qed

lemma nat_str_hd: "0 < n \<Longrightarrow> hd (nat_str 10 n) \<noteq> CHR ''0''"
proof (induction n rule: less_induct)
  case (less n)
  show ?case
  proof (cases "n < 10")
    case True
    then have "digit_val (digit_chr n) = n" by (simp add: digit_chr_val)
    moreover have "digit_val (CHR ''0'') = 0" by (simp add: digit_val_def isdigit_def code_def)
    ultimately show ?thesis using True less.prems by (auto simp: nat_str_10 [of n])
  next
    case False
    with less.IH [of "n div 10"] show ?thesis by (simp add: nat_str_10 [of n])
  qed
qed

lemma strtol_dec:
  assumes "int n \<le> 9223372036854775807"
  shows "strtol 0 (nat_str 10 n) = int n"
proof (cases "n = 0")
  case True
  have "digit_chr 0 = CHR ''0''" by code_simp
  then have "nat_str 10 0 = ''0''" by (simp add: nat_str_10)
  moreover have "strtol 0 ''0'' = 0" by code_simp
  ultimately show ?thesis using True by simp
next
  case False
  let ?s = "nat_str 10 n"
  have dig: "isdigit c" if "c \<in> set ?s" for c using that by (rule nat_str_isdigit)
  have t: "takeWhile (\<lambda>c. c \<noteq> nul) ?s = ?s" unfolding takeWhile_eq_all_conv
    using dig [of nul] by (auto simp: isdigit_def code_def)
  obtain a r where s: "?s = a # r" by (cases ?s) auto
  have a: "isdigit a" "a \<noteq> CHR ''0''" using dig [of a] nat_str_hd [of n] False s by auto
  then have ne: "\<not> isspace a" "a \<noteq> CHR ''-''" "a \<noteq> CHR ''+''" by (auto simp: isdigit_def isspace_def code_def)
  have d: "digits_val 10 (a # r) = n" using nat_str_digits [of 10 n] s by simp
  show ?thesis unfolding strtol_def Let_def t unfolding s
    using a ne d assms by (auto simp: has_0x_def)
qed

lemma strLabEnum_ok:
  assumes "p \<noteq> [] \<longrightarrow> \<not> isxdigit (last p) \<and> tolower (last p) \<noteq> CHR ''x''" "int n < 2147483647"
  shows "strLabEnum (p @ nat_str 10 n) = p @ nat_str 10 (n + 1)"
proof -
  let ?d = "nat_str 10 n" let ?b = "p @ ?d"
  have dl: "0 < length ?d" by simp
  have dig: "\<forall>j. length p \<le> j \<and> j < length ?b \<longrightarrow> isdigit (?b ! j)"
    using nat_str_isdigit by (auto simp: nth_append intro!: nat_str_isdigit nth_mem)
  have "lab_loop ?b (length ?b) (length ?b) (length ?b) False = lab_loop ?b (length p) (length p) (length ?b) False"
    using lab_digits [OF dig] dl by simp
  also have "\<dots> = (length p, length ?b)"
  proof (cases p rule: rev_cases)
    case (snoc q c)
    have "\<not> isxdigit c" "\<not> isdigit c" "tolower c \<noteq> CHR ''x''" using assms(1) snoc by (auto simp: isxdigit_def)
    moreover have "\<not> (length q \<noteq> 0 \<and> is_0x ?b (length q - 1))"
    proof
      assume a: "length q \<noteq> 0 \<and> is_0x ?b (length q - 1)"
      then have "length q - 1 + 1 = length q" by simp
      moreover have "?b ! length q = c" using snoc by (simp add: nth_append)
      ultimately show False using a \<open>tolower c \<noteq> CHR ''x''\<close> by (auto simp only: is_0x_def)
    qed
    ultimately show ?thesis using snoc by (auto simp: nth_append Let_def)
  qed simp
  finally have l: "lab_loop ?b (length ?b) (length ?b) (length ?b) False = (length p, length ?b)" .
  have z: "\<not> (length ?b - length p > 1 \<and> ?b ! length p = CHR ''0'')"
  proof
    assume a: "length ?b - length p > 1 \<and> ?b ! length p = CHR ''0''"
    then have "hd ?d = CHR ''0''" by (simp add: nth_append hd_conv_nth)
    then have "n = 0" using nat_str_hd [of n] by blast
    with a show False by (simp add: nat_str.simps)
  qed
  have "i2s (int n + 1) Dec = nat_str 10 (n + 1)"
    using assms(2) by (simp add: i2s_def to_i32_id int_str_def nat_add_distrib)
  with l z strtol_dec [of n] assms(2) show ?thesis by (auto simp: strLabEnum_def)
qed

section \<open>The properties\<close>

text \<open>C17. The elements of a node address are found by their level: after each element of a list is
  coded as a path element and they are joined by path separators, \<open>pathLev\<close> gives the element of the
  level, decoded, and the empty text beyond the last one.\<close>

theorem pathLev_address:
  assumes "\<forall>e \<in> set es. e \<noteq> []"
  shows "pathLev (concat (map (\<lambda>e. CHR ''/'' # strEncode u e PathEl opt) es)) (int n) True None None =
    Inr (nth_or es n, None, None)"
proof -
  let ?enc = "\<lambda>e. strEncode u e PathEl opt"
  have "?enc e \<noteq> []" if "e \<noteq> []" for e using that strEncode_path [of 0 u e opt opt] by (auto simp: strDecode_def)
  moreover have "CHR ''/'' \<notin> set (?enc e)" for e using path_sym_set by (simp add: strEncode_def)
  ultimately have "segs (concat (map (\<lambda>e. CHR ''/'' # e) (map ?enc es))) = map ?enc es"
    using assms by (intro segs_address) auto
  moreover have "concat (map (\<lambda>e. CHR ''/'' # ?enc e) es) = concat (map (\<lambda>e. CHR ''/'' # e) (map ?enc es))"
    by (simp add: comp_def)
  moreover have "percent_dec (nth_or (map ?enc es) n) = nth_or es n"
    using strEncode_path [of 0 u _ opt opt] by (simp add: nth_or_def strDecode_def)
  ultimately show ?thesis by (simp only: pathLev_segs if_True)
qed

lemma pathLev_address_witness:
  "pathLev (concat (map (\<lambda>e. CHR ''/'' # strEncode True e PathEl []) [''DAQ'', ''a/b'', ''100%''])) 1 True None None =
    Inr (''a/b'', None, None)"
  using pathLev_address [of "[''DAQ'', ''a/b'', ''100%'']" True "[]" 1] by (simp add: nth_or_def)

text \<open>C18. \<open>strSepParse\<close> gives, for every text, separator and level, the token of that level of the
  text split at the separators, or the empty text beyond the last.\<close>

theorem strSepParse_token:
  "map_sum id fst (strSepParse path (int n) sep None) = Inr (nth_or (toks sep path) n)"
  using strSepParse_toks [of path n sep] by auto

text \<open>Trimming removes exactly the longest beginning and the longest end of the given symbols.\<close>

lemma strTrim_ends:
  "strTrim val cfg = rev (dropWhile (\<lambda>c. c \<in> set cfg) (rev (dropWhile (\<lambda>c. c \<in> set cfg) val)))"
  by (rule strTrim_spec)

text \<open>The enumeration of a label that ends with a decimal number (after a symbol that cannot belong
  to a hexadecimal one) gives the label with the next number.\<close>

lemma strLabEnum_next:
  assumes "p \<noteq> [] \<longrightarrow> \<not> isxdigit (last p) \<and> tolower (last p) \<noteq> CHR ''x''" "int n < 2147483647"
  shows "strLabEnum (p @ nat_str 10 n) = p @ nat_str 10 (n + 1)"
  using assms by (rule strLabEnum_ok)

lemma strLabEnum_next_witness: "strLabEnum (''Par_'' @ nat_str 10 99) = ''Par_'' @ nat_str 10 100"
  using strLabEnum_next [of "''Par_''" 99] by (simp add: isxdigit_def isdigit_def code_def tolower_def)

text \<open>The selected debug categories are read back from their text.\<close>

lemma debug_cats_roundtrip:
  assumes "\<forall>t \<in> set cats. t \<noteq> [] \<and> CHR '';'' \<notin> set t"
  shows "setSelDebCats (selDebCats cats) = Inr cats"
  using assms deb_cats_loop_ok [of cats 0 "selDebCats cats" "length (selDebCats cats) + 1"] selDebCats_length [of cats]
  by (simp add: setSelDebCats_def)

lemma debug_cats_roundtrip_witness: "setSelDebCats (selDebCats [''/DAQ'', ''/Archive'']) = Inr [''/DAQ'', ''/Archive'']"
  by (rule debug_cats_roundtrip) simp

text \<open>C19. A path without separators loses its last symbol in \<open>pathLevEnd\<close>, and \<open>strParseEnd\<close> gives
  the element after a leading separator for the next level, which does not exist, as well.\<close>

theorem parse_end_faults:
  assumes "c \<notin> set s" "s \<noteq> []" "CHR ''/'' \<notin> set s"
  shows "pathLevEnd s 0 False None = Inr (butlast s, None) \<and>
    strParseEnd s 0 [c] None False = Inr (s, None) \<and> strParseEnd (c # s) 1 [c] None False = Inr (s, None)"
proof (intro conjI)
  have n: "nat (int (length s) - 1) = length s - 1" by simp
  show "pathLevEnd s 0 False None = Inr (butlast s, None)"
    using assms srfind_none [OF assms(3)]
    by (simp add: pathLevEnd_def size_of_def ssubstr_def butlast_conv_take n Suc_le_eq)
  show "strParseEnd s 0 [c] None False = Inr (s, None)"
    using assms srfind_none [OF assms(1)] by (simp add: strParseEnd_def size_of_def ssubstr_def)
  show "strParseEnd (c # s) 1 [c] None False = Inr (s, None)"
    using assms srfind_first [OF assms(1)]
    by (simp add: strParseEnd_def size_of_def ssubstr_def numeral_2_eq_2)
qed

lemma parse_end_faults_witness:
  "pathLevEnd ''node'' 0 False None = Inr (''nod'', None) \<and> strParseEnd ''.node'' 1 ''.'' None False = Inr (''node'', None)"
  using parse_end_faults [of "CHR ''.''" "''node''"] by simp

end
