(* ===== verification/Xml.thy ===== *)
theory Xml
  imports Tsys_Path
begin

text \<open>
  The XML nodes of \<^verbatim>\<open>src/src/xml.cpp\<close>: the tree operations, the saving of a tree to a text and the
  parser.  A node owns its children, hence it is a value; the pointer to the parent is left out.
  The positions of the parser are indexes of the text with its closing zero byte, as in the code.
  The conversion of character sets (iconv) is a parameter \<open>conv\<close>, from the name of a set and a text
  to a text.
\<close>

section \<open>The nodes\<close>

datatype xnode = XNode (xname: string) (xtext: string) (xattrs: "(string \<times> string) list") (xchildren: "xnode list")

definition new_node :: "string \<Rightarrow> xnode" where
  "new_node nm = XNode nm [] [] []"

definition childAdd :: "xnode \<Rightarrow> xnode \<Rightarrow> xnode" where
  "childAdd x n = XNode (xname x) (xtext x) (xattrs x) (xchildren x @ [n])"

definition childDel :: "xnode \<Rightarrow> int \<Rightarrow> xnode res" where
  "childDel x id0 =
     (let n = int (length (xchildren x)); i = (if id0 < 0 then n + id0 else id0)
      in if i < 0 \<or> i \<ge> n then Inl (TError 0)
         else Inr (XNode (xname x) (xtext x) (xattrs x)
                (take (nat i) (xchildren x) @ drop (nat i + 1) (xchildren x))))"

definition childClear :: "xnode \<Rightarrow> string \<Rightarrow> xnode" where
  "childClear x nm = XNode (xname x) (xtext x) (xattrs x) (filter (\<lambda>c. \<not> (nm = [] \<or> xname c = nm)) (xchildren x))"

definition childIns :: "xnode \<Rightarrow> int \<Rightarrow> xnode \<Rightarrow> xnode \<times> int" where
  "childIns x id0 n =
     (let sz = int (length (xchildren x)); i1 = (if id0 < 0 then sz + id0 else id0);
          i = (if i1 < 0 \<or> i1 > sz then sz else i1)
      in (XNode (xname x) (xtext x) (xattrs x) (take (nat i) (xchildren x) @ n # drop (nat i) (xchildren x)), i))"

definition childGet :: "xnode \<Rightarrow> int \<Rightarrow> xnode res" where
  "childGet x index =
     (let w = (if index \<ge> 0 then index else int (length (xchildren x)) + index)
      in if w \<ge> 0 \<and> w < int (length (xchildren x)) then Inr (xchildren x ! nat w) else Inl (TError 0))"

text \<open>\<open>strcasecmp\<close> of two texts, which ends at a zero byte.\<close>

definition same_nocase :: "string \<Rightarrow> string \<Rightarrow> bool" where
  "same_nocase a b \<longleftrightarrow> map tolower (takeWhile (\<lambda>c. c \<noteq> nul) a) = map tolower (takeWhile (\<lambda>c. c \<noteq> nul) b)"

definition childGet_name :: "xnode \<Rightarrow> string \<Rightarrow> int \<Rightarrow> xnode res" where
  "childGet_name x nm numb =
     (let cs = filter (\<lambda>c. same_nocase (xname c) nm) (xchildren x)
      in if 0 \<le> numb \<and> numb < int (length cs) then Inr (cs ! nat numb) else Inl (TError 0))"

fun attr_of :: "(string \<times> string) list \<Rightarrow> string \<Rightarrow> bool \<Rightarrow> string \<times> bool" where
  "attr_of [] nm caseSens = ([], False)"
| "attr_of ((k, v) # as) nm caseSens =
     (if (if caseSens then k = nm else same_nocase k nm) then (v, True) else attr_of as nm caseSens)"

definition attr :: "xnode \<Rightarrow> string \<Rightarrow> string" where
  "attr x nm = fst (attr_of (xattrs x) nm True)"

definition childGet_attr :: "xnode \<Rightarrow> string \<Rightarrow> string \<Rightarrow> xnode res" where
  "childGet_attr x a val = (case filter (\<lambda>c. attr c a = val) (xchildren x) of [] \<Rightarrow> Inl (TError 0) | c # _ \<Rightarrow> Inr c)"

fun getElementBy :: "string \<Rightarrow> string \<Rightarrow> xnode \<Rightarrow> xnode option" where
  "getElementBy a val (XNode nm txt as cs) =
     (if attr (XNode nm txt as cs) a = val then Some (XNode nm txt as cs)
      else foldl (\<lambda>rez c. case rez of Some r \<Rightarrow> Some r | None \<Rightarrow> c) None (map (getElementBy a val) cs))"

fun attr_set :: "(string \<times> string) list \<Rightarrow> string \<Rightarrow> string \<Rightarrow> (string \<times> string) list" where
  "attr_set [] nm val = [(nm, val)]"
| "attr_set ((k, v) # as) nm val = (if k = nm then (nm, val) # as else (k, v) # attr_set as nm val)"

definition setAttr :: "xnode \<Rightarrow> string \<Rightarrow> string \<Rightarrow> xnode" where
  "setAttr x nm val = XNode (xname x) (xtext x) (attr_set (xattrs x) nm val) (xchildren x)"

fun attr_del :: "(string \<times> string) list \<Rightarrow> string \<Rightarrow> (string \<times> string) list" where
  "attr_del [] nm = []"
| "attr_del ((k, v) # as) nm = (if k = nm then as else (k, v) # attr_del as nm)"

definition attrDel :: "xnode \<Rightarrow> string \<Rightarrow> xnode" where
  "attrDel x nm = XNode (xname x) (xtext x) (attr_del (xattrs x) nm) (xchildren x)"

definition clear_node :: "xnode \<Rightarrow> xnode" where
  "clear_node x = XNode (xname x) [] [] []"

text \<open>\<open>operator=\<close>: the attributes are set one by one, each to what \<open>attr\<close> gives.\<close>

fun node_copy :: "xnode \<Rightarrow> xnode" where
  "node_copy (XNode nm txt as cs) =
     XNode nm txt (foldl (\<lambda>acc k. attr_set acc k (fst (attr_of as k True))) [] (map fst as)) (map node_copy cs)"

definition txt_name :: string where "txt_name = ''<*>''"

function node_text :: "xnode \<Rightarrow> bool \<Rightarrow> bool \<Rightarrow> string" where
  "node_text (XNode nm txt as cs) childs recursive =
     (if \<not> childs \<or> nm = txt_name then txt
      else let rez = concat (map (\<lambda>c. if xname c = txt_name then xtext c
                                 else if recursive then node_text c childs recursive else []) cs)
           in if rez \<noteq> [] then rez else txt)"
  by pat_completeness auto
termination
  by (relation "measure (\<lambda>(x, childs, recursive). size x)") (auto simp: size_list_estimation' less_Suc_eq_le)

definition setText :: "xnode \<Rightarrow> string \<Rightarrow> bool \<Rightarrow> xnode" where
  "setText x s childs =
     (if \<not> childs \<or> xname x = txt_name then XNode (xname x) s (xattrs x) (xchildren x)
      else let isT = (\<lambda>c. xname c = txt_name); cs = xchildren x
           in XNode (xname x) (xtext x) (xattrs x)
                (if list_ex isT cs
                 then takeWhile (\<lambda>c. \<not> isT c) cs @
                      (case dropWhile (\<lambda>c. \<not> isT c) cs of [] \<Rightarrow> []
                       | t # r \<Rightarrow> XNode txt_name s (xattrs t) (xchildren t) # filter (\<lambda>c. \<not> isT c) r)
                 else cs @ [XNode txt_name s [] []]))"

section \<open>Saving\<close>

definition BrOpenPrev :: nat where "BrOpenPrev = 0x01"
definition BrOpenPast :: nat where "BrOpenPast = 0x02"
definition BrClosePast :: nat where "BrClosePast = 0x04"
definition BrTextPast :: nat where "BrTextPast = 0x08"
definition BrSpecBlkPast :: nat where "BrSpecBlkPast = 0x10"
definition XMLHeader :: nat where "XMLHeader = 0x20"
definition XHTMLHeader :: nat where "XHTMLHeader = 0x40"
definition Clean :: nat where "Clean = 0x80"
definition MissTagEnc :: nat where "MissTagEnc = 0x100"
definition MissAttrEnc :: nat where "MissAttrEnc = 0x200"
definition BinShield :: nat where "BinShield = 0x400"
definition LD_Full :: nat where "LD_Full = 0x01"
definition LD_NoTxtSpcRemEnBeg :: nat where "LD_NoTxtSpcRemEnBeg = 0x02"

definition has :: "nat \<Rightarrow> nat \<Rightarrow> bool" where
  "has flg f \<longleftrightarrow> flg AND f \<noteq> 0"

definition shield_3o :: "char \<Rightarrow> string" where
  "shield_3o c = CHR 0x5C # print_03o c"

text \<open>The replacement of a symbol, where there is one.\<close>

definition repl_str :: "bool \<Rightarrow> nat \<Rightarrow> char \<Rightarrow> string option" where
  "repl_str txt flg c =
     (if code c \<le> 8 \<or> 0x0B \<le> code c \<and> code c \<le> 0x0C \<or> 0x0E \<le> code c \<and> code c \<le> 0x1F
      then (if has flg BinShield then Some (shield_3o c) else None)
      else if c = CHR ''>'' then Some ''&gt;'' else if c = CHR ''<'' then Some ''&lt;''
      else if c = CHR ''&'' then Some ''&amp;''
      else if txt then None
      else if c = CHR 0x27 then Some ''&#039;'' else if c = CHR 0x22 then Some ''&quot;''
      else if c = CHR 0x0A then Some ''&#010;'' else None)"

function xml_encode :: "bool \<Rightarrow> bool \<Rightarrow> nat \<Rightarrow> string \<Rightarrow> string" where
  "xml_encode u txt flg [] = []"
| "xml_encode u txt flg (c # cs) =
     (case repl_str txt flg c of
        Some r \<Rightarrow> r @ xml_encode u txt flg cs
      | None \<Rightarrow> (case getUTF8 u (c # cs) 0 of (len, symb) \<Rightarrow>
          if len \<ge> 2
          then (if symb = Some 0xA0 then (if has flg XHTMLHeader then ''&nbsp;'' else ''&#x00A0;'')
                else take (nat len) (c # cs)) @ xml_encode u txt flg (drop (nat len - 1) cs)
          else if len = 0 \<and> has flg BinShield then shield_3o c @ xml_encode u txt flg cs
          else c # xml_encode u txt flg cs))"
  by pat_completeness auto
termination
  by (relation "measure (\<lambda>(u, txt, flg, s). length s)") (auto simp: le_imp_less_Suc)

fun save_attrs :: "bool \<Rightarrow> (string \<Rightarrow> string) \<Rightarrow> nat \<Rightarrow> (string \<times> string) list \<Rightarrow> string" where
  "save_attrs u conv flg [] = []"
| "save_attrs u conv flg ((k, v) # as) =
     (if v = [] then []
      else '' '' @ (if has flg MissAttrEnc then k else xml_encode u False flg k) @ [CHR ''='', CHR 0x22] @
           xml_encode u False flg (conv v) @ [CHR 0x22]) @ save_attrs u conv flg as"

text \<open>\<open>saveNode\<close> appends to \<open>xml\<close>; \<open>conv\<close> is the conversion to the character set of the text.\<close>

fun saveNode :: "bool \<Rightarrow> (string \<Rightarrow> string) \<Rightarrow> nat \<Rightarrow> xnode \<Rightarrow> string \<Rightarrow> string" where
  "saveNode u conv flg (XNode nm txt as cs) xml =
     (if nm = txt_name then xml @ xml_encode u True flg (conv txt)
      else if nm = ''<!>'' then (if has flg Clean then xml else xml @ ''<!--'' @ conv txt @ ''-->'')
      else if take 2 nm = ''<?''
      then (if has flg Clean then xml
            else xml @ nm @ '' '' @ conv txt @ (if has flg BrSpecBlkPast then ''?>'' @ [CHR 0x0A] else ''?>''))
      else let enm = (if has flg MissTagEnc then nm else xml_encode u False flg nm);
               xml1 = xml @ (if has flg BrOpenPrev \<and> xml \<noteq> [] \<and> last xml \<noteq> CHR 0x0A then [CHR 0x0A, CHR ''<''] else ''<'') @
                      enm @ save_attrs u conv flg as
           in if cs = [] \<and> txt = []
              then xml1 @ (if has flg XHTMLHeader \<and> (nm = ''script'' \<or> nm = ''div'') then ''></'' @ nm @ ''>'' else '' />'') @
                   (if has flg (BrOpenPast OR BrClosePast) then [CHR 0x0A] else [])
              else let xml2 = xml1 @ (if has flg BrOpenPast then [CHR ''>'', CHR 0x0A] else ''>'') @
                        (if txt \<noteq> [] then xml_encode u True flg (conv txt) @ (if has flg BrTextPast then [CHR 0x0A] else [])
                         else []);
                       xml3 = fold (saveNode u conv flg) cs xml2
                   in xml3 @ ''</'' @ enm @ (if has flg BrClosePast then [CHR ''>'', CHR 0x0A] else ''>''))"

definition xhtml_doctype :: string where
  "xhtml_doctype = ''<!DOCTYPE html PUBLIC '' @ [CHR 0x27] @ ''-//W3C//DTD XHTML 1.0 Transitional//EN'' @ [CHR 0x27] @ '' '' @
     [CHR 0x27] @ ''http://www.w3.org/TR/xhtml1/DTD/xhtml1-transitional.dtd'' @ [CHR 0x27] @ ''>'' @ [CHR 0x0A]"

definition save :: "bool \<Rightarrow> (string \<Rightarrow> string \<Rightarrow> string) \<Rightarrow> nat \<Rightarrow> string \<Rightarrow> xnode \<Rightarrow> string" where
  "save u conv flg cp x =
     saveNode u (conv cp) flg x
       ((if has flg (XMLHeader OR XHTMLHeader)
         then ''<?xml version='' @ [CHR 0x27] @ ''1.0'' @ [CHR 0x27] @ '' encoding='' @ [CHR 0x27] @ cp @ [CHR 0x27] @ '' ?>'' @ [CHR 0x0A]
         else []) @ (if has flg XHTMLHeader then xhtml_doctype else []))"

section \<open>The parser\<close>

text \<open>\<open>vl.compare(pos,n,pat) == 0\<close> for a pattern of \<open>n\<close> symbols.\<close>

definition starts :: "string \<Rightarrow> nat \<Rightarrow> string \<Rightarrow> bool" where
  "starts vl pos pat \<longleftrightarrow> take (length pat) (drop pos vl) = pat"

definition isSpace :: "char \<Rightarrow> bool" where
  "isSpace c \<longleftrightarrow> c = CHR '' '' \<or> c = CHR 0x09 \<or> c = CHR 0x0D \<or> c = CHR 0x0A"

definition isalpha :: "char \<Rightarrow> bool" where
  "isalpha c \<longleftrightarrow> 65 \<le> code c \<and> code c \<le> 90 \<or> 97 \<le> code c \<and> code c \<le> 122"

definition skip_spaces :: "string \<Rightarrow> nat \<Rightarrow> nat" where
  "skip_spaces vl pos = pos + length (takeWhile isSpace (drop pos vl))"

abbreviation ENT_MAX_SZ :: nat where "ENT_MAX_SZ \<equiv> 100"

text \<open>The context of a loading: the character set and the loaded entities (the first definition holds).\<close>

record load_ctx =
  cEnc :: string
  cEnt :: "(string \<times> string) list"

text \<open>The value of a code entity, \<open>strtoul\<close> of its digits narrowed to 32 bits.\<close>

definition ent_code :: "nat \<Rightarrow> string \<Rightarrow> u32" where
  "ent_code base ds = word_of_int (min 18446744073709551615 (int (digits_val base ds)))"

definition ent_symb :: "bool \<Rightarrow> u32 \<Rightarrow> string" where
  "ent_symb u eVal = (if eVal < 0x80 then [chr (ucast eVal)] else if u then setUTF8 eVal else [])"

text \<open>\<open>parseEntity\<close> at the position of the ampersand: the last position used and the text.\<close>

definition parseEntity :: "bool \<Rightarrow> (string \<times> string) list \<Rightarrow> string \<Rightarrow> nat \<Rightarrow> nat \<times> string" where
  "parseEntity u ent vl rpos =
     (if starts vl rpos ''&amp;'' then (rpos + 4, ''&'')
      else if starts vl rpos ''&lt;'' then (rpos + 3, ''<'')
      else if starts vl rpos ''&gt;'' then (rpos + 3, ''>'')
      else if starts vl rpos ''&apos;'' then (rpos + 5, [CHR 0x27])
      else if starts vl rpos ''&quot;'' then (rpos + 5, [CHR 0x22])
      else if u \<and> starts vl rpos ''&nbsp;'' then (rpos + 5, [CHR 0xC2, CHR 0xA0])
      else if rpos + 3 < length vl \<and> at vl (rpos + 1) = CHR ''#''
      then if at vl (rpos + 2) = CHR ''X'' \<or> at vl (rpos + 2) = CHR ''x''
           then let ds = takeWhile isxdigit (take ENT_MAX_SZ (drop (rpos + 3) vl)); nEnd = rpos + 3 + length ds
                in if at vl nEnd \<noteq> CHR '';'' then (rpos + 1, ''&'')
                   else (nEnd, ent_symb u (ent_code 16 ds))
           else let ds = takeWhile isdigit (take ENT_MAX_SZ (drop (rpos + 2) vl)); nEnd = rpos + 2 + length ds
                in if at vl nEnd \<noteq> CHR '';'' then (rpos + 1, ''&'')
                   else (nEnd, ent_symb u (ent_code 10 ds))
      else let nm = takeWhile (\<lambda>c. c \<noteq> CHR '';'') (take ENT_MAX_SZ (drop (rpos + 1) vl)); nEnd = rpos + 1 + length nm
           in if at vl nEnd \<noteq> CHR '';'' then (rpos + 1, ''&'')
              else (nEnd, case map_of ent nm of Some v \<Rightarrow> v | None \<Rightarrow> ''?''))"

lemma parseEntity_ge: "rpos \<le> fst (parseEntity u ent vl rpos)"
  by (auto simp: parseEntity_def Let_def)

text \<open>The value of an attribute up to its quote.\<close>

function attr_val :: "bool \<Rightarrow> (string \<times> string) list \<Rightarrow> string \<Rightarrow> char \<Rightarrow> nat \<Rightarrow> string \<Rightarrow> (nat \<times> string) res" where
  "attr_val u ent vl brc pos aVl =
     (if at vl pos = brc then Inr (pos, aVl)
      else if pos \<ge> length vl then Inl (TError 0)
      else if at vl pos \<noteq> CHR ''&'' then attr_val u ent vl brc (pos + 1) (aVl @ [at vl pos])
      else case parseEntity u ent vl pos of (p, r) \<Rightarrow> attr_val u ent vl brc (max p pos + 1) (aVl @ r))"
  by pat_completeness auto
termination
  by (relation "measure (\<lambda>(u, ent, vl, brc, pos, aVl). length vl - pos)") auto

text \<open>
  \<open>parseAttr\<close>: nothing where there is no attribute, else its name, its value and the position after
  it.  \<open>sep\<close> is \<open>None\<close> for the zero separator.  The position is moved over spaces in both cases.
\<close>

definition parseAttr :: "bool \<Rightarrow> (string \<times> string) list \<Rightarrow> string \<Rightarrow> nat \<Rightarrow> char option \<Rightarrow>
    (nat \<times> (string \<times> string) option) res" where
  "parseAttr u ent vl pos0 sep =
     (let pos = skip_spaces vl pos0
      in if \<not> isalpha (at vl pos) \<and> \<not> isxdigit (at vl pos) then Inr (pos, None)
         else let nm = takeWhile (\<lambda>c. \<not> isSpace c \<and> c \<noteq> CHR ''='') (drop pos vl); p1 = pos + length nm
              in if p1 \<ge> length vl then Inl (TError 0)
                 else let p2 = skip_spaces vl p1
                      in if sep \<noteq> None \<and> at vl p2 \<noteq> the sep then Inl (TError 0)
                         else let p3 = skip_spaces vl (if sep \<noteq> None then p2 + 1 else p2)
                              in if at vl p3 \<noteq> CHR 0x27 \<and> at vl p3 \<noteq> CHR 0x22 then Inl (TError 0)
                                 else rbind (attr_val u ent vl (at vl p3) (p3 + 1) [])
                                        (\<lambda>(p4, v). Inr (p4 + 1, Some (nm, v))))"

text \<open>
  The attributes of a tag and of the \<open><?xml ?>\<close> block, and the definitions of an entity, which hold
  for the next ones; the fuel is the length of the text.
\<close>

fun parse_attrs :: "nat \<Rightarrow> bool \<Rightarrow> (string \<times> string) list \<Rightarrow> string \<Rightarrow> nat \<Rightarrow>
    (nat \<times> (string \<times> string) list) res" where
  "parse_attrs 0 u ent vl pos = Inl Diverge"
| "parse_attrs (Suc k) u ent vl pos =
     rbind (parseAttr u ent vl pos (Some (CHR ''=''))) (\<lambda>(p, a). case a of
         None \<Rightarrow> Inr (p, [])
       | Some kv \<Rightarrow> rbind (parse_attrs k u ent vl p) (\<lambda>(p', kvs). Inr (p', kv # kvs)))"

fun parse_ents :: "nat \<Rightarrow> bool \<Rightarrow> (string \<times> string) list \<Rightarrow> string \<Rightarrow> nat \<Rightarrow> (nat \<times> (string \<times> string) list) res" where
  "parse_ents 0 u ent vl pos = Inl Diverge"
| "parse_ents (Suc k) u ent vl pos =
     rbind (parseAttr u ent vl pos None) (\<lambda>(p, a). case a of
         None \<Rightarrow> Inr (p, ent)
       | Some kv \<Rightarrow> parse_ents k u (if snd kv \<noteq> [] then ent @ [kv] else ent) vl p)"

text \<open>The text before a tag.\<close>

function text_loop :: "bool \<Rightarrow> (string \<times> string) list \<Rightarrow> nat \<Rightarrow> string \<Rightarrow> bool \<Rightarrow> nat \<Rightarrow> string \<Rightarrow> nat \<times> string" where
  "text_loop u ent flg vl initTag pos mText =
     (if pos \<ge> length vl \<or> at vl pos = CHR ''<'' then (pos, mText)
      else if initTag then text_loop u ent flg vl initTag (pos + 1) mText
      else if has flg (LD_Full OR LD_NoTxtSpcRemEnBeg) \<or> mText \<noteq> [] \<or> \<not> isSpace (at vl pos)
      then if at vl pos \<noteq> CHR ''&'' then text_loop u ent flg vl initTag (pos + 1) (mText @ [at vl pos])
           else case parseEntity u ent vl pos of (p, r) \<Rightarrow> text_loop u ent flg vl initTag (max p pos + 1) (mText @ r)
      else text_loop u ent flg vl initTag (pos + 1) mText)"
  by pat_completeness auto
termination
  by (relation "measure (\<lambda>(u, ent, flg, vl, initTag, pos, mText). length vl - pos)") auto

text \<open>The \<open><!DOCTYPE >\<close> block: the search of the container and the entities in it.\<close>

function doctype_open :: "string \<Rightarrow> nat \<Rightarrow> (nat \<times> bool) res" where
  "doctype_open vl cpos =
     (if at vl cpos = CHR ''['' then Inr (cpos + 1, True)
      else if cpos \<ge> length vl then Inl (TError 0)
      else if at vl cpos = CHR ''>'' then Inr (cpos + 1, False)
      else doctype_open vl (cpos + 1))"
  by pat_completeness auto
termination
  by (relation "measure (\<lambda>(vl, cpos). length vl - cpos)") auto

fun doctype_ents :: "nat \<Rightarrow> bool \<Rightarrow> string \<Rightarrow> nat \<Rightarrow> (string \<times> string) list \<Rightarrow> (nat \<times> (string \<times> string) list) res" where
  "doctype_ents 0 u vl cpos ent = Inl Diverge"
| "doctype_ents (Suc k) u vl cpos ent =
     (if at vl cpos = CHR '']'' then Inr (cpos + 1, ent)
      else if cpos \<ge> length vl then Inl (TError 0)
      else if starts vl cpos ''<!ENTITY ''
      then rbind (parse_ents (length vl + 1) u ent vl (cpos + 9)) (\<lambda>(p, ent').
             let p' = skip_spaces vl p
             in if at vl p' \<noteq> CHR ''>'' then Inl (TError 0)
                else doctype_ents k u vl (p' + 2) ent')
      else doctype_ents k u vl (cpos + 1) ent)"

text \<open>The text block that full loading makes of the text before a tag.\<close>

definition flush_text :: "(string \<Rightarrow> string) \<Rightarrow> nat \<Rightarrow> xnode \<Rightarrow> xnode" where
  "flush_text conv flg x =
     (if xtext x \<noteq> [] \<and> has flg LD_Full
      then XNode (xname x) [] (xattrs x) (xchildren x @ [XNode txt_name (conv (xtext x)) [] []]) else x)"

definition with_text :: "xnode \<Rightarrow> string \<Rightarrow> xnode" where
  "with_text x s = XNode (xname x) s (xattrs x) (xchildren x)"

text \<open>
  \<open>loadNode\<close>.  The turns are those of the label \<open>nextTag\<close>; each but the one of a new child moves the
  position forward, and a child is loaded from the position before its tag.
\<close>

primrec loadNode :: "nat \<Rightarrow> bool \<Rightarrow> (string \<Rightarrow> string \<Rightarrow> string) \<Rightarrow> nat \<Rightarrow> string \<Rightarrow> bool \<Rightarrow> xnode \<Rightarrow> load_ctx \<Rightarrow> nat \<Rightarrow>
    (xnode \<times> nat \<times> load_ctx) res" where
  "loadNode 0 u conv flg vl initTag x ctx pos0 = Inl Diverge"
| "loadNode (Suc k) u conv flg vl initTag x0 ctx pos0 =
     (case text_loop u (cEnt ctx) flg vl initTag pos0 (xtext x0) of (pos, mText) \<Rightarrow>
      let x = with_text x0 mText; cv = conv (cEnc ctx)
      in if pos + 2 \<ge> length vl then Inl (TError 0)
         else if at vl (pos + 1) = CHR ''!'' then
           (if starts vl pos ''<!--'' then
              (case sfind vl ''-->'' (int pos + 4) of
                 None \<Rightarrow> Inl (TError 0)
               | Some e \<Rightarrow>
                   let x1 = (if has flg LD_Full
                             then childAdd (flush_text cv flg x)
                                    (XNode ''<!>'' (cv (take (nat e - (pos + 4)) (drop (pos + 4) vl))) [] [])
                             else x)
                   in loadNode k u conv flg vl initTag x1 ctx (nat e + 3))
            else if starts vl pos ''<!DOCTYPE '' then
              rbind (doctype_open vl (pos + 10)) (\<lambda>(cpos, cont).
                if \<not> cont then loadNode k u conv flg vl initTag x ctx cpos
                else rbind (doctype_ents (length vl + 1) u vl cpos (cEnt ctx)) (\<lambda>(c1, ent).
                  let c2 = skip_spaces vl c1
                  in if at vl c2 \<noteq> CHR ''>'' then Inl (TError 0)
                     else loadNode k u conv flg vl initTag x (ctx\<lparr>cEnt := ent\<rparr>) (c2 + 1)))
            else Inl (TError 0))
         else if at vl (pos + 1) = CHR ''?'' then
           (case sfind vl ''?>'' (int pos + 2) of
              None \<Rightarrow> Inl (TError 0)
            | Some e \<Rightarrow>
                let tpos = nat e; bpos = pos + 2;
                    nm = takeWhile (\<lambda>c. \<not> isSpace c) (take (tpos - bpos) (drop bpos vl)); cpos = bpos + length nm
                in if cpos < tpos
                   then let c1 = skip_spaces vl cpos;
                            x1 = (if initTag then x
                                  else childAdd x (XNode (''<?'' @ nm) (take (tpos - c1) (drop c1 vl)) [] []))
                        in if nm = ''xml''
                           then rbind (parse_attrs (length vl + 1) u (cEnt ctx) vl c1) (\<lambda>(_, kvs).
                                  loadNode k u conv flg vl initTag x1
                                    (ctx\<lparr>cEnc := foldl (\<lambda>e kv. if fst kv = ''encoding'' then snd kv else e) (cEnc ctx) kvs\<rparr>)
                                    (tpos + 2))
                           else loadNode k u conv flg vl initTag x1 ctx (tpos + 2)
                   else loadNode k u conv flg vl initTag x ctx (tpos + 2))
         else if at vl (pos + 1) = CHR ''/'' then
           (let c1 = skip_spaces vl (pos + 2 + length (xname x))
            in if starts vl (pos + 2) (xname x) \<and> at vl c1 = CHR ''>''
               then let x1 = flush_text cv flg x
                    in Inr (if xtext x1 \<noteq> []
                            then with_text x1 (if has flg LD_NoTxtSpcRemEnBeg then cv (xtext x1)
                                               else cv (rev (dropWhile isSpace (rev (xtext x1)))))
                            else x1, c1 + 1, ctx)
               else Inl (TError 0))
         else if initTag then
           (let nm = takeWhile (\<lambda>c. \<not> isSpace c \<and> c \<noteq> CHR ''>'' \<and> c \<noteq> CHR ''/'') (drop (pos + 1) vl);
                cpos = pos + 1 + length nm
            in if cpos \<ge> length vl then Inl (TError 0)
               else rbind (parse_attrs (length vl + 1) u (cEnt ctx) vl cpos) (\<lambda>(c1, kvs).
                 let x1 = XNode nm (xtext x) (xattrs x @ map (\<lambda>(a, v). (a, if v \<noteq> [] then cv v else [])) kvs) (xchildren x);
                     c2 = skip_spaces vl c1
                 in if at vl c2 = CHR ''>'' then loadNode k u conv flg vl False x1 ctx (c2 + 1)
                    else if starts vl c2 ''/>'' then Inr (x1, c2 + 2, ctx)
                    else Inl (TError 0)))
         else
           (let x1 = flush_text cv flg x
            in rbind (loadNode k u conv flg vl True (new_node []) ctx (pos - 1)) (\<lambda>(c, p, ctx').
                 loadNode k u conv flg vl False (childAdd x1 c) ctx' p)))"

text \<open>
  \<open>load\<close>: the node is cleared and the text is closed by a zero byte; each turn uses at least one symbol
  but the one that starts a child, hence twice the length and some turns are enough.
\<close>

definition load :: "bool \<Rightarrow> (string \<Rightarrow> string \<Rightarrow> string) \<Rightarrow> nat \<Rightarrow> string \<Rightarrow> string \<Rightarrow> xnode \<Rightarrow> xnode res" where
  "load u conv flg cp s x =
     rbind (loadNode (2 * length s + 10) u conv flg (s @ [nul]) True (clear_node x) \<lparr>cEnc = cp, cEnt = []\<rparr> 0)
       (\<lambda>(x', _, _). Inr x')"

section \<open>The tree operations\<close>

lemma attr_of_set: "attr_of (attr_set as k v) k' True = (if k = k' then (v, True) else attr_of as k' True)"
  by (induction as k v rule: attr_set.induct) auto

text \<open>\<open>setAttr\<close> sets exactly one attribute: \<open>attr\<close> then gives the new value for its name and the former values for all other names.\<close>

lemma xml_attr_get_set: "attr (setAttr x k v) k' = (if k = k' then v else attr x k')"
  by (simp add: attr_def setAttr_def attr_of_set)

lemma ins_nth: "i \<le> length cs \<Longrightarrow> (take i cs @ c # drop i cs) ! i = c"
  by (simp add: nth_append)

lemma ins_del: "i \<le> length cs \<Longrightarrow> take i (take i cs @ c # drop i cs) @ drop (Suc i) (take i cs @ c # drop i cs) = cs"
  by simp

text \<open>C22. \<open>childIns\<close> puts a node at the index it returns, \<open>childGet\<close> finds it there, and \<open>childDel\<close> of
  that index gives the former node back, for every index, negative and too large ones included.\<close>

theorem xml_child_ins_del:
  "case childIns x i n of (y, j) \<Rightarrow> 0 \<le> j \<and> childGet y j = Inr n \<and> childDel y j = Inr x"
proof -
  let ?cs = "xchildren x" let ?sz = "int (length ?cs)"
  define i1 where "i1 = (if i < 0 then ?sz + i else i)"
  define j where "j = (if i1 < 0 \<or> i1 > ?sz then ?sz else i1)"
  have j: "0 \<le> j" "nat j \<le> length ?cs" "j < int (Suc (length ?cs))" by (auto simp: j_def)
  let ?y = "XNode (xname x) (xtext x) (xattrs x) (take (nat j) ?cs @ n # drop (nat j) ?cs)"
  have e: "childIns x i n = (?y, j)" by (simp add: childIns_def Let_def i1_def j_def)
  have len: "int (length (xchildren ?y)) = int (Suc (length ?cs))" using j by simp
  have "childGet ?y j = Inr n" using j ins_nth [OF j(2), of n] unfolding childGet_def Let_def len by simp
  moreover have "childDel ?y j = Inr x" using j ins_del [OF j(2), of n] unfolding childDel_def Let_def len by simp
  ultimately show ?thesis using e j by simp
qed

end
