(* ===== verification/Xml_Read.thy ===== *)
theory Xml_Read
  imports Xml
begin

text \<open>
  How the parser of \<^verbatim>\<open>src/src/xml.cpp\<close> reads texts written by \<open>xml_encode\<close>: the relation \<open>reads\<close>
  of positions and texts, shared by attribute values and by the text of nodes, and the reading of the
  attributes of a tag.
\<close>

declare xml_encode.simps [simp del] attr_val.simps [simp del] text_loop.simps [simp del] doctype_open.simps [simp del]

section \<open>Positions\<close>

lemma drop_cons: "drop pos vl = c # s \<Longrightarrow> pos < length vl \<and> at vl pos = c \<and> drop (pos + 1) vl = s"
proof -
  assume d: "drop pos vl = c # s"
  then have l: "pos < length vl" by (cases "pos < length vl") auto
  with d have "vl ! pos # drop (Suc pos) vl = c # s" by (simp add: Cons_nth_drop_Suc)
  with l show ?thesis by (simp add: at_def)
qed

lemma drop_app: "drop pos vl = xs @ s \<Longrightarrow> drop (pos + length xs) vl = s"
  by (metis add.commute append_eq_conv_conj drop_drop)

lemma starts_drop: "starts vl pos pat \<longleftrightarrow> take (length pat) (drop pos vl) = pat"
  by (simp add: starts_def)

lemma skip_spaces_app: "drop pos vl = ws @ c # s \<Longrightarrow> list_all isSpace ws \<Longrightarrow> \<not> isSpace c \<Longrightarrow>
   skip_spaces vl pos = pos + length ws"
  by (simp add: skip_spaces_def takeWhile_append2 list_all_iff)

section \<open>Reading of encoded texts\<close>

text \<open>
  \<open>reads u ent vl S p q s\<close>: from position \<open>p\<close> up to \<open>q\<close> the text has plain symbols outside of \<open>S\<close> and
  entities, which stand for \<open>s\<close>.
\<close>

inductive reads :: "bool \<Rightarrow> (string \<times> string) list \<Rightarrow> string \<Rightarrow> char set \<Rightarrow> nat \<Rightarrow> nat \<Rightarrow> string \<Rightarrow> bool"
  for u ent vl S where
  reads_nil: "reads u ent vl S p p []"
| reads_sym: "p < length vl \<Longrightarrow> at vl p = c \<Longrightarrow> c \<notin> S \<Longrightarrow> c \<noteq> CHR ''&'' \<Longrightarrow> reads u ent vl S (p + 1) q s \<Longrightarrow>
    reads u ent vl S p q (c # s)"
| reads_ent: "p < length vl \<Longrightarrow> at vl p = CHR ''&'' \<Longrightarrow> CHR ''&'' \<notin> S \<Longrightarrow> parseEntity u ent vl p = (p', r) \<Longrightarrow>
    reads u ent vl S (p' + 1) q s \<Longrightarrow> reads u ent vl S p q (r @ s)"

lemma reads_attr:
  "reads u ent vl S p q s \<Longrightarrow> brc \<in> S \<Longrightarrow> at vl q = brc \<Longrightarrow> attr_val u ent vl brc p acc = Inr (q, acc @ s)"
proof (induction arbitrary: acc rule: reads.induct)
  case (reads_nil p)
  then show ?case by (subst attr_val.simps) simp
next
  case (reads_sym p c q s)
  then show ?case by (subst attr_val.simps) auto
next
  case (reads_ent p p' r q s)
  have "p \<le> p'" using parseEntity_ge [of p u ent vl] reads_ent.hyps(4) by simp
  with reads_ent show ?case by (subst attr_val.simps) (auto simp: max_def)
qed

lemma reads_text:
  "reads u ent vl S p q s \<Longrightarrow> CHR ''<'' \<in> S \<Longrightarrow> at vl q = CHR ''<'' \<Longrightarrow> has flg (LD_Full OR LD_NoTxtSpcRemEnBeg) \<Longrightarrow>
   text_loop u ent flg vl False p acc = (q, acc @ s)"
proof (induction arbitrary: acc rule: reads.induct)
  case (reads_nil p)
  then show ?case by (subst text_loop.simps) simp
next
  case (reads_sym p c q s)
  then show ?case by (subst text_loop.simps) auto
next
  case (reads_ent p p' r q s)
  have "p \<le> p'" using parseEntity_ge [of p u ent vl] reads_ent.hyps(4) by simp
  with reads_ent show ?case by (subst text_loop.simps) (auto simp: max_def)
qed

lemma reads_plain:
  "drop p vl = xs @ r \<Longrightarrow> \<forall>c \<in> set xs. c \<notin> S \<and> c \<noteq> CHR ''&'' \<Longrightarrow> reads u ent vl S (p + length xs) q s \<Longrightarrow>
   reads u ent vl S p q (xs @ s)"
proof (induction xs arbitrary: p)
  case (Cons c xs)
  have d: "p < length vl" "at vl p = c" "drop (p + 1) vl = xs @ r" using drop_cons [of p vl c "xs @ r"] Cons.prems(1) by auto
  have "reads u ent vl S (p + 1 + length xs) q s" using Cons.prems(3) by simp
  with Cons.prems(2) d(3) have "reads u ent vl S (p + 1) q (xs @ s)" by (intro Cons.IH) auto
  with d Cons.prems(2) show ?case by (simp add: reads_sym)
qed simp

text \<open>The texts in which the symbol A0 is only written with two bytes.\<close>

definition nbsp_ok :: "bool \<Rightarrow> string \<Rightarrow> bool" where
  "nbsp_ok u s \<longleftrightarrow> list_all (\<lambda>i. case getUTF8 u (drop i s) 0 of (l, x) \<Rightarrow> l \<ge> 2 \<and> x = Some 0xA0 \<longrightarrow> l = 2) [0 ..< length s]"

lemma nbsp_ok_drop: "nbsp_ok u s \<Longrightarrow> nbsp_ok u (drop k s)"
proof -
  assume a: "nbsp_ok u s"
  have "(case getUTF8 u (drop i (drop k s)) 0 of (l, x) \<Rightarrow> l \<ge> 2 \<and> x = Some 0xA0 \<longrightarrow> l = 2)" if "i < length (drop k s)" for i
  proof -
    have "i + k < length s" using that by simp
    with a have "(case getUTF8 u (drop (i + k) s) 0 of (l, x) \<Rightarrow> l \<ge> 2 \<and> x = Some 0xA0 \<longrightarrow> l = 2)"
      unfolding nbsp_ok_def list_all_iff by auto
    then show ?thesis by (simp add: drop_drop)
  qed
  then show ?thesis by (simp add: nbsp_ok_def list_all_iff)
qed

lemma utf8_tail_high: "utf8_tail cs r = Some x \<Longrightarrow> \<forall>c \<in> set cs. byte c AND 0x80 \<noteq> 0"
proof (induction cs r rule: utf8_tail.induct)
  case (2 c cs rez)
  then have "byte c AND 0xC0 = 0x80" by (auto split: if_splits)
  then have "bit (byte c AND 0xC0) 7 = bit (0x80::u8) 7" by simp
  then have "bit (byte c AND 0x80) 7" by (simp add: bit_simps)
  then have "byte c AND 0x80 \<noteq> 0" by (metis bit_0_eq bot_apply bot_bool_def)
  with 2 show ?case by (auto split: if_splits)
qed simp

lemma getUTF8_long:
  assumes "getUTF8 u (c # cs) 0 = (len, symb)" "2 \<le> len"
  shows "len \<le> 4" "nat len \<le> length (c # cs)" "\<forall>d \<in> set (take (nat len) (c # cs)). byte d AND 0x80 \<noteq> 0" "u"
proof -
  have *: "len \<le> 4 \<and> nat len \<le> length (c # cs) \<and> u \<and> byte c AND 0x80 \<noteq> 0 \<and> (\<exists>r x. utf8_tail (take (nat len - 1) cs) r = Some x)"
    using assms by (auto simp: getUTF8_def Let_def Suc_le_eq split: if_splits option.splits) (metis+)
  then obtain r x where "utf8_tail (take (nat len - 1) cs) r = Some x" by blast
  from utf8_tail_high [OF this] * assms(2) show "len \<le> 4" "nat len \<le> length (c # cs)"
    "\<forall>d \<in> set (take (nat len) (c # cs)). byte d AND 0x80 \<noteq> 0" "u"
    by (auto simp: take_Cons' split: if_splits)
qed

lemma list_all_bits: "(a::'a::len word) = b \<Longrightarrow> list_all (\<lambda>n. bit a n = bit b n) ns"
  by (simp add: list_all_iff)

lemma getUTF8_two_nbsp:
  assumes "getUTF8 u (c # cs) 0 = (2, Some 0xA0)"
  shows "take 2 (c # cs) = [CHR 0xC2, CHR 0xA0]"
proof -
  have u: "u" "byte c AND 0x80 \<noteq> 0" using assms by (auto simp: getUTF8_def Let_def split: if_splits)
  have lead: "byte c AND 0xE0 = 0xC0"
    using assms u by (auto simp: getUTF8_def Let_def split: if_splits option.splits)
  with assms u obtain d ds where cs: "cs = d # ds" by (cases cs) (auto simp: getUTF8_def)
  with assms u lead have tail: "byte d AND 0xC0 = 0x80"
    and symb: "push_bit 6 (ucast (byte c AND 0x1F)) OR ucast (byte d AND 0x3F) = (0xA0::u32)"
    by (auto simp: getUTF8_def split: if_splits)
  have b1: "\<not> bit (byte c) 5" "bit (byte c) 6" "bit (byte c) 7"
    using list_all_bits [OF lead, of "[5,6,7]"] by (simp_all add: bit_simps)
  have b2: "\<not> bit (byte d) 6" "bit (byte d) 7"
    using list_all_bits [OF tail, of "[6,7]"] by (simp_all add: bit_simps)
  have b3: "\<not> bit (byte d) 0" "\<not> bit (byte d) (Suc 0)" "\<not> bit (byte d) 2" "\<not> bit (byte d) 3" "\<not> bit (byte d) 4" "bit (byte d) 5"
    "\<not> bit (byte c) 0" "bit (byte c) (Suc 0)" "\<not> bit (byte c) 2" "\<not> bit (byte c) 3" "\<not> bit (byte c) 4"
    using list_all_bits [OF symb, of "[0,1,2,3,4,5,6,7,8,9,10]"] by (simp_all add: bit_simps)
  have "byte c = 0xC2" "byte d = 0xA0"
    by (rule word8_eqI, simp add: bit_simps b1 b2 b3, (simp add: numeral_2_eq_2 numeral_3_eq_3)?)+
  then have "c = chr 0xC2" "d = chr 0xA0" by (metis chr_byte)+
  moreover have "chr 0xC2 = CHR 0xC2" "chr 0xA0 = CHR 0xA0" by code_simp+
  ultimately show ?thesis by (simp add: cs)
qed

lemma at_app: "drop p vl = xs @ c # s \<Longrightarrow> at vl (p + length xs) = c \<and> p + length xs < length vl \<and> drop (p + length xs + 1) vl = s"
  using drop_app [of p vl xs "c # s"] drop_cons [of "p + length xs" vl c s] by simp

lemma isxdigit_simps [simp]: "isxdigit (CHR ''0'')" "isxdigit (CHR ''A'')" "\<not> isxdigit (CHR '';'')"
  "isdigit (CHR ''0'')" "isdigit (CHR ''1'')" "isdigit (CHR ''3'')" "isdigit (CHR ''9'')" "\<not> isdigit (CHR '';'')"
  by (simp_all add: isxdigit_def isdigit_def code_def)

lemma ent_code_vals: "ent_code 16 ''00A0'' = 0xA0" "ent_code 10 ''039'' = 39" "ent_code 10 ''010'' = 10"
  by (simp_all add: ent_code_def digits_val_def digit_val_def isdigit_def code_def)

lemma setUTF8_A0: "setUTF8 0xA0 = [CHR 0xC2, CHR 0xA0]"
  by code_simp

lemma chr_vals: "chr 39 = CHR 0x27" "chr 10 = CHR 0x0A"
  by code_simp+

lemma parse_gt: "drop p vl = ''&gt;'' @ r \<Longrightarrow> parseEntity u ent vl p = (p + 3, ''>'')"
  by (simp add: parseEntity_def starts_drop)

lemma parse_lt: "drop p vl = ''&lt;'' @ r \<Longrightarrow> parseEntity u ent vl p = (p + 3, ''<'')"
  by (simp add: parseEntity_def starts_drop)

lemma parse_amp: "drop p vl = ''&amp;'' @ r \<Longrightarrow> parseEntity u ent vl p = (p + 4, ''&'')"
  by (simp add: parseEntity_def starts_drop)

lemma parse_quot: "drop p vl = ''&quot;'' @ r \<Longrightarrow> parseEntity u ent vl p = (p + 5, [CHR 0x22])"
  by (simp add: parseEntity_def starts_drop)

lemma parse_named:
  assumes "drop p vl = e @ r"
    "(e, v) \<in> {(''&gt;'', CHR ''>''), (''&lt;'', CHR ''<''), (''&amp;'', CHR ''&''), (''&quot;'', CHR 0x22)}"
  shows "parseEntity u ent vl p = (p + length e - 1, [v])"
  using assms(2) parse_gt [of p vl r u ent] parse_lt [of p vl r u ent] parse_amp [of p vl r u ent]
    parse_quot [of p vl r u ent] assms(1)
  by (elim insertE emptyE) simp_all

text \<open>None of the named entities begins a code entity.\<close>

lemma code_entity:
  assumes "drop p vl = CHR ''&'' # CHR ''#'' # c # r" "r \<noteq> []"
  shows "parseEntity u ent vl p =
    (if c = CHR ''X'' \<or> c = CHR ''x''
     then let ds = takeWhile isxdigit (take ENT_MAX_SZ r); nEnd = p + 3 + length ds
          in if at vl nEnd \<noteq> CHR '';'' then (p + 1, ''&'') else (nEnd, ent_symb u (ent_code 16 ds))
     else let ds = takeWhile isdigit (take ENT_MAX_SZ (c # r)); nEnd = p + 2 + length ds
          in if at vl nEnd \<noteq> CHR '';'' then (p + 1, ''&'') else (nEnd, ent_symb u (ent_code 10 ds)))"
proof -
  have st: "\<not> starts vl p ''&amp;''" "\<not> starts vl p ''&lt;''" "\<not> starts vl p ''&gt;''" "\<not> starts vl p ''&apos;''"
    "\<not> starts vl p ''&quot;''" "\<not> starts vl p ''&nbsp;''"
    using assms(1) by (simp_all add: starts_drop)
  have l: "p + 3 < length vl" using arg_cong [OF assms(1), of length] assms(2) by (cases r) auto
  note d1 = drop_cons [OF assms(1)]
  from d1 drop_cons [of "p + 1" vl "CHR ''#''" "c # r"] have d2: "at vl (p + 1) = CHR ''#''" "drop (p + 1 + 1) vl = c # r" by auto
  from drop_cons [OF d2(2)] have d3: "at vl (p + 1 + 1) = c" "drop (p + 1 + 1 + 1) vl = r" by auto
  have n: "p + 1 + 1 = p + 2" "p + 1 + 1 + 1 = p + 3" "p + 2 + 1 = p + 3" by simp_all
  show ?thesis
    unfolding parseEntity_def d2(1) using st l d2(2) d3 unfolding n by (simp only: simp_thms if_False if_True)
qed

lemma parse_dec1:
  assumes "drop p vl = ''&#'' @ [x, y, z] @ CHR '';'' # r" "isdigit x" "isdigit y" "isdigit z"
  shows "parseEntity u ent vl p = (p + 5, ent_symb u (ent_code 10 [x, y, z]))"
proof -
  have "drop p vl = CHR ''&'' # CHR ''#'' # x # y # z # CHR '';'' # r" using assms(1) by simp
  note e = code_entity [OF this]
  have "x \<noteq> CHR ''X''" "x \<noteq> CHR ''x''" using assms(2) by (auto simp: isdigit_def code_def)
  moreover have "takeWhile isdigit (take ENT_MAX_SZ (x # y # z # CHR '';'' # r)) = [x, y, z]" using assms by simp
  moreover have "at vl (p + 2 + length [x, y, z]) = CHR '';''"
    using at_app [of p vl "''&#'' @ [x, y, z]" "CHR '';''" r] assms(1) by simp
  ultimately show ?thesis unfolding e [OF list.distinct(2)] by (simp add: Let_def)
qed

lemma parse_nbsp:
  assumes "drop p vl = ''&#x00A0;'' @ r" "u"
  shows "parseEntity u ent vl p = (p + 7, [CHR 0xC2, CHR 0xA0])"
proof -
  have "drop p vl = CHR ''&'' # CHR ''#'' # CHR ''x'' # ''00A0;'' @ r" using assms(1) by simp
  note e = code_entity [OF this]
  have "at vl (p + length ''&#x00A0'') = CHR '';''" using at_app [of p vl "''&#x00A0''" "CHR '';''" r] assms(1) by simp
  moreover have "p + length ''&#x00A0'' = p + 3 + length ''00A0''" by simp
  ultimately have at: "at vl (p + 3 + length ''00A0'') = CHR '';''" by (simp only:)
  have t: "takeWhile isxdigit (take ENT_MAX_SZ (''00A0;'' @ r)) = ''00A0''" by simp
  have v: "ent_symb u 0xA0 = [CHR 0xC2, CHR 0xA0]" using assms(2) by (simp add: ent_symb_def setUTF8_A0)
  have ne: "''00A0;'' @ r \<noteq> []" by simp
  show ?thesis unfolding e [OF ne] t Let_def using at v by (simp add: ent_code_vals)
qed

lemma has_zero [simp]: "\<not> has 0 f"
  by (simp add: has_def)

lemma reads_entity:
  assumes "drop p vl = e @ r" "hd e = CHR ''&''" "e \<noteq> []" "parseEntity u ent vl p = (p + length e - 1, [c])" "CHR ''&'' \<notin> S"
    "reads u ent vl S (p + length e) q s"
  shows "reads u ent vl S p q (c # s)"
proof -
  obtain e' where e: "e = CHR ''&'' # e'" using assms(2,3) by (cases e) auto
  then have "p < length vl" "at vl p = CHR ''&''" using drop_cons [of p vl "CHR ''&''"] assms(1) by auto
  moreover have "p + length e - 1 + 1 = p + length e" using e by simp
  ultimately show ?thesis using reads_ent [of p vl S u ent "p + length e - 1" "[c]" q s] assms(4-6) by simp
qed

lemma repl_reads:
  assumes "repl_str txt 0 c = Some e" "drop p vl = e @ r" "CHR ''&'' \<notin> S" "reads u ent vl S (p + length e) q s"
  shows "reads u ent vl S p q (c # s)"
proof (cases "c = CHR 0x27 \<or> c = CHR 0x0A")
  case True
  then have e: "e = ''&#'' @ (if c = CHR 0x27 then ''039'' else ''010'') @ '';''"
    using assms(1) by (auto simp: repl_str_def code_def split: if_splits)
  then have "parseEntity u ent vl p = (p + length e - 1, [c])"
    using parse_dec1 [of p vl "CHR ''0''" "CHR ''3''" "CHR ''9''" r u ent]
      parse_dec1 [of p vl "CHR ''0''" "CHR ''1''" "CHR ''0''" r u ent] assms(2) True
    by (cases "c = CHR 0x27") (simp_all add: ent_code_vals ent_symb_def chr_vals)
  then show ?thesis using assms e by (intro reads_entity [of p vl e r]) auto
next
  case False
  then have "(e, c) \<in> {(''&gt;'', CHR ''>''), (''&lt;'', CHR ''<''), (''&amp;'', CHR ''&''), (''&quot;'', CHR 0x22)}"
    using assms(1) by (auto simp: repl_str_def code_def split: if_splits)
  with parse_named [OF assms(2) this] assms show ?thesis by (intro reads_entity [of p vl e r]) auto
qed

lemma repl_none:
  assumes "repl_str txt 0 c = None"
  shows "c \<noteq> CHR ''&'' \<and> c \<notin> (if txt then {CHR ''<''} else {CHR 0x22})"
  using assms by (auto simp: repl_str_def code_def split: if_splits)

lemma high_plain: "byte c AND 0x80 \<noteq> 0 \<Longrightarrow> c \<noteq> CHR ''&'' \<and> c \<notin> (if txt then {CHR ''<''} else {CHR 0x22})"
  by (auto simp: byte_def code_def)

lemma nbsp_ok_hd: "nbsp_ok u (c # cs) \<Longrightarrow> getUTF8 u (c # cs) 0 = (l, Some 0xA0) \<Longrightarrow> 2 \<le> l \<Longrightarrow> l = 2"
  by (simp add: nbsp_ok_def upt_conv_Cons del: upt_Suc)

lemma encode_reads:
  assumes "S = (if txt then {CHR ''<''} else {CHR 0x22})"
  shows "drop p vl = xml_encode u txt 0 s @ r \<Longrightarrow> nbsp_ok u s \<Longrightarrow>
    reads u ent vl S p (p + length (xml_encode u txt 0 s)) s"
proof (induction "length s" arbitrary: p s rule: less_induct)
  case less
  show ?case
  proof (cases s)
    case Nil
    then show ?thesis by (simp add: xml_encode.simps reads_nil)
  next
    case (Cons c cs)
    have S: "CHR ''&'' \<notin> S" using assms by simp
    have IH: "reads u ent vl S p' (p' + length (xml_encode u txt 0 (drop k cs))) (drop k cs)"
      if "drop p' vl = xml_encode u txt 0 (drop k cs) @ r" for p' k
      using less.hyps [of "drop k cs" p'] that Cons nbsp_ok_drop [OF less.prems(2), of "Suc k"] by simp
    show ?thesis
    proof (cases "repl_str txt 0 c")
      case (Some e)
      then have d: "drop p vl = e @ xml_encode u txt 0 cs @ r" using less.prems(1) Cons by (simp add: xml_encode.simps)
      from drop_app [OF d] IH [of "p + length e" 0]
      have "reads u ent vl S (p + length e) (p + length e + length (xml_encode u txt 0 cs)) cs" by simp
      with repl_reads [OF Some d S] Some Cons show ?thesis by (simp add: xml_encode.simps add.assoc)
    next
      case None
      obtain len symb where g: "getUTF8 u (c # cs) 0 = (len, symb)" by (cases "getUTF8 u (c # cs) 0")
      show ?thesis
      proof (cases "len \<ge> 2")
        case False
        then have d: "drop p vl = [c] @ xml_encode u txt 0 cs @ r" using less.prems(1) Cons None g by (simp add: xml_encode.simps)
        from drop_app [OF d] IH [of "p + length [c]" 0]
        have "reads u ent vl S (p + length [c]) (p + length [c] + length (xml_encode u txt 0 cs)) cs" by simp
        from reads_plain [OF d _ this] repl_none [OF None] assms Cons None g False show ?thesis
          by (simp add: xml_encode.simps)
      next
        case True
        note long = getUTF8_long [OF g True]
        let ?raw = "take (nat len) (c # cs)" let ?rest = "drop (nat len - 1) cs"
        have s: "s = ?raw @ ?rest" using Cons True by (cases "nat len") auto
        show ?thesis
        proof (cases "symb = Some 0xA0")
          case A0: True
          have two: "len = 2" using nbsp_ok_hd [of u c cs len] less.prems(2) g A0 True Cons by simp
          then have raw: "?raw = [CHR 0xC2, CHR 0xA0]" using getUTF8_two_nbsp [of u c cs] g A0 by simp
          have d: "drop p vl = ''&#x00A0;'' @ xml_encode u txt 0 ?rest @ r"
            using less.prems(1) Cons None g True A0 by (simp add: xml_encode.simps)
          have n8: "p + length ''&#x00A0;'' = p + 8" "p + 7 + 1 = p + 8" by simp_all
          from drop_app [OF d] have "drop (p + 8) vl = xml_encode u txt 0 ?rest @ r" unfolding n8 .
          from IH [OF this]
          have rest: "reads u ent vl S (p + 7 + 1) (p + 8 + length (xml_encode u txt 0 ?rest)) ?rest" unfolding n8 .
          have "p < length vl" "at vl p = CHR ''&''" using drop_cons [of p vl "CHR ''&''"] d by auto
          from reads_ent [OF this S parse_nbsp [OF d long(4)] rest]
          have "reads u ent vl S p (p + 8 + length (xml_encode u txt 0 ?rest)) s" using s raw by metis
          moreover have "length (xml_encode u txt 0 s) = 8 + length (xml_encode u txt 0 ?rest)"
            using Cons None g True A0 by (simp add: xml_encode.simps)
          ultimately show ?thesis by (simp only: add.assoc)
        next
          case no: False
          have d: "drop p vl = ?raw @ xml_encode u txt 0 ?rest @ r"
            using less.prems(1) Cons None g True no by (simp add: xml_encode.simps)
          from drop_app [OF d] IH [of "p + length ?raw" "nat len - 1"]
          have rest: "reads u ent vl S (p + length ?raw) (p + length ?raw + length (xml_encode u txt 0 ?rest)) ?rest" by blast
          have "\<forall>d \<in> set ?raw. d \<notin> S \<and> d \<noteq> CHR ''&''" using long(3) high_plain assms by blast
          from reads_plain [OF d this rest]
          have "reads u ent vl S p (p + length ?raw + length (xml_encode u txt 0 ?rest)) s" using s by metis
          then show ?thesis using Cons None g True no by (simp add: xml_encode.simps add.assoc)
        qed
      qed
    qed
  qed
qed

section \<open>Reading of tags\<close>

definition name_char :: "char \<Rightarrow> bool" where
  "name_char c \<longleftrightarrow> isalpha c \<or> isdigit c \<or> c \<in> {CHR ''_'', CHR ''-'', CHR ''.''}"

definition name_ok :: "string \<Rightarrow> bool" where
  "name_ok nm \<longleftrightarrow> nm \<noteq> [] \<and> list_all name_char nm \<and> isalpha (hd nm)"

lemma name_char_code: "name_char c \<Longrightarrow> code c < 128 \<and> 45 \<le> code c \<and> code c \<noteq> 47 \<and> code c \<notin> {58..64}"
  by (auto simp: name_char_def isalpha_def isdigit_def code_def)

lemma name_char_not: "name_char c \<Longrightarrow> \<not> isSpace c \<and> c \<noteq> CHR ''>'' \<and> c \<noteq> CHR ''/'' \<and> c \<noteq> CHR ''='' \<and> c \<noteq> CHR ''<''"
  using name_char_code [of c] by (auto simp: isSpace_def code_def)

lemma byte_low: "code c < 128 \<Longrightarrow> byte c AND 0x80 = 0"
proof -
  assume "code c < 128"
  then have "unat (byte c) div 2 ^ 7 = 0" by (simp add: code_byte)
  then have "\<not> bit (unat (byte c)) 7" by (simp add: bit_iff_odd)
  then have "\<not> bit (byte c) 7" by (simp add: bit_simps)
  then show ?thesis by (intro word8_eqI) (simp add: bit_simps)
qed

lemma encode_name: "list_all name_char nm \<Longrightarrow> xml_encode u txt 0 nm = nm"
proof (induction nm)
  case (Cons c cs)
  have "repl_str txt 0 c = None" using name_char_code [of c] Cons.prems by (auto simp: repl_str_def code_def)
  moreover have "getUTF8 u (c # cs) 0 = (1, Some (ucast (byte c)))"
    using byte_low [of c] name_char_code [of c] Cons.prems by (simp add: getUTF8_def)
  ultimately show ?case using Cons by (simp add: xml_encode.simps)
qed (simp add: xml_encode.simps)

lemma skip_none: "drop p vl = c # s \<Longrightarrow> \<not> isSpace c \<Longrightarrow> skip_spaces vl p = p"
  using skip_spaces_app [of p vl "[]" c s] by simp

lemma skip_one: "drop p vl = CHR '' '' # c # s \<Longrightarrow> \<not> isSpace c \<Longrightarrow> skip_spaces vl p = p + 1"
  using skip_spaces_app [of p vl "'' ''" c s] by (simp add: isSpace_def)

lemma takeWhile_stop: "\<forall>x \<in> set xs. P x \<Longrightarrow> \<not> P c \<Longrightarrow> takeWhile P (xs @ c # s) = xs"
  by (induction xs) auto

lemma parseAttr_ok:
  assumes d: "drop pos vl = CHR '' '' # k @ CHR ''='' # CHR 0x22 # xml_encode u False 0 v @ CHR 0x22 # r"
    and k: "name_ok k" and v: "nbsp_ok u v"
  shows "parseAttr u ent vl pos (Some (CHR ''='')) =
    Inr (pos + length (CHR '' '' # k @ CHR ''='' # CHR 0x22 # xml_encode u False 0 v @ [CHR 0x22]), Some (k, v))"
proof -
  let ?e = "xml_encode u False 0 v"
  obtain a k' where ka: "k = a # k'" "isalpha a" using k by (cases k) (auto simp: name_ok_def)
  have nk: "\<forall>c \<in> set k. \<not> isSpace c \<and> c \<noteq> CHR ''=''" using k name_char_not by (auto simp: name_ok_def list_all_iff)
  have s0: "skip_spaces vl pos = pos + 1" using skip_one [of pos vl a] d ka nk by simp
  have d0: "drop (pos + 1) vl = k @ CHR ''='' # CHR 0x22 # ?e @ CHR 0x22 # r" using drop_cons [OF d] by simp
  have a0: "at vl (pos + 1) = a" using drop_cons [of "pos + 1" vl a] d0 ka by simp
  have n: "takeWhile (\<lambda>c. \<not> isSpace c \<and> c \<noteq> CHR ''='') (drop (pos + 1) vl) = k"
    unfolding d0 using nk by (intro takeWhile_stop) auto
  let ?p = "pos + 1 + length k"
  note e1 = at_app [OF d0]
  have d1: "drop ?p vl = CHR ''='' # CHR 0x22 # ?e @ CHR 0x22 # r" using drop_app [OF d0] .
  have s1: "skip_spaces vl ?p = ?p" using skip_none [OF d1] by (simp add: isSpace_def)
  have d2: "drop (?p + 1) vl = CHR 0x22 # ?e @ CHR 0x22 # r" using drop_cons [OF d1] by simp
  have s2: "skip_spaces vl (?p + 1) = ?p + 1" using skip_none [OF d2] by (simp add: isSpace_def)
  have d3: "drop (?p + 1 + 1) vl = ?e @ CHR 0x22 # r" and a3: "at vl (?p + 1) = CHR 0x22" using drop_cons [OF d2] by simp_all
  have "reads u ent vl {CHR 0x22} (?p + 1 + 1) (?p + 1 + 1 + length ?e) v"
    by (rule encode_reads [OF _ d3 v]) simp
  moreover have "at vl (?p + 1 + 1 + length ?e) = CHR 0x22" using at_app [OF d3] by simp
  ultimately have val: "attr_val u ent vl (CHR 0x22) (?p + 1 + 1) [] = Inr (?p + 1 + 1 + length ?e, v)"
    using reads_attr [of u ent vl "{CHR 0x22}" _ _ v "CHR 0x22" "[]"] by simp
  have lt: "\<not> ?p \<ge> length vl" using e1 by simp
  have nx: "\<not> (\<not> isalpha a \<and> \<not> isxdigit a)" using ka by simp
  have eq: "at vl ?p = CHR ''=''" using e1 by simp
  show ?thesis
    unfolding parseAttr_def Let_def s0 a0 n s1 if_not_P [OF nx] if_not_P [OF lt]
    using eq s2 a3 val by simp
qed

lemma parseAttr_none:
  assumes "skip_spaces vl pos = p" "\<not> isalpha (at vl p)" "\<not> isxdigit (at vl p)"
  shows "parseAttr u ent vl pos sep = Inr (p, None)"
  using assms by (simp add: parseAttr_def)

lemma parse_attrs_ok:
  assumes "drop pos vl = save_attrs u (\<lambda>s. s) 0 as @ r" "\<forall>(k, v) \<in> set as. name_ok k \<and> nbsp_ok u v"
    "length as < n" "skip_spaces vl (pos + length (save_attrs u (\<lambda>s. s) 0 as)) = p" "\<not> isalpha (at vl p)" "\<not> isxdigit (at vl p)"
  shows "parse_attrs n u ent vl pos = Inr (p, filter (\<lambda>(k, v). v \<noteq> []) as)"
  using assms
proof (induction as arbitrary: n pos)
  case Nil
  then obtain n' where "n = Suc n'" by (cases n) auto
  with Nil parseAttr_none [of vl pos p] show ?case by simp
next
  case (Cons kv as)
  obtain k v where kv: "kv = (k, v)" by (cases kv)
  obtain n' where n: "n = Suc n'" using Cons.prems(3) by (cases n) auto
  show ?case
  proof (cases "v = []")
    case True
    then have sv: "save_attrs u (\<lambda>s. s) 0 (kv # as) = save_attrs u (\<lambda>s. s) 0 as" using kv by simp
    have "parse_attrs n u ent vl pos = Inr (p, filter (\<lambda>(k, v). v \<noteq> []) as)"
      using Cons.prems unfolding sv by (intro Cons.IH) simp_all
    then show ?thesis using True kv by simp
  next
    case False
    let ?h = "CHR '' '' # k @ CHR ''='' # CHR 0x22 # xml_encode u False 0 v @ [CHR 0x22]"
    have nk: "name_ok k" "nbsp_ok u v" using Cons.prems(2) kv by auto
    then have enc: "xml_encode u False 0 k = k" by (simp add: name_ok_def encode_name)
    have sv: "save_attrs u (\<lambda>s. s) 0 (kv # as) = ?h @ save_attrs u (\<lambda>s. s) 0 as" using kv False enc by simp
    have d: "drop pos vl = ?h @ save_attrs u (\<lambda>s. s) 0 as @ r" using Cons.prems(1) unfolding sv by simp
    then have d': "drop pos vl = CHR '' '' # k @ CHR ''='' # CHR 0x22 # xml_encode u False 0 v @ CHR 0x22 #
       (save_attrs u (\<lambda>s. s) 0 as @ r)" by simp
    have IH: "parse_attrs n' u ent vl (pos + length ?h) = Inr (p, filter (\<lambda>(k, v). v \<noteq> []) as)"
      using Cons.prems n drop_app [OF d] unfolding sv length_append by (intro Cons.IH) (simp_all add: add.assoc)
    have a: "parseAttr u ent vl pos (Some (CHR ''='')) = Inr (pos + length ?h, Some (k, v))"
      using parseAttr_ok [OF d' nk, of ent] .
    show ?thesis unfolding n parse_attrs.simps a rbind_simps prod.case option.case IH using kv False by simp
  qed
qed

end
