(* ===== verification/Xml_Roundtrip.thy ===== *)
theory Xml_Roundtrip
  imports Xml_Read
begin

text \<open>
  Saving and loading of XML trees: the text of a tree as a function of the tree, the turns of
  \<open>loadNode\<close> on its start tag, its children and its end tag, and their composition.
\<close>

section \<open>Round trip\<close>




definition conv_attrs :: "(string \<Rightarrow> string) \<Rightarrow> (string \<times> string) list \<Rightarrow> (string \<times> string) list" where
  "conv_attrs co as = map (\<lambda>(k, v). (k, co v)) (filter (\<lambda>(k, v). v \<noteq> []) as)"


















lemma length_conv_attrs: "length (conv_attrs co as) \<le> length (save_attrs u (\<lambda>s. s) 0 (conv_attrs co as)) + length as"
  unfolding conv_attrs_def by (simp add: le_add2 le_trans [OF length_filter_le])

















end
