(* ===== verification/Xml_Total.thy ===== *)
theory Xml_Total
  imports Xml_Read
begin

text \<open>
  The loading of any text ends: the positions never move back over a tag, and the fuel of \<open>load\<close> covers
  the turns (a start of a child is the only turn that does not move the position).
\<close>

section \<open>Loss of symbols\<close>

lemma takeWhile_take_all: "x \<notin> set s \<Longrightarrow> takeWhile (\<lambda>c. c \<noteq> x) (take n s) = take n s"
  by (metis (mono_tags, lifting) in_set_takeD takeWhile_eq_all_conv)

text \<open>
  An ampersand that starts no entity is kept, and the symbol after it is lost.
\<close>

lemma xml_bare_ampersand:
  assumes d: "drop p vl = CHR ''&'' # c # r" and n: "CHR '';'' \<notin> set (c # r)" "c \<noteq> CHR ''#''"
    and f: "has flg (LD_Full OR LD_NoTxtSpcRemEnBeg)"
  shows "text_loop u ent flg vl False p acc = text_loop u ent flg vl False (p + 2) (acc @ ''&'')"
proof -
  have st: "\<not> starts vl p (''&'' @ e @ '';'')" for e
  proof
    assume "starts vl p (''&'' @ e @ '';'')"
    then have "CHR '';'' \<in> set (drop p vl)" unfolding starts_drop
      by (metis append_is_Nil_conv in_set_conv_decomp in_set_takeD list.distinct(1) set_append UnCI list.set_intros(1))
    then show False using d n by simp
  qed
  note d1 = drop_cons [OF d] and d2 = drop_cons [of "p + 1" vl c r]
  have dr: "drop (p + 1) vl = c # r" using d1 by simp
  have h: "at vl (p + 1) \<noteq> CHR ''#''" using d2 [OF dr] n by simp
  have nm: "takeWhile (\<lambda>c. c \<noteq> CHR '';'') (take ENT_MAX_SZ (c # r)) = take ENT_MAX_SZ (c # r)"
    by (rule takeWhile_take_all [OF n(1)])
  have nosemi: "at vl q \<noteq> CHR '';''" if "p + 1 \<le> q" for q
  proof -
    have "at vl q = at (c # r) (q - (p + 1))" using that arg_cong [OF dr, of "\<lambda>s. s ! (q - (p + 1))"] arg_cong [OF dr, of length] d1
      by (auto simp: at_def)
    moreover have "at (c # r) m \<noteq> CHR '';''" for m using n(1) nth_mem [of m "c # r"] unfolding at_def by (cases "m < length (c # r)") auto
    ultimately show ?thesis by simp
  qed
  have "parseEntity u ent vl p = (p + 1, ''&'')"
    using st [of "''amp''"] st [of "''lt''"] st [of "''gt''"] st [of "''apos''"] st [of "''quot''"] st [of "''nbsp''"] h
      nosemi [of "p + 1 + length (take ENT_MAX_SZ (c # r))"]
    unfolding parseEntity_def dr nm Let_def by simp
  then show ?thesis using d1 f by (subst text_loop.simps) simp
qed

section \<open>Termination of the loading\<close>

lemma text_loop_ge: "text_loop u ent flg vl it pos mt = (p, t) \<Longrightarrow> pos \<le> p"
proof (induction u ent flg vl it pos mt arbitrary: p t rule: text_loop.induct)
  case (1 u ent flg vl it pos mt)
  show ?case
  proof (cases "pos \<ge> length vl \<or> at vl pos = CHR ''<''")
    case True
    then show ?thesis using "1.prems" by (subst (asm) text_loop.simps) simp
  next
    case a: False
    obtain q r where e: "parseEntity u ent vl pos = (q, r)" by (cases "parseEntity u ent vl pos")
    show ?thesis using "1.prems" a e "1.IH"(1-4) [OF a]
      by (subst (asm) text_loop.simps) (fastforce split: if_splits)
  qed
qed

lemma attr_val_bound: "attr_val u ent vl brc pos v \<noteq> Inl Diverge \<and>
   (attr_val u ent vl brc pos v = Inr (p, w) \<longrightarrow> brc \<noteq> nul \<longrightarrow> pos \<le> p \<and> p < length vl)"
proof (induction u ent vl brc pos v rule: attr_val.induct)
  case (1 u ent vl brc pos v)
  show ?case
  proof (cases "at vl pos = brc")
    case True
    then show ?thesis by (subst (1 2) attr_val.simps) (auto simp: at_def split: if_splits)
  next
    case a: False
    show ?thesis
    proof (cases "pos \<ge> length vl")
      case True
      then show ?thesis using a by (subst (1 2) attr_val.simps) simp
    next
      case b: False
      obtain q r where e: "parseEntity u ent vl pos = (q, r)" by (cases "parseEntity u ent vl pos")
      show ?thesis
        using "1.IH"(1) [OF a b] "1.IH"(2) [OF a b _ e [symmetric]] a b e
        by (subst (1 2) attr_val.simps) (cases "at vl pos = CHR ''&''"; fastforce)
    qed
  qed
qed

lemma skip_spaces_ge: "pos \<le> skip_spaces vl pos"
  by (simp add: skip_spaces_def)

lemma parseAttr_bound: "parseAttr u ent vl pos sep \<noteq> Inl Diverge \<and>
   (parseAttr u ent vl pos sep = Inr (p, a) \<longrightarrow> pos \<le> p \<and> (a \<noteq> None \<longrightarrow> pos < p \<and> p \<le> length vl))"
proof -
  let ?p0 = "skip_spaces vl pos"
  let ?p1 = "?p0 + length (takeWhile (\<lambda>c. \<not> isSpace c \<and> c \<noteq> CHR ''='') (drop ?p0 vl))"
  let ?p2 = "skip_spaces vl ?p1"
  let ?p3 = "skip_spaces vl (if sep \<noteq> None then ?p2 + 1 else ?p2)"
  have g: "pos \<le> ?p0" "?p1 \<le> ?p2" "?p2 \<le> ?p3"
    using skip_spaces_ge [of pos vl] skip_spaces_ge [of ?p1 vl] skip_spaces_ge [of ?p2 vl] skip_spaces_ge [of "?p2 + 1" vl]
    by auto
  show ?thesis
  proof (cases "\<not> isalpha (at vl ?p0) \<and> \<not> isxdigit (at vl ?p0) \<or> ?p1 \<ge> length vl \<or>
      sep \<noteq> None \<and> at vl ?p2 \<noteq> the sep \<or> at vl ?p3 \<noteq> CHR 0x27 \<and> at vl ?p3 \<noteq> CHR 0x22")
    case True
    then show ?thesis using g unfolding parseAttr_def Let_def by auto
  next
    case False
    then have n: "\<not> (\<not> isalpha (at vl ?p0) \<and> \<not> isxdigit (at vl ?p0))" "\<not> ?p1 \<ge> length vl"
      "\<not> (sep \<noteq> None \<and> at vl ?p2 \<noteq> the sep)" "\<not> (at vl ?p3 \<noteq> CHR 0x27 \<and> at vl ?p3 \<noteq> CHR 0x22)" by blast+
    then have nn: "at vl ?p3 \<noteq> nul" by auto
    have e: "parseAttr u ent vl pos sep = rbind (attr_val u ent vl (at vl ?p3) (?p3 + 1) [])
       (\<lambda>(p4, v). Inr (p4 + 1, Some (takeWhile (\<lambda>c. \<not> isSpace c \<and> c \<noteq> CHR ''='') (drop ?p0 vl), v)))"
      unfolding parseAttr_def Let_def if_not_P [OF n(1)] if_not_P [OF n(2)] if_not_P [OF n(3)] if_not_P [OF n(4)] ..
    show ?thesis
    proof (cases "attr_val u ent vl (at vl ?p3) (?p3 + 1) []")
      case (Inl er)
      then show ?thesis using e attr_val_bound [of u ent vl "at vl ?p3" "?p3 + 1" "[]"] by simp
    next
      case (Inr r)
      obtain p4 v where "r = (p4, v)" by (cases r)
      with Inr attr_val_bound [of u ent vl "at vl ?p3" "?p3 + 1" "[]" p4 v] nn have "?p3 + 1 \<le> p4" "p4 < length vl" by auto
      moreover have "pos \<le> ?p3" using g by linarith
      ultimately show ?thesis using e Inr \<open>r = (p4, v)\<close> by auto
    qed
  qed
qed

lemma parse_attrs_bound: "length vl < n + pos \<Longrightarrow> 0 < n \<Longrightarrow> parse_attrs n u ent vl pos \<noteq> Inl Diverge \<and>
   (parse_attrs n u ent vl pos = Inr (p, kvs) \<longrightarrow> pos \<le> p)"
proof (induction n u ent vl pos arbitrary: p kvs rule: parse_attrs.induct)
  case (2 k u ent vl pos)
  show ?case
  proof (cases "parseAttr u ent vl pos (Some (CHR ''=''))")
    case (Inl e)
    then show ?thesis using parseAttr_bound [of u ent vl pos "Some (CHR ''='')"] by simp
  next
    case (Inr r)
    obtain q a where r: "r = (q, a)" by (cases r)
    have b: "pos \<le> q" "a \<noteq> None \<longrightarrow> pos < q \<and> q \<le> length vl"
      using parseAttr_bound [of u ent vl pos "Some (CHR ''='')" q a] Inr r by auto
    show ?thesis
    proof (cases a)
      case None
      then show ?thesis using Inr r b by simp
    next
      case (Some kv)
      then have "length vl < k + q" "0 < k" using b "2.prems" by auto
      then have "parse_attrs k u ent vl q \<noteq> Inl Diverge" "parse_attrs k u ent vl q = Inr (p', w) \<longrightarrow> q \<le> p'" for p' w
        using "2.IH" [of q] by blast+
      with Inr r Some b(1) show ?thesis
        by (cases "parse_attrs k u ent vl q") fastforce+
    qed
  qed
qed simp

lemma parse_ents_bound: "length vl < n + pos \<Longrightarrow> 0 < n \<Longrightarrow> parse_ents n u ent vl pos \<noteq> Inl Diverge \<and>
   (parse_ents n u ent vl pos = Inr (p, kvs) \<longrightarrow> pos \<le> p)"
proof (induction n u ent vl pos rule: parse_ents.induct)
  case (2 k u ent vl pos)
  show ?case
  proof (cases "parseAttr u ent vl pos None")
    case (Inl e)
    then show ?thesis using parseAttr_bound [of u ent vl pos None] by simp
  next
    case (Inr r)
    obtain q a where r: "r = (q, a)" by (cases r)
    have b: "pos \<le> q" "a \<noteq> None \<longrightarrow> pos < q \<and> q \<le> length vl"
      using parseAttr_bound [of u ent vl pos None q a] Inr r by auto
    show ?thesis
    proof (cases a)
      case None
      then show ?thesis using Inr r b by simp
    next
      case (Some kv)
      then have "length vl < k + q" "0 < k" using b "2.prems" by auto
      with "2.IH" [of q kv] Inr r Some b(1) show ?thesis by fastforce
    qed
  qed
qed simp

lemma doctype_open_bound: "doctype_open vl pos \<noteq> Inl Diverge \<and> (doctype_open vl pos = Inr (p, c) \<longrightarrow> pos < p)"
proof (induction vl pos rule: doctype_open.induct)
  case (1 vl cpos)
  show ?case by (subst (1 2) doctype_open.simps) (use 1 in \<open>fastforce split: if_splits\<close>)
qed

lemma doctype_ents_bound: "length vl < n + pos \<Longrightarrow> 0 < n \<Longrightarrow> doctype_ents n u vl pos ent \<noteq> Inl Diverge \<and>
   (doctype_ents n u vl pos ent = Inr (p, ent') \<longrightarrow> pos < p)"
proof (induction n u vl pos ent rule: doctype_ents.induct)
  case (2 k u vl cpos ent)
  show ?case
  proof (cases "at vl cpos = CHR '']'' \<or> cpos \<ge> length vl")
    case True
    then show ?thesis by auto
  next
    case a: False
    then have k: "0 < k" using "2.prems" by auto
    show ?thesis
    proof (cases "starts vl cpos ''<!ENTITY ''")
      case False
      then have "length vl < k + (cpos + 1)" using "2.prems" by simp
      with "2.IH"(2) a False k show ?thesis by fastforce
    next
      case b: True
      show ?thesis
      proof (cases "parse_ents (length vl + 1) u ent vl (cpos + 9)")
        case (Inl e)
        then show ?thesis using parse_ents_bound [of vl "length vl + 1" "cpos + 9" u ent] a b by simp
      next
        case (Inr r)
        obtain q ent2 where r: "r = (q, ent2)" by (cases r)
        have q: "cpos + 9 \<le> q" using parse_ents_bound [of vl "length vl + 1" "cpos + 9" u ent q ent2] Inr r by simp
        let ?q = "skip_spaces vl q"
        have "cpos + 9 \<le> ?q" using q skip_spaces_ge [of q vl] by simp
        then have l: "length vl < k + (?q + 2)" using "2.prems" by simp
        show ?thesis
        proof (cases "at vl ?q = CHR ''>''")
          case True
          have "doctype_ents (Suc k) u vl cpos ent = doctype_ents k u vl (?q + 2) ent2"
            using a b Inr r True by (simp add: Let_def)
          with "2.IH"(1) [of ?q q ent2] b a True l k \<open>cpos + 9 \<le> ?q\<close> show ?thesis by fastforce
        next
          case False
          then show ?thesis using a b Inr r by (simp add: Let_def)
        qed
      qed
    qed
  qed
qed simp

text \<open>A result with a position of at least \<open>m\<close>, or an error other than a missing end.\<close>

definition ends :: "nat \<Rightarrow> ('a \<times> nat \<times> 'b) res \<Rightarrow> bool" where
  "ends m r \<longleftrightarrow> r \<noteq> Inl Diverge \<and> (\<forall>x p c. r = Inr (x, p, c) \<longrightarrow> m \<le> p)"

lemma ends_err: "ends m (Inl (TError n))"
  by (simp add: ends_def)

lemma ends_ret: "m \<le> p \<Longrightarrow> ends m (Inr (x, p, c))"
  by (simp add: ends_def)

lemma ends_if: "(b \<Longrightarrow> ends m r) \<Longrightarrow> (\<not> b \<Longrightarrow> ends m s) \<Longrightarrow> ends m (if b then r else s)"
  by simp

lemma ends_bind: "r \<noteq> Inl Diverge \<Longrightarrow> (\<And>a b. r = Inr (a, b) \<Longrightarrow> ends m (f (a, b))) \<Longrightarrow> ends m (rbind r f)"
  by (cases r) (auto simp: ends_def)

lemma ends_mono: "ends m r \<Longrightarrow> m' \<le> m \<Longrightarrow> ends m' r"
  by (auto simp: ends_def)

definition need :: "bool \<Rightarrow> string \<Rightarrow> nat \<Rightarrow> nat" where
  "need initTag vl q = 2 * (length vl - q) + (if initTag then 1 else 4)"

definition least :: "bool \<Rightarrow> nat \<Rightarrow> nat" where
  "least initTag q = (if initTag then q + 2 else q)"

lemma ends_opt: "(\<And>e. r = Some e \<Longrightarrow> ends m (f e)) \<Longrightarrow> ends m (case r of None \<Rightarrow> Inl (TError n) | Some e \<Rightarrow> f e)"
  by (cases r) (auto simp: ends_err)

lemma loadNode_ends: "need initTag vl q \<le> k \<Longrightarrow> ends (least initTag q) (loadNode k u conv flg vl initTag x ctx q)"
proof (induction k arbitrary: initTag x ctx q)
  case 0
  then show ?case by (simp add: need_def split: if_splits)
next
  case (Suc k)
  obtain pos mt where t: "text_loop u (cEnt ctx) flg vl initTag q (xtext x) = (pos, mt)" by fastforce
  have q: "q \<le> pos" using text_loop_ge [OF t] .
  let ?x = "with_text x mt"
  show ?case
  proof (cases "pos + 2 \<ge> length vl")
    case True
    then show ?thesis by (simp add: t ends_err)
  next
    case lt: False
    have ih: "ends m (loadNode k u conv flg vl initTag y c q')" if "pos + 2 \<le> q'" "m = least initTag q" for y c q' m
    proof -
      have "need initTag vl q' \<le> k" using Suc.prems that lt q by (auto simp: need_def split: if_splits)
      from Suc.IH [OF this] show ?thesis by (rule ends_mono) (use that q in \<open>auto simp: least_def\<close>)
    qed
    have ihF: "ends (least True q) (loadNode k u conv flg vl False y c q')" if "pos + 2 \<le> q'" "initTag" for y c q'
    proof -
      have "need False vl q' \<le> k" using Suc.prems that lt q by (auto simp: need_def)
      from Suc.IH [OF this] show ?thesis by (rule ends_mono) (use that q in \<open>auto simp: least_def\<close>)
    qed
    have ihC: "ends (pos + 1) (loadNode k u conv flg vl True y c (pos - 1))" if "\<not> initTag" for y c
    proof -
      have "need True vl (pos - 1) \<le> k" using Suc.prems that lt q by (auto simp: need_def)
      from Suc.IH [OF this] show ?thesis by (rule ends_mono) (auto simp: least_def)
    qed
    have ihN: "ends q (loadNode k u conv flg vl False y c q')" if "\<not> initTag" "pos + 1 \<le> q'" for y c q'
    proof -
      have "need False vl q' \<le> k" using Suc.prems that lt q by (auto simp: need_def)
      from Suc.IH [OF this] show ?thesis by (rule ends_mono) (use that q in \<open>auto simp: least_def\<close>)
    qed
    show ?thesis
      unfolding loadNode.simps t prod.case Let_def if_not_P [OF lt]
    proof (intro ends_if ends_opt ends_err ih refl)
      fix e assume "sfind vl ''-->'' (int pos + 4) = Some e"
      from sfind_range [OF this] have "int pos + 4 \<le> e" by simp
      then show "pos + 2 \<le> nat e + 3" by linarith
    next
      show "ends (least initTag q) (rbind (doctype_open vl (pos + 10)) (\<lambda>(cpos, cont).
          if \<not> cont then loadNode k u conv flg vl initTag ?x ctx cpos
          else rbind (doctype_ents (length vl + 1) u vl cpos (cEnt ctx)) (\<lambda>(c1, ent).
            if at vl (skip_spaces vl c1) \<noteq> CHR ''>'' then Inl (TError 0)
            else loadNode k u conv flg vl initTag ?x (ctx\<lparr>cEnt := ent\<rparr>) (skip_spaces vl c1 + 1))))"
        (is "ends _ (rbind ?r ?f)")
      proof (rule ends_bind)
        show "?r \<noteq> Inl Diverge" using doctype_open_bound by blast
        fix cp cont assume "?r = Inr (cp, cont)"
        then have c: "pos + 10 < cp" using doctype_open_bound by blast
        have f: "0 < length vl + 1" "length vl < length vl + 1 + cp" by simp_all
        show "ends (least initTag q) (?f (cp, cont))"
          unfolding prod.case
        proof (intro ends_if ends_bind ih refl)
          show "doctype_ents (length vl + 1) u vl cp (cEnt ctx) \<noteq> Inl Diverge" using doctype_ents_bound [OF f(2,1)] by blast
          fix c1 ent assume "doctype_ents (length vl + 1) u vl cp (cEnt ctx) = Inr (c1, ent)"
          then have "cp < c1" using doctype_ents_bound [OF f(2,1)] by blast
          then have "pos + 2 \<le> skip_spaces vl c1 + 1" using c skip_spaces_ge [of c1 vl] by simp
          then show "ends (least initTag q) (case (c1, ent) of (c1, ent) \<Rightarrow>
            if at vl (skip_spaces vl c1) \<noteq> CHR ''>'' then Inl (TError 0)
            else loadNode k u conv flg vl initTag ?x (ctx\<lparr>cEnt := ent\<rparr>) (skip_spaces vl c1 + 1))"
            unfolding prod.case by (intro ends_if ends_err ih refl)
        qed (use c in simp)
      qed
    next
      fix e assume "sfind vl ''?>'' (int pos + 2) = Some e"
      from sfind_range [OF this] have "int pos + 2 \<le> e" by simp
      then have e: "pos + 2 \<le> nat e + 2" by linarith
      show "ends (least initTag q) (rbind (parse_attrs (length vl + 1) u (cEnt ctx) vl c1) (\<lambda>(uu, kvs).
          loadNode k u conv flg vl initTag x1 (ctx\<lparr>cEnc := g kvs\<rparr>) (nat e + 2)))" for c1 x1 g
      proof (rule ends_bind)
        show "parse_attrs (length vl + 1) u (cEnt ctx) vl c1 \<noteq> Inl Diverge"
          using parse_attrs_bound [of vl "length vl + 1" c1] by simp
      qed (unfold prod.case, rule ih [OF e refl])
      show "pos + 2 \<le> nat e + 2" using e .
      show "pos + 2 \<le> nat e + 2" using e .
    next
      have "least initTag q \<le> skip_spaces vl (pos + 2 + n) + 1" for n
        using skip_spaces_ge [of "pos + 2 + n" vl] q by (simp add: least_def)
      then show "ends (least initTag q) (Inr (y, skip_spaces vl (pos + 2 + n) + 1, ctx))" for y n
        by (rule ends_ret)
    next
      assume it: "initTag"
      show "ends (least initTag q) (rbind (parse_attrs (length vl + 1) u (cEnt ctx) vl (pos + 1 + n))
           (\<lambda>(c1, kvs). if at vl (skip_spaces vl c1) = CHR ''>''
             then loadNode k u conv flg vl False (f kvs) ctx (skip_spaces vl c1 + 1)
             else if starts vl (skip_spaces vl c1) ''/>'' then Inr (f kvs, skip_spaces vl c1 + 2, ctx)
             else Inl (TError 0)))" (is "ends _ (rbind ?r ?f)") for n f
      proof (rule ends_bind)
        show "?r \<noteq> Inl Diverge" using parse_attrs_bound [of vl "length vl + 1" "pos + 1 + n"] by simp
        fix c1 kvs assume "?r = Inr (c1, kvs)"
        then have "pos + 1 \<le> c1" using parse_attrs_bound [of vl "length vl + 1" "pos + 1 + n" u "cEnt ctx" c1 kvs] by simp
        then have c: "pos + 1 \<le> skip_spaces vl c1" using skip_spaces_ge [of c1 vl] by simp
        then show "ends (least initTag q) (?f (c1, kvs))"
          unfolding prod.case using it q ihF
          by (intro ends_if ends_err ends_ret) (simp_all add: least_def)
      qed
    next
      assume it: "\<not> initTag"
      show "ends (least initTag q) (rbind (loadNode k u conv flg vl True (new_node []) ctx (pos - 1))
           (\<lambda>(c, p, ctx'). loadNode k u conv flg vl False (childAdd y c) ctx' p))" for y
      proof (rule ends_bind)
        show "loadNode k u conv flg vl True (new_node []) ctx (pos - 1) \<noteq> Inl Diverge" using ihC [OF it] by (simp add: ends_def)
        fix c pc assume "loadNode k u conv flg vl True (new_node []) ctx (pos - 1) = Inr (c, pc)"
        moreover obtain p ctx' where "pc = (p, ctx')" by (cases pc)
        ultimately show "ends (least initTag q) (case (c, pc) of (c, p, ctx') \<Rightarrow> loadNode k u conv flg vl False (childAdd y c) ctx' p)"
          using ihC [OF it, of "new_node []" ctx] ihN [OF it, of p] it by (simp add: ends_def least_def)
      qed
    qed
  qed
qed


text \<open>C21. Loading a text always ends: with a tree or with an error.\<close>

theorem xml_load_ends: "load u conv flg cp s x \<noteq> Inl Diverge"
proof -
  have "need True (s @ [nul]) 0 \<le> 2 * length s + 10" by (simp add: need_def)
  from loadNode_ends [OF this] have "loadNode (2 * length s + 10) u conv flg (s @ [nul]) True (clear_node x) \<lparr>cEnc = cp, cEnt = []\<rparr> 0 \<noteq> Inl Diverge"
    by (simp add: ends_def)
  then show ?thesis by (auto simp: load_def rbind_def split: sum.splits)
qed

end
