(* ===== verification/Tregexp.thy ===== *)
theory Tregexp
  imports Cpp_String
begin

text \<open>
  The regular expressions of \<^verbatim>\<open>src/src/tvariant.cpp\<close>: the class \<open>TRegExp\<close> with its simple patterns
  (\<open>*\<close> and \<open>?\<close>), searched by its own loop, and the operations on what PCRE finds.  PCRE is not part of
  the program: \<open>pcre_compile\<close> and \<open>pcre_exec\<close> are parameters.  The loops on its results may not end,
  hence they are partial functions, with \<open>None\<close> for a loop that never returns.
\<close>

section \<open>The simple pattern\<close>

text \<open>
  The loop of \<open>test\<close> for a simple pattern: the positions in the value and in the pattern, whether an
  asterisk was passed and the positions to go back to (\<open>-1\<close> for none).  The fuel covers the turns.
\<close>

fun simple_loop :: "nat \<Rightarrow> string \<Rightarrow> string \<Rightarrow> nat \<Rightarrow> nat \<Rightarrow> bool \<Rightarrow> int \<Rightarrow> int \<Rightarrow> bool option" where
  "simple_loop 0 pat vl vCnt pCnt multS vBck pBck = None"
| "simple_loop (Suc k) pat vl vCnt pCnt multS vBck pBck =
     (if pCnt > length pat then Some True
      else if vCnt > length vl then Some False
      else let pCh = at pat pCnt
           in if pCh = CHR ''?'' then simple_loop k pat vl (vCnt + 1) (pCnt + 1) False vBck pBck
              else if pCh = CHR ''*'' then simple_loop k pat vl vCnt (pCnt + 1) True (-1) pBck
              else let p1 = (if pCh = CHR 0x5C then pCnt + 1 else pCnt)
                   in if pCh = at vl vCnt
                      then if multS \<and> vBck < 0 then simple_loop k pat vl (vCnt + 1) (p1 + 1) multS (int vCnt + 1) (int p1)
                           else simple_loop k pat vl (vCnt + 1) (p1 + 1) multS vBck pBck
                      else if multS
                      then if vBck \<ge> 0 then simple_loop k pat vl (nat vBck) (nat pBck) multS (-1) pBck
                           else simple_loop k pat vl (vCnt + 1) p1 multS vBck pBck
                      else Some False)"

definition simple_test :: "string \<Rightarrow> string \<Rightarrow> bool res" where
  "simple_test pat vl =
     (case simple_loop ((length vl + 3) * (length pat + 4)) pat vl 0 0 False (-1) (-1) of
        Some b \<Rightarrow> Inr b | None \<Rightarrow> Inl Diverge)"

text \<open>Where the search of the current part of the pattern began.\<close>

definition seg_start :: "bool \<Rightarrow> int \<Rightarrow> nat \<Rightarrow> nat" where
  "seg_start multS vBck v = (if multS \<and> vBck \<ge> 0 then nat vBck - 1 else v)"

definition back_ok :: "int \<Rightarrow> nat \<Rightarrow> bool" where
  "back_ok vBck v \<longleftrightarrow> (vBck \<ge> 0 \<longrightarrow> 1 \<le> vBck \<and> vBck \<le> int v)"

definition turns_left :: "string \<Rightarrow> string \<Rightarrow> nat \<Rightarrow> nat \<Rightarrow> nat" where
  "turns_left pat vl st p = (length vl + 2 - st) * (length pat + 4) + (length pat + 3 - p)"

lemma turns_left_pos: "st \<le> length vl + 1 \<Longrightarrow> st < st' \<Longrightarrow> turns_left pat vl st p < Suc k \<Longrightarrow> turns_left pat vl st' p' < k"
proof -
  assume a: "st \<le> length vl + 1" "st < st'" "turns_left pat vl st p < Suc k"
  define x where "x = length vl + 2 - st'"
  have "x + 1 \<le> length vl + 2 - st" using a(1,2) x_def by simp
  then have "(x + 1) * (length pat + 4) \<le> (length vl + 2 - st) * (length pat + 4)" by (rule mult_le_mono1)
  then have "x * (length pat + 4) + (length pat + 4) \<le> (length vl + 2 - st) * (length pat + 4)" by (simp add: algebra_simps)
  then show ?thesis using a(3) unfolding turns_left_def x_def [symmetric] by linarith
qed

lemma turns_left_same: "p \<le> length pat \<Longrightarrow> p < p' \<Longrightarrow> turns_left pat vl st p < Suc k \<Longrightarrow> turns_left pat vl st p' < k"
  by (simp add: turns_left_def)

lemma turns_left_step: "st \<le> length vl + 1 \<Longrightarrow> p \<le> length pat \<Longrightarrow> st \<le> st' \<Longrightarrow> st < st' \<or> p < p' \<Longrightarrow>
   turns_left pat vl st p < Suc k \<Longrightarrow> turns_left pat vl st' p' < k"
  using turns_left_pos [of st vl st' pat p k p'] turns_left_same [of p pat p' vl st k] by (cases "st = st'") auto

lemma ne_if: "(b \<Longrightarrow> r \<noteq> None) \<Longrightarrow> (\<not> b \<Longrightarrow> s \<noteq> None) \<Longrightarrow> (if b then r else s) \<noteq> None"
  by simp

lemma simple_loop_ends:
  "back_ok vBck v \<Longrightarrow> v \<le> length vl + 1 \<Longrightarrow> turns_left pat vl (seg_start multS vBck v) p < k \<Longrightarrow>
   simple_loop k pat vl v p multS vBck pBck \<noteq> None"
proof (induction k arbitrary: v p multS vBck pBck)
  case (Suc k)
  let ?st = "seg_start multS vBck v"
  have ih: "simple_loop k pat vl v' p' m b q \<noteq> None"
    if "back_ok b v'" "v' \<le> length vl + 1" "?st \<le> seg_start m b v'" "?st < seg_start m b v' \<or> p < p'" "p \<le> length pat" for v' p' m b q
  proof -
    have "?st \<le> length vl + 1" using Suc.prems(1,2) by (auto simp: seg_start_def back_ok_def)
    from turns_left_step [OF this that(5,3,4) Suc.prems(3)] show ?thesis by (intro Suc.IH) (use that in auto)
  qed
  show ?case
  proof (cases "p > length pat \<or> v > length vl")
    case False
    then have b: "\<not> p > length pat" "\<not> v > length vl" "p \<le> length pat" "v \<le> length vl" by auto
    show ?thesis
      unfolding simple_loop.simps Let_def if_not_P [OF b(1)] if_not_P [OF b(2)]
      using Suc.prems(1) b(3,4)
      by (intro ne_if ih) (simp_all add: seg_start_def back_ok_def; arith)+
  qed auto
qed simp


section \<open>Patterns\<close>

text \<open>The texts of a pattern in which an asterisk stands for any text; \<open>glob\<close> must use up the text, \<open>pglob\<close> not.\<close>

fun glob :: "string \<Rightarrow> string \<Rightarrow> bool" where
  "glob [] v = (v = [])"
| "glob (c # p) [] = (c = CHR ''*'' \<and> glob p [])"
| "glob (c # p) (d # w) = (if c = CHR ''*'' then glob p (d # w) \<or> glob (c # p) w else c = d \<and> glob p w)"

fun pglob :: "string \<Rightarrow> string \<Rightarrow> bool" where
  "pglob [] v = True"
| "pglob (c # p) [] = (c = CHR ''*'' \<and> pglob p [])"
| "pglob (c # p) (d # w) = (if c = CHR ''*'' then pglob p (d # w) \<or> pglob (c # p) w else c = d \<and> pglob p w)"

lemma pglob_star: "pglob (CHR ''*'' # p) v \<longleftrightarrow> (\<exists>k \<le> length v. pglob p (drop k v))"
proof (induction v)
  case Nil
  then show ?case by simp
next
  case (Cons c v)
  have "(\<exists>k \<le> length (c # v). pglob p (drop k (c # v))) \<longleftrightarrow> pglob p (c # v) \<or> (\<exists>k \<le> length v. pglob p (drop k v))"
  proof
    assume "\<exists>k \<le> length (c # v). pglob p (drop k (c # v))"
    then obtain k where "k \<le> length (c # v)" "pglob p (drop k (c # v))" by blast
    then show "pglob p (c # v) \<or> (\<exists>k \<le> length v. pglob p (drop k v))" by (cases k) auto
  next
    assume "pglob p (c # v) \<or> (\<exists>k \<le> length v. pglob p (drop k v))"
    then show "\<exists>k \<le> length (c # v). pglob p (drop k (c # v))"
      by (metis Suc_le_mono drop0 drop_Suc_Cons length_Cons zero_le)
  qed
  with Cons show ?case by simp
qed

lemma pglob_lits:
  "CHR ''*'' \<notin> set ls \<Longrightarrow> pglob (ls @ p) v \<longleftrightarrow> take (length ls) v = ls \<and> pglob p (drop (length ls) v)"
proof (induction ls arbitrary: v)
  case (Cons c ls)
  then show ?case by (cases v) auto
qed simp

lemma pglob_nul_Nil: "\<not> pglob (p @ [nul]) []"
  by (induction p) auto

lemma pglob_nul:
  "nul \<notin> set p \<Longrightarrow> nul \<notin> set v \<Longrightarrow> pglob (p @ [nul]) (v @ [nul]) = glob p v"
proof (induction p v rule: glob.induct)
  case (1 v)
  then show ?case by (cases v) auto
next
  case (2 c p)
  then show ?case using pglob_nul_Nil [of "c # p"] by auto
next
  case (3 c p d w)
  then show ?case by auto
qed

lemma pglob_star_mono: "pglob (CHR ''*'' # p) (drop j v) \<Longrightarrow> i \<le> j \<Longrightarrow> pglob (CHR ''*'' # p) (drop i v)"
proof -
  assume a: "pglob (CHR ''*'' # p) (drop j v)" "i \<le> j"
  then obtain k where k: "k \<le> length (drop j v)" "pglob p (drop (k + j) v)" by (auto simp: pglob_star)
  show ?thesis
  proof (cases "j \<le> length v")
    case True
    then have "k + j - i \<le> length (drop i v)" "drop (k + j - i) (drop i v) = drop (k + j) v" using k(1) a(2) by auto
    then show ?thesis unfolding pglob_star using k(2) by metis
  next
    case False
    then have "length (drop i v) \<le> length (drop i v)" "drop (length (drop i v)) (drop i v) = drop (k + j) v" by auto
    then show ?thesis unfolding pglob_star using k(2) by metis
  qed
qed

lemma pglob_star_step: "v < length vv \<Longrightarrow> pglob (CHR ''*'' # p) (drop v vv) \<longleftrightarrow> pglob p (drop v vv) \<or> pglob (CHR ''*'' # p) (drop (v + 1) vv)"
  by (simp add: Cons_nth_drop_Suc [symmetric])

section \<open>The simple pattern finds the texts of the pattern\<close>

text \<open>
  Between the turns: from the start of the current part, the symbols of the pattern from \<open>pBck\<close> up to
  the position equal those of the value from \<open>vBck - 1\<close>.
\<close>

definition seg_ok :: "string \<Rightarrow> string \<Rightarrow> nat \<Rightarrow> nat \<Rightarrow> int \<Rightarrow> int \<Rightarrow> bool" where
  "seg_ok pp vv v p vBck pBck \<longleftrightarrow> (vBck \<ge> 0 \<longrightarrow>
     (\<exists>ls. 1 \<le> vBck \<and> 0 \<le> pBck \<and> vBck \<le> int v \<and> int (length ls) = int v - vBck + 1 \<and> CHR ''*'' \<notin> set ls \<and>
        drop (nat pBck) pp = ls @ drop p pp \<and> drop (nat vBck - 1) vv = ls @ drop v vv))"

definition found :: "string \<Rightarrow> string \<Rightarrow> nat \<Rightarrow> nat \<Rightarrow> bool \<Rightarrow> int \<Rightarrow> int \<Rightarrow> bool" where
  "found pp vv v p multS vBck pBck =
     (if \<not> multS then pglob (drop p pp) (drop v vv)
      else if vBck \<ge> 0 then pglob (CHR ''*'' # drop (nat pBck) pp) (drop (nat vBck - 1) vv)
      else pglob (CHR ''*'' # drop p pp) (drop v vv))"

lemma at_nul: "i \<le> length s \<Longrightarrow> at s i = (s @ [nul]) ! i"
  by (auto simp: at_def nth_append)

lemma seg_okE:
  assumes "seg_ok pp vv v p b q" "b \<ge> 0"
  obtains ls where "1 \<le> b" "0 \<le> q" "b \<le> int v" "int (length ls) = int v - b + 1" "CHR ''*'' \<notin> set ls"
    "drop (nat q) pp = ls @ drop p pp" "drop (nat b - 1) vv = ls @ drop v vv"
  using assms unfolding seg_ok_def by blast

lemma pglob_starI: "pglob p v \<Longrightarrow> pglob (CHR ''*'' # p) v"
  by (cases v; cases p) auto

lemma found_end:
  assumes "seg_ok pp vv v p b q" "p = length pp"
  shows "found pp vv v p m b q"
proof (cases "m \<and> b \<ge> 0")
  case True
  with assms(1) obtain ls where ls: "CHR ''*'' \<notin> set ls" "drop (nat q) pp = ls @ drop p pp" "drop (nat b - 1) vv = ls @ drop v vv"
    by (elim seg_okE) auto
  have "pglob (drop (nat q) pp) (drop (nat b - 1) vv)"
    unfolding ls(2,3) pglob_lits [OF ls(1)] using assms(2) by simp
  then show ?thesis using True by (simp add: found_def pglob_starI)
next
  case False
  have "pglob (CHR ''*'' # []) w" for w by (rule pglob_starI) simp
  then show ?thesis using False assms(2) by (auto simp: found_def)
qed

lemma found_star:
  assumes "seg_ok pp vv v p b q" "p < length pp" "pp ! p = CHR ''*''"
  shows "found pp vv v p m b q = found pp vv v (p + 1) True (-1) q'"
proof -
  have d: "drop p pp = CHR ''*'' # drop (p + 1) pp" using assms(2,3) by (simp add: Cons_nth_drop_Suc [symmetric])
  have ss: "pglob (CHR ''*'' # CHR ''*'' # x) w = pglob (CHR ''*'' # x) w" for x w
    by (induction w) auto
  show ?thesis
  proof (cases "m \<and> b \<ge> 0")
    case True
    with assms(1) obtain ls where ls: "CHR ''*'' \<notin> set ls" "drop (nat q) pp = ls @ drop p pp" "drop (nat b - 1) vv = ls @ drop v vv"
      "b \<le> int v" "int (length ls) = int v - b + 1" "1 \<le> b"
      by (elim seg_okE) auto
    have "pglob (CHR ''*'' # drop (nat q) pp) (drop (nat b - 1) vv) \<longleftrightarrow> pglob (drop p pp) (drop v vv)"
    proof
      assume "pglob (CHR ''*'' # drop (nat q) pp) (drop (nat b - 1) vv)"
      then obtain k where "pglob (ls @ drop p pp) (drop (k + (nat b - 1)) vv)" unfolding pglob_star ls(2) by auto
      then have "pglob (drop p pp) (drop (length ls + (k + (nat b - 1))) vv)" unfolding pglob_lits [OF ls(1)] by simp
      moreover have "v \<le> length ls + (k + (nat b - 1))" using ls(4-6) by linarith
      ultimately show "pglob (drop p pp) (drop v vv)" unfolding d by (rule pglob_star_mono)
    next
      assume "pglob (drop p pp) (drop v vv)"
      then have "pglob (drop (nat q) pp) (drop (nat b - 1) vv)" unfolding ls(2,3) pglob_lits [OF ls(1)] by simp
      then show "pglob (CHR ''*'' # drop (nat q) pp) (drop (nat b - 1) vv)" by (rule pglob_starI)
    qed
    then show ?thesis using True by (simp add: found_def d)
  next
    case False
    then show ?thesis by (auto simp: found_def d ss)
  qed
qed

lemma found_match:
  assumes "seg_ok pp vv v p b q" "p < length pp" "v < length vv" "pp ! p = vv ! v" "pp ! p \<noteq> CHR ''*''" "m \<or> b < 0"
  shows "m \<and> b < 0 \<Longrightarrow> found pp vv v p m b q = found pp vv (v + 1) (p + 1) m (int v + 1) (int p) \<and>
      seg_ok pp vv (v + 1) (p + 1) (int v + 1) (int p)"
    "\<not> (m \<and> b < 0) \<Longrightarrow> found pp vv v p m b q = found pp vv (v + 1) (p + 1) m b q \<and> seg_ok pp vv (v + 1) (p + 1) b q"
proof -
  have d: "drop p pp = pp ! p # drop (p + 1) pp" "drop v vv = pp ! p # drop (v + 1) vv"
    using Cons_nth_drop_Suc [OF assms(2)] Cons_nth_drop_Suc [OF assms(3)] assms(4) by simp_all
  show "m \<and> b < 0 \<Longrightarrow> found pp vv v p m b q = found pp vv (v + 1) (p + 1) m (int v + 1) (int p) \<and>
      seg_ok pp vv (v + 1) (p + 1) (int v + 1) (int p)"
    using d assms(5) by (auto simp: found_def seg_ok_def nat_add_distrib intro!: exI [of _ "[pp ! p]"])
  assume n: "\<not> (m \<and> b < 0)"
  show "found pp vv v p m b q = found pp vv (v + 1) (p + 1) m b q \<and> seg_ok pp vv (v + 1) (p + 1) b q"
  proof (cases "b \<ge> 0")
    case True
    then have m: "m" using assms(6) by simp
    from assms(1) True obtain ls where ls: "1 \<le> b" "0 \<le> q" "b \<le> int v" "int (length ls) = int v - b + 1" "CHR ''*'' \<notin> set ls"
      "drop (nat q) pp = ls @ drop p pp" "drop (nat b - 1) vv = ls @ drop v vv" by (elim seg_okE)
    have "seg_ok pp vv (v + 1) (p + 1) b q"
      unfolding seg_ok_def using ls d assms(5) by (auto intro!: exI [of _ "ls @ [pp ! p]"])
    then show ?thesis using m True by (simp add: found_def)
  next
    case False
    then have "\<not> m" using n by simp
    then show ?thesis using False d assms(5) by (simp add: found_def seg_ok_def)
  qed
qed

lemma found_mismatch:
  assumes "seg_ok pp vv v p b q" "p < length pp" "v < length vv" "pp ! p \<noteq> vv ! v" "pp ! p \<noteq> CHR ''*''"
  shows "\<not> m \<Longrightarrow> \<not> found pp vv v p m b q"
    "m \<Longrightarrow> b \<ge> 0 \<Longrightarrow> found pp vv v p m b q = found pp vv (nat b) (nat q) m (-1) q"
    "m \<Longrightarrow> b < 0 \<Longrightarrow> found pp vv v p m b q = found pp vv (v + 1) p m b q"
proof -
  have d: "drop p pp = pp ! p # drop (p + 1) pp" "drop v vv = vv ! v # drop (v + 1) vv"
    using assms(2-4) by (simp_all add: Cons_nth_drop_Suc)
  then have no: "\<not> pglob (drop p pp) (drop v vv)" using assms(4,5) by simp
  then show "\<not> m \<Longrightarrow> \<not> found pp vv v p m b q" by (simp add: found_def)
  show "m \<Longrightarrow> b < 0 \<Longrightarrow> found pp vv v p m b q = found pp vv (v + 1) p m b q"
    using no pglob_star_step [OF assms(3)] by (simp add: found_def)
  assume m: "m" "b \<ge> 0"
  from assms(1) m(2) obtain ls where ls: "1 \<le> b" "b \<le> int v" "CHR ''*'' \<notin> set ls"
    "drop (nat q) pp = ls @ drop p pp" "drop (nat b - 1) vv = ls @ drop v vv" by (elim seg_okE)
  have "\<not> pglob (drop (nat q) pp) (drop (nat b - 1) vv)" unfolding ls(4,5) pglob_lits [OF ls(3)] using no by simp
  moreover have "nat b - 1 < length vv" using ls(1,2) assms(3) by linarith
  moreover have "nat b - 1 + 1 = nat b" using ls(1) by linarith
  ultimately show "found pp vv v p m b q = found pp vv (nat b) (nat q) m (-1) q"
    using m pglob_star_step [of "nat b - 1" vv "drop (nat q) pp"] by (simp add: found_def)
qed

lemma found_no_more:
  assumes "seg_ok pp vv v p b q" "p < length pp" "v = length vv" "pp = pat @ [nul]" "nul \<notin> set pat" "vv = vl @ [nul]"
  shows "\<not> found pp vv v p m b q"
proof -
  obtain x where x: "drop p pp = x @ [nul]" using assms(2,4) by simp
  have no: "\<not> pglob (drop p pp) []" "\<not> pglob (CHR ''*'' # drop p pp) []"
    unfolding x using pglob_nul_Nil [of x] pglob_nul_Nil [of "CHR ''*'' # x"] by simp_all
  have "\<not> (m \<and> b \<ge> 0)"
  proof
    assume "m \<and> b \<ge> 0"
    with assms(1) obtain ls where ls: "b \<le> int v" "int (length ls) = int v - b + 1"
      "drop (nat q) pp = ls @ drop p pp" "drop (nat b - 1) vv = ls @ drop v vv" by (elim seg_okE) auto
    have "ls \<noteq> []" using ls(1,2) by auto
    moreover have "drop (nat b - 1) vv = ls" using ls(4) assms(3) by simp
    ultimately have "last ls = nul" using assms(6) by (metis last_appendR last_drop last_snoc list.distinct(1) drop_eq_Nil2 leI)
    then have l: "nul \<in> set ls" using \<open>ls \<noteq> []\<close> by (metis last_in_set)
    have "drop (nat q) pp = (ls @ x) @ [nul]" using ls(3) x by simp
    then have "drop (nat q) pat @ drop (nat q - length pat) [nul] = (ls @ x) @ [nul]" using assms(4) by simp
    then have "set (ls @ x) \<subseteq> set (drop (nat q) pat)"
      by (cases "nat q - length pat") auto
    then show False using l assms(5) set_drop_subset [of "nat q" pat] by auto
  qed
  then show ?thesis using no assms(3) by (auto simp: found_def)
qed

lemma simple_loop_found:
  assumes pat: "nul \<notin> set pat" "CHR ''?'' \<notin> set pat" "CHR 0x5C \<notin> set pat" and vl: "nul \<notin> set vl"
    and pp: "pp = pat @ [nul]" and vv: "vv = vl @ [nul]"
  shows "simple_loop k pat vl v p m b q = Some r \<Longrightarrow> seg_ok pp vv v p b q \<Longrightarrow>
     (m \<or> b < 0) \<Longrightarrow> v \<le> length vv \<Longrightarrow> p \<le> length pp \<Longrightarrow> r = found pp vv v p m b q"
proof (induction k arbitrary: v p m b q)
  case (Suc k)
  have len: "length pp = length pat + 1" "length vv = length vl + 1" using pp vv by simp_all
  show ?case
  proof (cases "p > length pat")
    case True
    then show ?thesis using Suc.prems found_end [OF Suc.prems(2)] len by simp
  next
    case p: False
    show ?thesis
    proof (cases "v > length vl")
      case True
      then show ?thesis using Suc.prems p found_no_more [OF Suc.prems(2) _ _ pp pat(1) vv] len by simp
    next
      case v: False
      have pl: "p < length pp" "v < length vv" using p v len by simp_all
      have a: "at pat p = pp ! p" "at vl v = vv ! v" using at_nul p v pp vv by simp_all
      have "pp ! p \<in> set pat \<union> {nul}" using pl(1) nth_mem [OF pl(1)] pp by simp
      then have n: "pp ! p \<noteq> CHR ''?''" "pp ! p \<noteq> CHR 0x5C" using pat by auto
      note step = Suc.prems(1) [unfolded simple_loop.simps Let_def if_not_P [OF p] if_not_P [OF v] a if_not_P [OF n(1)]
        if_not_P [OF n(2)]]
      show ?thesis
      proof (cases "pp ! p = CHR ''*''")
        case True
        then have "simple_loop k pat vl v (p + 1) True (-1) q = Some r" using step by simp
        from Suc.IH [OF this] Suc.prems(4) pl show ?thesis
          using found_star [OF Suc.prems(2) pl(1) True, of m q] by (simp add: seg_ok_def)
      next
        case ns: False
        show ?thesis
        proof (cases "pp ! p = vv ! v")
          case eq: True
          note fm = found_match [OF Suc.prems(2) pl eq ns Suc.prems(3)]
          show ?thesis
          proof (cases "m \<and> b < 0")
            case True
            then have "simple_loop k pat vl (v + 1) (p + 1) m (int v + 1) (int p) = Some r" using step ns eq by simp
            from Suc.IH [OF this] fm(1) [OF True] True pl show ?thesis by simp
          next
            case False
            then have "simple_loop k pat vl (v + 1) (p + 1) m b q = Some r" using step ns eq by (simp split: if_splits)
            from Suc.IH [OF this] fm(2) [OF False] Suc.prems(3) pl show ?thesis by simp
          qed
        next
          case neq: False
          note fm = found_mismatch [OF Suc.prems(2) pl neq ns]
          show ?thesis
          proof (cases "m")
            case False
            then show ?thesis using step ns neq fm(1) by simp
          next
            case m: True
            show ?thesis
            proof (cases "b \<ge> 0")
              case True
              from Suc.prems(2) True obtain ls where ls: "b \<le> int v" "int (length ls) = int v - b + 1"
                "drop (nat q) pp = ls @ drop p pp" by (elim seg_okE)
              then have "0 < length (drop (nat q) pp)" by (cases ls) simp_all
              then have bq: "nat b \<le> length vv" "nat q \<le> length pp" using ls(1) pl by simp_all
              have "simple_loop k pat vl (nat b) (nat q) m (-1) q = Some r" using step ns neq m True by simp
              from Suc.IH [OF this] bq m True fm(2) show ?thesis by (simp add: seg_ok_def)
            next
              case False
              then have "simple_loop k pat vl (v + 1) p m b q = Some r" using step ns neq m by simp
              from Suc.IH [OF this] pl m False fm(3) show ?thesis by (simp add: seg_ok_def)
            qed
          qed
        qed
      qed
    qed
  qed
qed simp


theorem simple_test_glob:
  assumes "nul \<notin> set pat" "CHR ''?'' \<notin> set pat" "CHR 0x5C \<notin> set pat" "nul \<notin> set vl"
  shows "simple_test pat vl = Inr (glob pat vl)"
proof -
  let ?k = "(length vl + 3) * (length pat + 4)"
  have "turns_left pat vl (seg_start False (-1) 0) 0 < ?k"
    by (simp add: turns_left_def seg_start_def algebra_simps)
  then have "simple_loop ?k pat vl 0 0 False (-1) (-1) \<noteq> None"
    by (intro simple_loop_ends) (simp_all add: back_ok_def)
  then obtain r where r: "simple_loop ?k pat vl 0 0 False (-1) (-1) = Some r" by blast
  have "r = found (pat @ [nul]) (vl @ [nul]) 0 0 False (-1) (-1)"
    by (rule simple_loop_found [OF assms refl refl r]) (simp_all add: seg_ok_def)
  then show ?thesis using r pglob_nul [OF assms(1,4)] by (simp add: simple_test_def found_def)
qed

section \<open>Regular expressions\<close>

text \<open>
  A compiled expression: from the text and the position to start at to the count PCRE returns and the
  vector of the captures (their begins and ends, \<open>-1\<close> for a group that took no part).
\<close>

type_synonym pcre = "string \<Rightarrow> int \<Rightarrow> int \<times> (int \<times> int) list"

record regexp =
  lastIndex :: int
  pattern :: string
  global :: bool
  ignoreCase :: bool
  multiline :: bool
  ungreedy :: bool
  isSimplePat :: bool
  UTF8 :: bool
  regex :: "pcre option"

text \<open>The options and the pattern of \<open>pcre_compile\<close>, which may give nothing.\<close>

type_synonym pcre_compile = "bool \<Rightarrow> bool \<Rightarrow> bool \<Rightarrow> bool \<Rightarrow> string \<Rightarrow> pcre option"

definition setPattern :: "pcre_compile \<Rightarrow> string \<Rightarrow> string \<Rightarrow> regexp \<Rightarrow> regexp" where
  "setPattern compile rule flg o1 =
     (let p = CHR ''p'' \<in> set flg;
          simple = (p \<and> \<not> (length rule > 2 \<and> hd rule = CHR ''/'' \<and> last rule = CHR ''/''));
          pat = (if p then if \<not> simple then butlast (tl rule) else if rule = [] then ''*'' else rule else rule);
          ic = CHR ''i'' \<in> set flg; ml = CHR ''m'' \<in> set flg; ug = CHR ''U'' \<in> set flg; u8 = CHR ''u'' \<in> set flg
      in o1\<lparr>global := CHR ''g'' \<in> set flg, ignoreCase := ic, multiline := ml, ungreedy := ug, UTF8 := u8,
            isSimplePat := simple, pattern := pat,
            regex := (if \<not> simple \<and> pat \<noteq> [] then compile ic ml ug u8 (takeWhile (\<lambda>c. c \<noteq> nul) pat) else None)\<rparr>)"

definition regexp_new :: "pcre_compile \<Rightarrow> string \<Rightarrow> string \<Rightarrow> regexp" where
  "regexp_new compile rule flg =
     setPattern compile rule flg \<lparr>lastIndex = 0, pattern = rule, global = False, ignoreCase = False, multiline = False,
       ungreedy = False, isSimplePat = False, UTF8 = False, regex = None\<rparr>"

text \<open>The captured text; the text of a group that took no part is empty.\<close>

definition cap_text :: "string \<Rightarrow> int \<times> int \<Rightarrow> string" where
  "cap_text vl ab = take (nat (snd ab - fst ab)) (drop (nat (fst ab)) vl)"

definition test :: "regexp \<Rightarrow> string \<Rightarrow> (regexp \<times> bool) res" where
  "test re vl =
     (if isSimplePat re then rbind (simple_test (pattern re) vl) (\<lambda>b. Inr (re, b))
      else case regex re of
        None \<Rightarrow> Inr (re, False)
      | Some f \<Rightarrow> (case f vl (if global re then lastIndex re else 0) of (n, cs) \<Rightarrow>
          Inr (if global re then re\<lparr>lastIndex := (if n > 0 then snd (hd cs) else 0)\<rparr> else re, n > 0)))"

definition search :: "regexp \<Rightarrow> string \<Rightarrow> int \<Rightarrow> int \<times> int" where
  "search re vl off =
     (case regex re of
        None \<Rightarrow> (-1, 0)
      | Some f \<Rightarrow> (case f vl off of (n, cs) \<Rightarrow> if n > 0 then (fst (hd cs), snd (hd cs) - fst (hd cs)) else (-1, 0)))"

text \<open>The array \<open>match\<close> gives: its items and its properties \<open>index\<close> and \<open>input\<close>, or \<open>err\<close>.\<close>

record match_arr =
  mItems :: "string list"
  mIndex :: "(int \<times> string) option"
  mErr :: "int option"

partial_function (option) match_all :: "pcre \<Rightarrow> string \<Rightarrow> int \<Rightarrow> string list option" where
  "match_all f vl curPos =
     (case f vl curPos of (n, cs) \<Rightarrow>
        if n > 0 \<and> snd (hd cs) > fst (hd cs)
        then Option.bind (match_all f vl (snd (hd cs))) (\<lambda>r. Some (cap_text vl (hd cs) # r))
        else Some [])"

definition match :: "regexp \<Rightarrow> string \<Rightarrow> bool \<Rightarrow> (regexp \<times> match_arr) option" where
  "match re vl all =
     (case regex re of
        None \<Rightarrow> Some (re, \<lparr>mItems = [], mIndex = None, mErr = None\<rparr>)
      | Some f \<Rightarrow>
          if all \<and> global re
          then Option.bind (match_all f vl 0) (\<lambda>r. Some (re, \<lparr>mItems = r, mIndex = None, mErr = None\<rparr>))
          else (case f vl (if global re then lastIndex re else 0) of (n, cs) \<Rightarrow>
            Some (if global re then re\<lparr>lastIndex := (if n > 0 then snd (hd cs) else 0)\<rparr> else re,
                  \<lparr>mItems = map (cap_text vl) (take (nat n) cs),
                   mIndex = (if n > 0 then Some (fst (hd cs), vl) else None),
                   mErr = (if n < 0 then Some n else None)\<rparr>)))"

lemma subst_dec:
  assumes "sfind rez ''$'' (int c0) = Some cp" "nat cp + 1 < length rez" "length ins \<le> k" "0 < m"
  shows "length (take (nat cp) rez @ ins @ drop (nat cp + m) rez) - (nat cp + k) < length rez - c0"
proof -
  have "c0 \<le> nat cp" using sfind_range [OF assms(1)] by linarith
  then show ?thesis using assms(2-4) by simp
qed

text \<open>\<open>substExprRepl\<close>: the references of \<open>str\<close> to the captures.\<close>

function subst_loop :: "string \<Rightarrow> (int \<times> int) list \<Rightarrow> int \<Rightarrow> string \<Rightarrow> nat \<Rightarrow> string res" where
  "subst_loop val cs n rez cpos0 =
     (if n \<le> 0 then Inr rez
      else case sfind rez ''$'' (int cpos0) of
        None \<Rightarrow> Inr rez
      | Some cp \<Rightarrow>
          let cpos = nat cp; a = nat (fst (hd cs)); b = nat (snd (hd cs)); pre = take cpos rez
          in if \<not> cpos + 1 < length rez then Inr rez
             else if rez ! (cpos + 1) = CHR ''$'' then subst_loop val cs n (pre @ ''$'' @ drop (cpos + 2) rez) (cpos + 1)
             else if rez ! (cpos + 1) = CHR 0x60
             then subst_loop val cs n (pre @ take a val @ drop (cpos + 2) rez) (cpos + a)
             else if rez ! (cpos + 1) = CHR 0x27
             then subst_loop val cs n (pre @ drop b val @ drop (cpos + 2) rez) (cpos + (length val - b))
             else if rez ! (cpos + 1) = CHR ''&''
             then subst_loop val cs n (pre @ take (b - a) (drop a val) @ drop (cpos + 2) rez) (cpos + b)
             else let nd0 = (if isdigit (rez ! (cpos + 1)) then 1 else 0);
                      nd = (if nd0 = 1 \<and> cpos + 2 < length rez \<and> isdigit (rez ! (cpos + 2)) then 2 else nd0);
                      subexp = s2i (take nd (drop (cpos + 1) rez))
                  in if 0 < subexp \<and> subexp < n
                     then let ab = cs ! nat subexp
                          in if fst ab < 0 \<or> fst ab > int (length val) then Inl OutOfRange
                             else subst_loop val cs n (pre @ cap_text val ab @ drop (cpos + nd + 1) rez)
                                    (cpos + length (cap_text val ab))
                     else subst_loop val cs n (pre @ drop (cpos + nd + 1) rez) cpos)"
  by pat_completeness auto
termination
proof (relation "measure (\<lambda>(val, cs, n, rez, cpos). length rez - cpos)", goal_cases)
  case (2 val cs n rez cpos0 cp cpos a b pre)
  have "length (''$'') \<le> 1" "0 < (2::nat)" by simp_all
  from subst_dec [OF 2(2) _ this] 2(7) show ?case
    unfolding in_measure prod.case 2(6) 2(3) not_not by (simp only: add.assoc)
next
  case (3 val cs n rez cpos0 cp cpos a b pre)
  have "length (take a val) \<le> a" "0 < (2::nat)" by simp_all
  from subst_dec [OF 3(2) _ this] 3(7) show ?case
    unfolding in_measure prod.case 3(6) 3(3) not_not by (simp only: add.assoc)
next
  case (4 val cs n rez cpos0 cp cpos a b pre)
  have "length (drop b val) \<le> length val - b" "0 < (2::nat)" by simp_all
  from subst_dec [OF 4(2) _ this] 4(7) show ?case
    unfolding in_measure prod.case 4(6) 4(3) not_not by (simp only: add.assoc)
next
  case (5 val cs n rez cpos0 cp cpos a b pre)
  have "length (take (b - a) (drop a val)) \<le> b" "0 < (2::nat)" by simp_all
  from subst_dec [OF 5(2) _ this] 5(7) show ?case
    unfolding in_measure prod.case 5(6) 5(3) not_not by (simp only: add.assoc)
next
  case (6 val cs n rez cpos0 cp cpos a b pre nd0 nd subexp ab)
  have "length (cap_text val ab) \<le> length (cap_text val ab)" "0 < nd + (1::nat)" by simp_all
  from subst_dec [OF 6(2) _ this] 6(7) show ?case
    unfolding in_measure prod.case 6(6) 6(3) not_not by (simp only: add.assoc)
next
  case (7 val cs n rez cpos0 cp cpos a b pre nd0 nd subexp)
  have "length ([]) \<le> 0" "0 < nd + (1::nat)" by simp_all
  from subst_dec [OF 7(2) _ this] 7(7) show ?case
    unfolding in_measure prod.case 7(6) 7(3) not_not by (simp only: append_Nil add_0_right add.assoc)
qed simp

definition substExprRepl :: "string \<Rightarrow> string \<Rightarrow> (int \<times> int) list \<Rightarrow> int \<Rightarrow> string res" where
  "substExprRepl str val cs n = subst_loop val cs n str 0"

partial_function (option) replace_loop :: "bool \<Rightarrow> pcre \<Rightarrow> string \<Rightarrow> string \<Rightarrow> int \<Rightarrow> string res option" where
  "replace_loop glb f str rez curPos =
     (if curPos = 0 \<or> glb
      then case f rez curPos of (n, cs) \<Rightarrow>
        if n > 0 \<and> snd (hd cs) \<ge> fst (hd cs)
        then case substExprRepl str rez cs n of
            Inl e \<Rightarrow> Some (Inl e)
          | Inr repl \<Rightarrow> replace_loop glb f str (take (nat (fst (hd cs))) rez @ repl @ drop (nat (snd (hd cs))) rez)
                         (fst (hd cs) + int (length repl))
        else Some (Inr rez)
      else Some (Inr rez))"

definition replace :: "regexp \<Rightarrow> string \<Rightarrow> string \<Rightarrow> string res option" where
  "replace re vl str =
     (case regex re of None \<Rightarrow> Some (Inr vl) | Some f \<Rightarrow> replace_loop (global re) f str vl 0)"

partial_function (option) split_loop :: "pcre \<Rightarrow> string \<Rightarrow> int \<Rightarrow> int \<Rightarrow> int \<Rightarrow> (string list \<times> int \<times> int) option" where
  "split_loop f vl limit curPos iN =
     (case f vl curPos of (se, cs) \<Rightarrow>
        if se > 0 \<and> snd (hd cs) > fst (hd cs) \<and> (limit = 0 \<or> iN < limit)
        then let groups = map (cap_text vl) (take (nat se - 1) (tl cs));
                 gs = (if limit = 0 then groups else take (nat (limit - (iN + 1))) groups)
             in Option.bind (split_loop f vl limit (snd (hd cs)) (iN + 1 + int (length gs)))
                  (\<lambda>(r, p, i). Some (cap_text vl (curPos, fst (hd cs)) # gs @ r, p, i))
        else Some ([], curPos, iN))"

definition split :: "regexp \<Rightarrow> string \<Rightarrow> int \<Rightarrow> string list option" where
  "split re vl limit =
     (case regex re of
        None \<Rightarrow> Some []
      | Some f \<Rightarrow> Option.bind (split_loop f vl limit 0 0) (\<lambda>(r, curPos, iN).
          Some (if curPos \<le> int (length vl) \<and> (limit = 0 \<or> iN < limit) then r @ [drop (nat curPos) vl] else r)))"


declare subst_loop.simps [simp del]

lemma subst_plain: "CHR ''$'' \<notin> set str \<Longrightarrow> substExprRepl str val cs n = Inr str"
  by (simp add: substExprRepl_def subst_loop.simps [of val cs n str 0] sfind_char)

lemma replace_loop_none:
  assumes "f vl 0 = (n, (0, 0) # cs)" "0 < n"
  shows "replace_loop g f [] vl 0 = None"
proof -
  have "f' = f \<and> str = [] \<and> vl' = vl \<and> c = 0 \<longrightarrow> False" if "replace_loop g' f' str vl' c = Some r" for g' f' str vl' c r
    using _ that
  proof (rule replace_loop.raw_induct [of "\<lambda>g' f' str vl' c r. f' = f \<and> str = [] \<and> vl' = vl \<and> c = 0 \<longrightarrow> False"])
    fix loop g' f' str vl' c r
    assume ih: "\<And>g' f' str vl' c r. loop g' f' str vl' c = Some r \<Longrightarrow> f' = f \<and> str = [] \<and> vl' = vl \<and> c = 0 \<longrightarrow> False"
      and e: "(if c = 0 \<or> g' then case f' vl' c of (n, cs) \<Rightarrow>
        if 0 < n \<and> fst (hd cs) \<le> snd (hd cs) then case substExprRepl str vl' cs n of Inl e \<Rightarrow> Some (Inl e)
          | Inr repl \<Rightarrow> loop g' f' str (take (nat (fst (hd cs))) vl' @ repl @ drop (nat (snd (hd cs))) vl') (fst (hd cs) + int (length repl))
        else Some (Inr vl') else Some (Inr vl')) = Some r"
    show "f' = f \<and> str = [] \<and> vl' = vl \<and> c = 0 \<longrightarrow> False"
    proof
      assume "f' = f \<and> str = [] \<and> vl' = vl \<and> c = 0"
      with e assms have "loop g' f [] vl 0 = Some r" by (simp add: subst_plain)
      from ih [OF this] show False by simp
    qed
  qed
  then show ?thesis by (cases "replace_loop g f [] vl 0") blast+
qed

section \<open>The properties\<close>

text \<open>C23. A simple pattern of symbols and asterisks, without question marks and back slashes, is found in
  exactly the texts it stands for; the search always ends.  An empty pattern stands for every text.\<close>

theorem regexp_simple_glob:
  assumes "\<not> (length pat > 2 \<and> hd pat = CHR ''/'' \<and> last pat = CHR ''/'')"
    "nul \<notin> set pat" "CHR ''?'' \<notin> set pat" "CHR 0x5C \<notin> set pat" "nul \<notin> set vl"
  shows "test (regexp_new compile pat ''p'') vl =
    Inr (regexp_new compile pat ''p'', glob (if pat = [] then ''*'' else pat) vl)"
proof -
  have "isSimplePat (regexp_new compile pat ''p'')" "pattern (regexp_new compile pat ''p'') = (if pat = [] then ''*'' else pat)"
    using assms(1) by (auto simp: regexp_new_def setPattern_def Let_def)
  moreover have "simple_test (if pat = [] then ''*'' else pat) vl = Inr (glob (if pat = [] then ''*'' else pat) vl)"
    by (rule simple_test_glob) (use assms in auto)
  ultimately show ?thesis by (simp add: test_def)
qed

theorem regexp_simple_glob_witness:
  "test (regexp_new (\<lambda>_ _ _ _ _. None) ''*ab*c'' ''p'') ''xaabc'' =
    Inr (regexp_new (\<lambda>_ _ _ _ _. None) ''*ab*c'' ''p'', glob ''*ab*c'' ''xaabc'')"
  using regexp_simple_glob [of "''*ab*c''" "''xaabc''" "\<lambda>_ _ _ _ _. None"] by simp

text \<open>C24. A replacement that is not global replaces the first match and nothing else by the substituted
  replacement, when the match is not at the begin of the text or what it is replaced by is not empty; a replacement
  without references is put as it is.\<close>

theorem regexp_replace_once:
  assumes "regex re = Some f" "\<not> global re" "f vl 0 = (n, (a, b) # cs)" "0 < n" "0 \<le> a" "a \<le> b"
    "substExprRepl str vl ((a, b) # cs) n = Inr repl" "0 < a \<or> repl \<noteq> []"
  shows "replace re vl str = Some (Inr (take (nat a) vl @ repl @ drop (nat b) vl)) \<and> (CHR ''$'' \<notin> set str \<longrightarrow> repl = str)"
proof -
  have "a + int (length repl) \<noteq> 0" using assms(5,8) by (cases repl) auto
  then have "replace_loop False f str (take (nat a) vl @ repl @ drop (nat b) vl) (a + int (length repl)) =
    Some (Inr (take (nat a) vl @ repl @ drop (nat b) vl))"
    by (subst replace_loop.simps) simp
  then have "replace_loop False f str vl 0 = Some (Inr (take (nat a) vl @ repl @ drop (nat b) vl))"
    using assms(3-7) by (subst replace_loop.simps) simp
  then show ?thesis using assms(1,2,7) by (auto simp: replace_def subst_plain)
qed

theorem regexp_replace_once_witness:
  "replace \<lparr>lastIndex = 0, pattern = ''b'', global = False, ignoreCase = False, multiline = False, ungreedy = False,
     isSimplePat = False, UTF8 = False, regex = Some (\<lambda>s p. (1, [(1, 2)]))\<rparr> ''abc'' ''XY'' = Some (Inr ''aXYc'')"
  using regexp_replace_once [of "\<lparr>lastIndex = 0, pattern = ''b'', global = False, ignoreCase = False, multiline = False,
     ungreedy = False, isSimplePat = False, UTF8 = False, regex = Some (\<lambda>s p. (1, [(1, 2)]))\<rparr>" "\<lambda>s p. (1, [(1, 2)])" "''abc''"
     1 1 2 "[]" "''XY''" "''XY''"]
  by (simp add: subst_plain)

text \<open>C25. A replacement by the empty text never ends when the first match in the text is the empty one at its
  begin, also when it is not global.\<close>

theorem regexp_replace_never_ends:
  assumes "regex re = Some f" "f vl 0 = (n, (0, 0) # cs)" "0 < n"
  shows "replace re vl [] = None"
  using assms replace_loop_none [of f vl n cs "global re"] by (simp add: replace_def)

theorem regexp_replace_never_ends_witness:
  "replace \<lparr>lastIndex = 0, pattern = ''^'', global = False, ignoreCase = False, multiline = False, ungreedy = False,
     isSimplePat = False, UTF8 = False, regex = Some (\<lambda>s p. if p = 0 then (1, [(0, 0)]) else (-1, []))\<rparr> ''abc'' [] = None"
  by (rule regexp_replace_never_ends [of _ "\<lambda>s p. if p = 0 then (1, [(0, 0)]) else (-1, [])" _ 1 "[]"]) simp_all

section \<open>Faults\<close>

text \<open>A question mark after an asterisk stops the going back; a back slash is compared itself.\<close>

lemma simple_question_fault: "simple_test ''*a?b'' ''aXaYb'' = Inr False"
  by code_simp

lemma simple_escape_fault: "simple_test [CHR 0x5C, CHR ''*''] ''*'' = Inr False" "simple_test [CHR 0x5C, CHR ''*''] [CHR 0x5C] = Inr True"
  by code_simp+

text \<open>A reference after \<open>$&\<close> is lost when the match is not at the begin; one to a group that took no part throws.\<close>

lemma subst_lost_reference:
  "substExprRepl ''$&$1'' ''xxxxab'' [(4, 6), (5, 6)] 2 = Inr ''ab$1''"
  "substExprRepl ''$1'' ''a'' [(0, 1), (-1, -1)] 2 = Inl OutOfRange"
  by code_simp+

text \<open>A replacement of a match at the begin by the empty text is repeated, though it is not global.\<close>

lemma replace_repeated:
  assumes "f ''aab'' 0 = (1, [(0, 1)])" "f ''ab'' 0 = (1, [(0, 1)])" "f ''b'' 0 = (-1, [])"
  shows "replace_loop False f [] ''aab'' 0 = Some (Inr ''b'')"
  using assms by (subst replace_loop.simps, simp add: subst_plain, subst replace_loop.simps, simp add: subst_plain,
    subst replace_loop.simps, simp add: subst_plain)

end
