(* ===== verification/Mess_Buf.thy ===== *)
theory Mess_Buf
  imports Tsys_Path Tregexp "HOL-Library.AList" "HOL-Library.Multiset"
begin

text \<open>
  The messages of the archive subsystem, \<^verbatim>\<open>src/src/tarchives.cpp\<close>: the ring buffer of the last messages
  with its readers (the message archivers, each with the index \<open>messHead\<close> of its first unread message),
  the active alarms, the requests for messages and the turns of the archiving task.  The archivers'
  own \<open>put\<close>, \<open>get\<close>, \<open>begin\<close> and \<open>end\<close> are those of modules, hence parameters; time is read through the
  parameter \<open>now\<close>, from the number of the reading to the time.
\<close>

section \<open>Records and state\<close>

record srec =
  rtime :: int
  rutime :: int
  rcateg :: string
  rlevel :: int
  rmess :: string

definition empty_rec :: srec where
  "empty_rec = \<lparr>rtime = 0, rutime = 0, rcateg = [], rlevel = 0, rmess = []\<rparr>"

definition FTM :: "srec \<Rightarrow> int" where
  "FTM r = rtime r * 1000000 + rutime r"

text \<open>An archiver that takes part in the archiving: its identifier and the index of its reading.\<close>

record reader =
  rdId :: string
  messHead :: int

record mess_arch =
  mBuf :: "srec list"
  headBuf :: nat
  actMess :: "reader list"
  mAlarms :: "(string \<times> srec) list"

text \<open>The archivers of all the modules: the identifiers with the start status.\<close>

type_synonym archs = "(string \<times> bool) list"

abbreviation ARCH_BUF :: string where "ARCH_BUF \<equiv> ''<buffer>''"
abbreviation ARCH_ALRM :: string where "ARCH_ALRM \<equiv> ''<alarms>''"
abbreviation ARCH_ALRM_CH :: string where "ARCH_ALRM_CH \<equiv> ''<alarmsChange>''"
abbreviation ARCH_NOALRM :: string where "ARCH_NOALRM \<equiv> ''<noalarms>''"

text \<open>The archives named in an argument, the tokens between semicolons up to the first empty one.\<close>

definition arch_map :: "string \<Rightarrow> string list res" where
  "arch_map arch = deb_cats_loop (length arch + 1) arch 0"

section \<open>Putting\<close>

text \<open>The alarms after a record, and whether the record is an alarm known already.\<close>

definition put_alarm :: "bool \<Rightarrow> bool \<Rightarrow> srec \<Rightarrow> (string \<times> srec) list \<Rightarrow> (string \<times> srec) list \<times> bool" where
  "put_alarm rdEnable changeOnly rec alarms =
     (let p = map_of alarms (rcateg rec)
      in if (\<exists>a. p = Some a \<and> rlevel rec < 0 \<and> \<bar>rlevel rec\<bar> = rlevel a \<and> rdEnable \<and> rmess rec = rmess a \<and> FTM rec \<ge> FTM a)
         then (alarms, True)
         else let al1 = (if rlevel rec < 0 \<and> (case p of None \<Rightarrow> \<not> changeOnly | Some a \<Rightarrow> FTM rec \<ge> FTM a \<or> rdEnable)
                         then AList.update (rcateg rec) (rec\<lparr>rlevel := to_i8 \<bar>rlevel rec\<bar>\<rparr>) alarms else alarms);
                  al2 = (if rlevel rec \<ge> 0 \<and> (case p of None \<Rightarrow> False | Some a \<Rightarrow> FTM rec \<ge> FTM a)
                         then AList.delete (rcateg rec) al1 else al1)
              in (al2, False))"

definition push_reader :: "nat \<Rightarrow> nat \<Rightarrow> reader \<Rightarrow> reader" where
  "push_reader n head r =
     (if messHead r \<ge> 0 \<and> messHead r = int head
      then r\<lparr>messHead := (if messHead r + 1 \<ge> int n then 0 else messHead r + 1)\<rparr> else r)"

definition put_buf :: "srec \<Rightarrow> mess_arch \<Rightarrow> mess_arch res" where
  "put_buf rec st =
     rbind (vset (mBuf st) (int (headBuf st)) rec) (\<lambda>buf.
       let head = (if headBuf st + 1 \<ge> length buf then 0 else headBuf st + 1)
       in Inr (st\<lparr>mBuf := buf, headBuf := head, actMess := map (push_reader (length buf) head) (actMess st)\<rparr>))"

text \<open>
  The direct putting to the archivers: an archiver gets the list by reference and may change it, hence
  the next one gets what the former one left; an error of one is passed over.  The result is the list
  of the calls with their arguments.
\<close>

fun put_archs :: "(string \<Rightarrow> srec list \<Rightarrow> srec list) \<Rightarrow> bool \<Rightarrow> string list \<Rightarrow> archs \<Rightarrow> srec list \<Rightarrow> (string \<times> srec list) list" where
  "put_archs aput all am [] ml = []"
| "put_archs aput all am ((wid, started) # as) ml =
     (if started \<and> (all \<or> wid \<in> set am) then (wid, ml) # put_archs aput all am as (aput wid ml)
      else put_archs aput all am as ml)"

definition messPut :: "bool \<Rightarrow> (string \<Rightarrow> srec list \<Rightarrow> srec list) \<Rightarrow> archs \<Rightarrow> string \<Rightarrow> srec \<Rightarrow> mess_arch \<Rightarrow>
    (mess_arch \<times> (string \<times> srec list) list) res" where
  "messPut rdEnable aput archs arch rec st =
     rbind (arch_map arch) (\<lambda>am.
       case (if (arch = [] \<or> ARCH_BUF \<in> set am \<or> ARCH_ALRM \<in> set am \<or> ARCH_ALRM_CH \<in> set am) \<and> ARCH_NOALRM \<notin> set am
             then put_alarm rdEnable (ARCH_ALRM_CH \<in> set am) rec (mAlarms st) else (mAlarms st, False)) of
         (alarms, known) \<Rightarrow>
           if known then Inr (st, [])
           else rbind (if arch = [] \<or> ARCH_NOALRM \<in> set am \<or> ARCH_BUF \<in> set am
                       then put_buf rec (st\<lparr>mAlarms := alarms\<rparr>) else Inr (st\<lparr>mAlarms := alarms\<rparr>)) (\<lambda>st1.
                  Inr (st1, if ARCH_BUF \<notin> set am then put_archs aput (arch = []) am archs [rec] else [])))"

fun messPut_list :: "bool \<Rightarrow> (string \<Rightarrow> srec list \<Rightarrow> srec list) \<Rightarrow> archs \<Rightarrow> string \<Rightarrow> srec list \<Rightarrow> mess_arch \<Rightarrow>
    (mess_arch \<times> (string \<times> srec list) list) res" where
  "messPut_list rdEnable aput archs arch [] st = Inr (st, [])"
| "messPut_list rdEnable aput archs arch (r # rs) st =
     rbind (messPut rdEnable aput archs arch r st) (\<lambda>(st1, c1).
       rbind (messPut_list rdEnable aput archs arch rs st1) (\<lambda>(st2, c2). Inr (st2, c1 @ c2)))"

section \<open>The walk over the buffer\<close>

text \<open>The loops of \<open>messGet\<close>, \<open>messBeg\<close> and \<open>messEnd\<close>: all the cells from \<open>headBuf\<close> around.\<close>

fun buf_loop :: "nat \<Rightarrow> srec list \<Rightarrow> nat \<Rightarrow> (srec \<Rightarrow> 'a \<Rightarrow> 'a) \<Rightarrow> nat \<Rightarrow> 'a \<Rightarrow> 'a res" where
  "buf_loop 0 buf head f iBuf acc = Inl Diverge"
| "buf_loop (Suc k) buf head f iBuf acc =
     rbind (vat buf (int iBuf)) (\<lambda>r.
       let acc' = f r acc; i = (if iBuf + 1 \<ge> length buf then 0 else iBuf + 1)
       in if i = head then Inr acc' else buf_loop k buf head f i acc')"

definition walk_buf :: "mess_arch \<Rightarrow> (srec \<Rightarrow> 'a \<Rightarrow> 'a) \<Rightarrow> 'a \<Rightarrow> 'a res" where
  "walk_buf st f acc = buf_loop (length (mBuf st) + 1) (mBuf st) (headBuf st) f (headBuf st) acc"

section \<open>Requests\<close>

fun ins_pos :: "srec list \<Rightarrow> srec \<Rightarrow> nat \<Rightarrow> nat \<Rightarrow> nat" where
  "ins_pos recs x 0 iP = iP"
| "ins_pos recs x (Suc iM) iP =
     (if FTM (recs ! iM) > FTM x then ins_pos recs x iM iM
      else if FTM (recs ! iM) < FTM x then iP
      else ins_pos recs x iM iP)"

definition ins_rec :: "srec \<Rightarrow> srec list \<Rightarrow> srec list" where
  "ins_rec x recs = (let iP = ins_pos recs x (length recs) (length recs) in take iP recs @ x # drop iP recs)"

text \<open>The test of the category, \<open>TRegExp re(category, "p")\<close>, which never fails.\<close>

definition re_test :: "pcre_compile \<Rightarrow> string \<Rightarrow> string \<Rightarrow> bool" where
  "re_test compile category cat =
     (case test (regexp_new compile category ''p'') cat of Inr (_, b) \<Rightarrow> b | Inl _ \<Rightarrow> False)"

definition get_rec :: "(string \<Rightarrow> bool) \<Rightarrow> int \<Rightarrow> int \<Rightarrow> int \<Rightarrow> srec \<Rightarrow> bool" where
  "get_rec re bTm eTm level r \<longleftrightarrow>
     rtime r \<ge> bTm \<and> rtime r \<noteq> 0 \<and> rtime r \<le> eTm \<and> messLevelTest level (rlevel r) \<and> re (rcateg r)"

text \<open>
  The archivers' part: modules are lists of archivers; the time is read before each archiver and ends
  the list of its module.
\<close>

fun get_module :: "(nat \<Rightarrow> int) \<Rightarrow> int \<Rightarrow> (string \<Rightarrow> srec list \<Rightarrow> srec list \<times> int) \<Rightarrow> bool \<Rightarrow> string list \<Rightarrow> archs \<Rightarrow>
    nat \<times> srec list \<times> int \<Rightarrow> nat \<times> srec list \<times> int" where
  "get_module now upTo aget all am [] s = s"
| "get_module now upTo aget all am ((wid, started) # as) (n, recs, result) =
     (if \<not> now n < upTo then (n + 1, recs, result)
      else if started \<and> (all \<or> wid \<in> set am)
      then case aget wid recs of (recs', t) \<Rightarrow> get_module now upTo aget all am as (n + 1, recs', min result t)
      else get_module now upTo aget all am as (n + 1, recs, result))"

definition get_alarm :: "(string \<Rightarrow> bool) \<Rightarrow> int \<Rightarrow> int \<Rightarrow> int \<Rightarrow> srec \<Rightarrow> bool" where
  "get_alarm re bTm eTm level r \<longleftrightarrow>
     (rtime r \<ge> bTm \<or> bTm = eTm) \<and> rtime r \<le> eTm \<and> messLevelTest level (rlevel r) \<and> re (rcateg r)"

text \<open>
  The active alarms are sorted by the pairs of their time and their address; \<open>addr\<close> gives the addresses.
  The levels of the reported alarms are negative.
\<close>

definition get_alarms :: "(string \<Rightarrow> int) \<Rightarrow> (string \<Rightarrow> bool) \<Rightarrow> int \<Rightarrow> int \<Rightarrow> int \<Rightarrow> (string \<times> srec) list \<Rightarrow> srec list" where
  "get_alarms addr re bTm eTm level alarms =
     map (\<lambda>r. if rlevel r > 0 then r\<lparr>rlevel := to_i8 (rlevel r * -1)\<rparr> else r)
       (sort_key FTM (map snd (sort_key (\<lambda>kv. addr (fst kv)) (filter (\<lambda>kv. get_alarm re bTm eTm level (snd kv)) alarms))))"

record get_env =
  gCompile :: pcre_compile
  gNow :: "nat \<Rightarrow> int"
  gCurTime :: int
  gInterfTm :: int
  gModules :: "archs list"
  gGet :: "string \<Rightarrow> int \<Rightarrow> srec list \<Rightarrow> srec list \<times> int"
  gAddr :: "string \<Rightarrow> int"

definition messGet :: "get_env \<Rightarrow> int \<Rightarrow> int \<Rightarrow> string \<Rightarrow> int \<Rightarrow> string \<Rightarrow> int \<Rightarrow> mess_arch \<Rightarrow> (srec list \<times> int) res" where
  "messGet ev bTm eTm category level arch upTo0 st =
     rbind (arch_map arch) (\<lambda>am.
       let result0 = min eTm (tdiv (gCurTime ev) 1000000 - 1);
           n0 = (if upTo0 = 0 then 1 else 0);
           upTo = (if upTo0 = 0 then gNow ev 0 + gInterfTm ev else upTo0);
           re = re_test (gCompile ev) category
       in rbind (if level \<ge> 0 \<and> (arch = [] \<or> ARCH_BUF \<in> set am)
                 then walk_buf st (\<lambda>r recs. if get_rec re bTm eTm level r then ins_rec r recs else recs) [] else Inr []) (\<lambda>recs.
            let (n1, recs1, result) =
                  (if arch \<noteq> ARCH_BUF \<and> arch \<noteq> ARCH_ALRM \<and> level \<ge> 0
                   then fold (get_module (gNow ev) upTo (\<lambda>wid. gGet ev wid (if arch \<noteq> [] then upTo else 0)) (arch = []) am)
                          (gModules ev) (n0, recs, result0)
                   else (n0, recs, result0));
                recs2 = (if level < 0 then recs1 @ get_alarms (gAddr ev) re bTm eTm level (mAlarms st) else recs1)
            in Inr (recs2, result)))"

definition beg_step :: "srec \<Rightarrow> int \<Rightarrow> int" where
  "beg_step r rez = (if rez \<noteq> 0 then min rez (rtime r) else rtime r)"

definition end_step :: "srec \<Rightarrow> int \<Rightarrow> int" where
  "end_step r rez = (if rez \<noteq> 0 then max rez (rtime r) else rtime r)"

text \<open>\<open>messBeg\<close> and \<open>messEnd\<close>; \<open>abeg\<close> and \<open>aend\<close> are the ranges of the archivers.\<close>

definition messBeg :: "archs \<Rightarrow> (string \<Rightarrow> int) \<Rightarrow> string \<Rightarrow> mess_arch \<Rightarrow> int res" where
  "messBeg archs abeg arch st =
     rbind (if arch = [] \<or> arch = ARCH_BUF then walk_buf st beg_step 0 else Inr 0) (\<lambda>rez.
       if arch = ARCH_BUF then Inr rez
       else Inr (foldl (\<lambda>rez (wid, started). if started \<and> (arch = [] \<or> arch = wid)
                   then (if rez \<noteq> 0 then min rez (abeg wid) else abeg wid) else rez) rez archs))"

definition messEnd :: "archs \<Rightarrow> (string \<Rightarrow> int) \<Rightarrow> string \<Rightarrow> mess_arch \<Rightarrow> int res" where
  "messEnd archs aend arch st =
     rbind (if arch = [] \<or> arch = ARCH_BUF then walk_buf st end_step 0 else Inr 0) (\<lambda>rez.
       if arch = ARCH_BUF then Inr rez
       else Inr (foldl (\<lambda>rez (wid, started). if started \<and> (arch = [] \<or> arch = wid)
                   then (if rez \<noteq> 0 then max rez (aend wid) else aend wid) else rez) rez archs))"

section \<open>The size of the buffer and the readers\<close>

definition DEF_MessBufSize :: nat where "DEF_MessBufSize = 500"
definition MAX_MessBufSize :: nat where "MAX_MessBufSize = 100000"

definition shrink_reader :: "nat \<Rightarrow> reader \<Rightarrow> reader" where
  "shrink_reader n r = (if messHead r \<ge> 0 \<and> messHead r \<ge> int n then r\<lparr>messHead := 0\<rparr> else r)"

definition buf_erase :: "mess_arch \<Rightarrow> mess_arch" where
  "buf_erase st =
     (let h = headBuf st; buf = take h (mBuf st) @ drop (h + 1) (mBuf st)
      in st\<lparr>mBuf := buf, headBuf := (if h \<ge> length buf then 0 else h),
            actMess := map (shrink_reader (length buf)) (actMess st)\<rparr>)"

definition buf_insert :: "mess_arch \<Rightarrow> mess_arch" where
  "buf_insert st =
     (let h = headBuf st in st\<lparr>mBuf := take h (mBuf st) @ empty_rec # drop h (mBuf st)\<rparr>)"

definition setMessBufLen :: "nat \<Rightarrow> mess_arch \<Rightarrow> mess_arch" where
  "setMessBufLen len0 st =
     (let len = min MAX_MessBufSize (max DEF_MessBufSize len0);
          st1 = (buf_erase ^^ (length (mBuf st) - len)) st
      in (buf_insert ^^ (len - length (mBuf st1))) st1)"

definition setActMess :: "string \<Rightarrow> int \<Rightarrow> bool \<Rightarrow> mess_arch \<Rightarrow> mess_arch" where
  "setActMess wid mh val st =
     (let there = list_ex (\<lambda>r. rdId r = wid) (actMess st)
      in st\<lparr>actMess := (if val \<and> \<not> there then actMess st @ [\<lparr>rdId = wid, messHead = mh\<rparr>]
           else if \<not> val \<and> there
           then takeWhile (\<lambda>r. rdId r \<noteq> wid) (actMess st) @ drop 1 (dropWhile (\<lambda>r. rdId r \<noteq> wid) (actMess st))
           else actMess st)\<rparr>)"

text \<open>\<open>TMArchivator::start\<close> and \<open>stop\<close>; the index of a reader starts at \<open>-1\<close>, for the first turn.\<close>

definition archivator_start :: "string \<Rightarrow> mess_arch \<Rightarrow> mess_arch" where
  "archivator_start wid st =
     setActMess wid (-1) True
       (st\<lparr>actMess := map (\<lambda>r. if rdId r = wid then r\<lparr>messHead := -1\<rparr> else r) (actMess st)\<rparr>)"

definition archivator_stop :: "string \<Rightarrow> mess_arch \<Rightarrow> mess_arch" where
  "archivator_stop wid st = setActMess wid (-1) False st"

section \<open>The archiving task\<close>

text \<open>
  The turn of the task for a reader: the index is set at the first time, and the messages up to the head
  are taken; nothing where there is no new one.  Putting them runs without the lock, hence other records
  may come; after it the index moves to the head seen at the begin.
\<close>

fun collect_loop :: "nat \<Rightarrow> srec list \<Rightarrow> nat \<Rightarrow> nat \<Rightarrow> srec list res" where
  "collect_loop k buf i h =
     (if i = h then Inr []
      else case k of 0 \<Rightarrow> Inl Diverge
      | Suc k' \<Rightarrow> rbind (vat buf (int i)) (\<lambda>r.
          rbind (collect_loop k' buf (if i + 1 \<ge> length buf then 0 else i + 1) h) (\<lambda>rs. Inr (r # rs))))"

definition first_head :: "mess_arch \<Rightarrow> int \<Rightarrow> int" where
  "first_head st mh =
     (if mh < 0
      then let m = int (headBuf st) + 1
           in if m \<ge> int (length (mBuf st)) \<or> rtime (mBuf st ! nat m) = 0 then 0 else m
      else mh)"

definition task_collect :: "nat \<Rightarrow> mess_arch \<Rightarrow> (mess_arch \<times> (nat \<times> srec list) option) res" where
  "task_collect i st =
     (let r = actMess st ! i; mh = first_head st (messHead r);
          st1 = st\<lparr>actMess := (actMess st)[i := r\<lparr>messHead := mh\<rparr>]\<rparr>
      in if mh = int (headBuf st) then Inr (st1, None)
         else rbind (collect_loop (length (mBuf st)) (mBuf st) (nat mh) (headBuf st)) (\<lambda>ms.
                Inr (st1, Some (headBuf st, ms))))"

definition task_commit :: "nat \<Rightarrow> nat \<Rightarrow> bool \<Rightarrow> mess_arch \<Rightarrow> mess_arch" where
  "task_commit i newHead rez st =
     (if rez then st\<lparr>actMess := (actMess st)[i := (actMess st ! i)\<lparr>messHead := int newHead\<rparr>]\<rparr> else st)"

text \<open>A turn over all the readers, without other records in between: the calls of \<open>put\<close>.\<close>

fun task_turn :: "(string \<Rightarrow> srec list \<Rightarrow> bool) \<Rightarrow> nat list \<Rightarrow> mess_arch \<Rightarrow> (mess_arch \<times> (string \<times> srec list) list) res" where
  "task_turn aput [] st = Inr (st, [])"
| "task_turn aput (i # is) st =
     rbind (task_collect i st) (\<lambda>(st1, c). case c of
         None \<Rightarrow> task_turn aput is st1
       | Some (h, ms) \<Rightarrow>
           let wid = rdId (actMess st1 ! i); st2 = task_commit i h (aput wid ms) st1
           in rbind (task_turn aput is st2) (\<lambda>(st3, cs). Inr (st3, (wid, ms) # cs)))"

section \<open>The service and the filter of an archiver\<close>

text \<open>The periodic clearing of old alarms.\<close>

definition perSYSCall :: "int \<Rightarrow> int \<Rightarrow> int \<Rightarrow> int \<Rightarrow> mess_arch \<Rightarrow> mess_arch" where
  "perSYSCall clrDays per now cnt st =
     (if clrDays \<noteq> 0 \<and> tmod (cnt * per) 86400 = 0
      then st\<lparr>mAlarms := filter (\<lambda>kv. \<not> now - rtime (snd kv) > clrDays * 86400) (mAlarms st)\<rparr> else st)"

fun categ_loop :: "nat \<Rightarrow> string \<Rightarrow> int \<Rightarrow> string list res" where
  "categ_loop 0 cat off = Inl Diverge"
| "categ_loop (Suc k) cat off =
     rbind (strSepParse cat 0 (CHR '';'') (Some off)) (\<lambda>(c, off').
       if c = [] then Inr [] else rbind (categ_loop k cat (the off')) (\<lambda>r. Inr (c # r)))"

definition categ :: "string \<Rightarrow> string list res" where
  "categ cat = categ_loop (length cat + 1) cat 0"

definition chkMessOK :: "pcre_compile \<Rightarrow> string \<Rightarrow> int \<Rightarrow> string \<Rightarrow> int \<Rightarrow> bool res" where
  "chkMessOK compile cat level icateg ilvl =
     rbind (categ cat) (\<lambda>cs. Inr (messLevelTest level ilvl \<and> list_ex (\<lambda>c. re_test compile c icateg) cs))"

end
