(* ===== verification/Mess_Ring.thy ===== *)
theory Mess_Ring
  imports Mess_Buf
begin

text \<open>
  The ring of messages with its readers.  The locale \<open>bounded_feed\<close> is the contract of a queue that keeps
  the last elements; a ring, seen from one reader, satisfies it, and the messages put to the subsystem are
  a sequence of elements put to the ring of each reader.  From it follows what a turn of the archiving
  task takes and leaves.
\<close>

section \<open>The unread records of a reader\<close>

definition ring_idx :: "nat \<Rightarrow> nat \<Rightarrow> nat \<Rightarrow> nat" where
  "ring_idx n m i = (if m + i < n then m + i else m + i - n)"

definition ring_cnt :: "nat \<Rightarrow> nat \<Rightarrow> nat \<Rightarrow> nat" where
  "ring_cnt n h m = (if m \<le> h then h - m else h + n - m)"

definition unread :: "srec list \<Rightarrow> nat \<Rightarrow> nat \<Rightarrow> srec list" where
  "unread buf h m = map (\<lambda>i. buf ! ring_idx (length buf) m i) [0 ..< ring_cnt (length buf) h m]"

definition ring_next :: "nat \<Rightarrow> nat \<Rightarrow> nat" where
  "ring_next n i = (if i + 1 \<ge> n then 0 else i + 1)"

lemma length_unread [simp]: "length (unread buf h m) = ring_cnt (length buf) h m"
  by (simp add: unread_def)

lemma ring_cnt_less: "h < n \<Longrightarrow> m < n \<Longrightarrow> ring_cnt n h m < n"
  by (auto simp: ring_cnt_def)

lemma unread_step:
  assumes "m < length buf" "h < length buf" "m \<noteq> h"
  shows "unread buf h m = buf ! m # unread buf h (ring_next (length buf) m)"
    "ring_cnt (length buf) h m = Suc (ring_cnt (length buf) h (ring_next (length buf) m))"
proof -
  let ?n = "length buf"
  show c: "ring_cnt ?n h m = Suc (ring_cnt ?n h (ring_next ?n m))" using assms by (auto simp: ring_cnt_def ring_next_def)
  have "ring_idx ?n m (Suc i) = ring_idx ?n (ring_next ?n m) i" if "i < ring_cnt ?n h (ring_next ?n m)" for i
    using assms that by (auto simp: ring_idx_def ring_next_def ring_cnt_def split: if_splits)
  moreover have "ring_idx ?n m 0 = m" using assms by (simp add: ring_idx_def)
  ultimately show "unread buf h m = buf ! m # unread buf h (ring_next ?n m)"
    unfolding unread_def c by (auto simp: upt_conv_Cons map_Suc_upt [symmetric] simp del: upt_Suc intro!: map_cong)
qed

lemma collect_unread:
  "m < length buf \<Longrightarrow> h < length buf \<Longrightarrow> ring_cnt (length buf) h m \<le> k \<Longrightarrow> collect_loop k buf m h = Inr (unread buf h m)"
proof (induction k arbitrary: m)
  case 0
  then have "m = h" by (auto simp: ring_cnt_def split: if_splits)
  then show ?case by (simp add: unread_def ring_cnt_def)
next
  case (Suc k)
  show ?case
  proof (cases "m = h")
    case True
    then show ?thesis by (simp add: unread_def ring_cnt_def)
  next
    case False
    note s = unread_step [OF Suc.prems(1,2) False]
    have "collect_loop k buf (ring_next (length buf) m) h = Inr (unread buf h (ring_next (length buf) m))"
      using Suc.prems s(2) by (intro Suc.IH) (auto simp: ring_next_def)
    then show ?thesis using False Suc.prems(1) s(1) by (simp add: ring_next_def)
  qed
qed

text \<open>A record written at the head; a reader whose next record it would be moves on.\<close>

definition next_head :: "nat \<Rightarrow> nat \<Rightarrow> nat \<Rightarrow> nat" where
  "next_head n h m = (if m = ring_next n h then ring_next n m else m)"

lemma unread_put:
  assumes "m < length buf" "h < length buf" "2 \<le> length buf"
  shows "unread (buf[h := r]) (ring_next (length buf) h) (next_head (length buf) h m) =
    (if ring_cnt (length buf) h m + 1 < length buf then unread buf h m @ [r] else tl (unread buf h m @ [r]))"
proof (rule nth_equalityI)
  let ?n = "length buf"
  show len: "length (unread (buf[h := r]) (ring_next ?n h) (next_head ?n h m)) =
    length (if ring_cnt ?n h m + 1 < ?n then unread buf h m @ [r] else tl (unread buf h m @ [r]))"
    using assms by (auto simp: ring_cnt_def ring_next_def next_head_def)
  fix i assume "i < length (unread (buf[h := r]) (ring_next ?n h) (next_head ?n h m))"
  then have i: "i < ring_cnt ?n (ring_next ?n h) (next_head ?n h m)" by simp
  show "unread (buf[h := r]) (ring_next ?n h) (next_head ?n h m) ! i =
    (if ring_cnt ?n h m + 1 < ?n then unread buf h m @ [r] else tl (unread buf h m @ [r])) ! i"
  proof (cases "ring_cnt ?n h m + 1 < ?n")
    case True
    then have nh: "next_head ?n h m = m" using assms by (auto simp: next_head_def ring_next_def ring_cnt_def split: if_splits)
    have c: "ring_cnt ?n (ring_next ?n h) m = Suc (ring_cnt ?n h m)"
      using True assms by (auto simp: ring_cnt_def ring_next_def split: if_splits)
    show ?thesis
    proof (cases "i < ring_cnt ?n h m")
      case less: True
      then have "ring_idx ?n m i \<noteq> h" using assms by (auto simp: ring_idx_def ring_cnt_def split: if_splits)
      then show ?thesis using True nh c less i by (simp add: unread_def nth_append del: upt_Suc)
    next
      case False
      then have "i = ring_cnt ?n h m" using i nh c by simp
      moreover have "ring_idx ?n m (ring_cnt ?n h m) = h" using assms by (auto simp: ring_idx_def ring_cnt_def)
      ultimately show ?thesis using True nh c assms by (simp add: unread_def nth_append del: upt_Suc)
    qed
  next
    case False
    then have m: "m = ring_next ?n h" using assms by (auto simp: ring_next_def ring_cnt_def split: if_splits)
    have nh: "next_head ?n h m = ring_next ?n m" using m by (simp add: next_head_def)
    have c: "ring_cnt ?n h m = ?n - 1" "ring_cnt ?n (ring_next ?n h) (ring_next ?n m) = ?n - 1"
      unfolding m using assms by (auto simp: ring_cnt_def ring_next_def)
    have i': "i < ?n - 1" using i c nh by simp
    have step: "ring_idx ?n (ring_next ?n m) i = ring_idx ?n m (Suc i)"
      using i' assms unfolding m by (auto simp: ring_idx_def ring_next_def)
    have "tl (unread buf h m @ [r]) ! i = (unread buf h m @ [r]) ! Suc i" using c i' by (simp add: nth_tl)
    also have "\<dots> = (buf[h := r]) ! ring_idx ?n m (Suc i)"
    proof (cases "Suc i < ?n - 1")
      case True
      then have "ring_idx ?n m (Suc i) \<noteq> h" using assms unfolding m by (auto simp: ring_idx_def ring_next_def)
      then show ?thesis using True c by (simp add: unread_def nth_append del: upt_Suc)
    next
      case end': False
      then have "Suc i = ?n - 1" using i' by simp
      moreover have "ring_idx ?n m (?n - 1) = h" using assms unfolding m by (auto simp: ring_idx_def ring_next_def)
      ultimately show ?thesis using c assms by (simp add: unread_def nth_append del: upt_Suc)
    qed
    finally show ?thesis using False nh c i' step by (simp add: unread_def del: upt_Suc)
  qed
qed

section \<open>Queues that keep their last elements\<close>

definition lastn :: "nat \<Rightarrow> 'a list \<Rightarrow> 'a list" where
  "lastn k xs = drop (length xs - k) xs"

lemma lastn_all: "length xs \<le> k \<Longrightarrow> lastn k xs = xs"
  by (simp add: lastn_def)

lemma length_lastn: "length (lastn k xs) \<le> k"
  by (simp add: lastn_def)

lemma lastn_step: "lastn k (lastn k xs @ ys) = lastn k (xs @ ys)"
proof (cases "length xs \<le> k")
  case True
  then show ?thesis by (simp add: lastn_def)
next
  case False
  then have "lastn k xs @ ys = drop (length xs - k) (xs @ ys)" "length (lastn k xs @ ys) - k = length ys"
    by (simp_all add: lastn_def)
  then have "lastn k (lastn k xs @ ys) = drop (length ys) (drop (length xs - k) (xs @ ys))" by (metis lastn_def)
  moreover have "length ys + (length xs - k) = length (xs @ ys) - k" using False by simp
  ultimately show ?thesis by (simp only: drop_drop lastn_def)
qed

locale bounded_feed =
  fixes ok :: "'s \<Rightarrow> bool" and put :: "'a \<Rightarrow> 's \<Rightarrow> 's" and pend :: "'s \<Rightarrow> 'a list" and cap :: nat
  assumes ok_put: "ok s \<Longrightarrow> ok (put r s)"
    and pend_put: "ok s \<Longrightarrow> pend (put r s) = lastn cap (pend s @ [r])"
    and pend_cap: "ok s \<Longrightarrow> length (pend s) \<le> cap"
begin

lemma ok_fold: "ok s \<Longrightarrow> ok (fold put rs s)"
  by (induction rs arbitrary: s) (auto simp: ok_put)

lemma pend_fold: "ok s \<Longrightarrow> pend (fold put rs s) = lastn cap (pend s @ rs)"
proof (induction rs arbitrary: s)
  case Nil
  then show ?case using pend_cap by (simp add: lastn_all)
next
  case (Cons r rs)
  then have "pend (fold put (r # rs) s) = lastn cap (lastn cap (pend s @ [r]) @ rs)"
    using Cons.IH [OF ok_put] pend_put by simp
  then show ?case by (simp only: lastn_step append.assoc append_Cons append_Nil)
qed

lemma pend_fold_few: "ok s \<Longrightarrow> length (pend s) + length rs \<le> cap \<Longrightarrow> pend (fold put rs s) = pend s @ rs"
  using pend_fold lastn_all [of "pend s @ rs" cap] by simp

end

text \<open>A ring with one reader: the cells, the head and the index of the reader.\<close>

type_synonym ring = "srec list \<times> nat \<times> nat"

fun ring_put :: "srec \<Rightarrow> ring \<Rightarrow> ring" where
  "ring_put r (buf, h, m) = (buf[h := r], ring_next (length buf) h, next_head (length buf) h m)"

fun ring_ok :: "nat \<Rightarrow> ring \<Rightarrow> bool" where
  "ring_ok n (buf, h, m) \<longleftrightarrow> length buf = Suc (Suc n) \<and> h < length buf \<and> m < length buf"

fun ring_pend :: "ring \<Rightarrow> srec list" where
  "ring_pend (buf, h, m) = unread buf h m"

interpretation ring: bounded_feed "ring_ok n" ring_put ring_pend "Suc n" for n
proof
  fix s r
  assume "ring_ok n s"
  then obtain buf h m where s: "s = (buf, h, m)" "length buf = Suc (Suc n)" "h < length buf" "m < length buf"
    by (cases s) auto
  show "ring_ok n (ring_put r s)" using s by (auto simp: ring_next_def next_head_def)
  have c: "ring_cnt (length buf) h m \<le> Suc n" using ring_cnt_less [OF s(3,4)] s(2) by simp
  show "length (ring_pend s) \<le> Suc n" using s c by simp
  have t: "tl xs = drop 1 xs" for xs :: "srec list" by (cases xs) auto
  show "ring_pend (ring_put r s) = lastn (Suc n) (ring_pend s @ [r])"
  proof (cases "ring_cnt (length buf) h m + 1 < length buf")
    case True
    then show ?thesis using unread_put [OF s(4,3), of r] s by (simp add: lastn_all)
  next
    case False
    then have "length (unread buf h m @ [r]) - Suc n = 1" using c s(2) by simp
    then show ?thesis using unread_put [OF s(4,3), of r] s False t by (simp add: lastn_def del: drop_append)
  qed
qed

lemma ring_put_steady:
  assumes "ring_ok n (buf, h, m)" "ring_cnt (length buf) h m + length rs \<le> Suc n"
  shows "\<exists>buf' h'. fold ring_put rs (buf, h, m) = (buf', h', m)"
  using assms
proof (induction rs arbitrary: buf h)
  case (Cons r rs)
  have ok: "length buf = Suc (Suc n)" "h < length buf" "m < length buf" using Cons.prems(1) by auto
  have lt: "ring_cnt (length buf) h m < Suc n" using Cons.prems(2) by simp
  then have m: "m \<noteq> ring_next (length buf) h" using ok by (auto simp: ring_cnt_def ring_next_def split: if_splits)
  have c: "ring_cnt (length buf) (ring_next (length buf) h) m = Suc (ring_cnt (length buf) h m)"
    using ok lt by (auto simp: ring_cnt_def ring_next_def split: if_splits)
  have p: "ring_put r (buf, h, m) = (buf[h := r], ring_next (length buf) h, m)" using m by (simp add: next_head_def)
  have "\<exists>buf' h'. fold ring_put rs (buf[h := r], ring_next (length buf) h, m) = (buf', h', m)"
    using ok c Cons.prems(2) by (intro Cons.IH) (auto simp: ring_next_def)
  then show ?case using p by simp
qed simp

section \<open>The invariant of the messages\<close>

definition mess_ok :: "mess_arch \<Rightarrow> bool" where
  "mess_ok st \<longleftrightarrow> 2 \<le> length (mBuf st) \<and> headBuf st < length (mBuf st) \<and>
     (\<forall>r \<in> set (actMess st). messHead r < int (length (mBuf st)))"

text \<open>A reader, seen with the buffer as a ring.\<close>

definition ring_of :: "mess_arch \<Rightarrow> nat \<Rightarrow> ring" where
  "ring_of st i = (mBuf st, headBuf st, nat (messHead (actMess st ! i)))"

definition pending :: "mess_arch \<Rightarrow> nat \<Rightarrow> srec list" where
  "pending st i = ring_pend (ring_of st i)"

lemma mess_ok_ring: "mess_ok st \<Longrightarrow> i < length (actMess st) \<Longrightarrow> ring_ok (length (mBuf st) - 2) (ring_of st i)"
proof -
  assume a: "mess_ok st" "i < length (actMess st)"
  then have "messHead (actMess st ! i) < int (length (mBuf st))" using nth_mem [OF a(2)] by (auto simp: mess_ok_def)
  moreover have "0 < length (mBuf st)" using a by (auto simp: mess_ok_def)
  ultimately have "nat (messHead (actMess st ! i)) < length (mBuf st)" by linarith
  with a show ?thesis by (auto simp: mess_ok_def ring_of_def)
qed

definition put_buf' :: "srec \<Rightarrow> mess_arch \<Rightarrow> mess_arch" where
  "put_buf' rec st =
     (let n = length (mBuf st); h = ring_next n (headBuf st)
      in st\<lparr>mBuf := (mBuf st)[headBuf st := rec], headBuf := h, actMess := map (push_reader n h) (actMess st)\<rparr>)"

lemma put_buf_ok: "mess_ok st \<Longrightarrow> put_buf rec st = Inr (put_buf' rec st)"
  by (simp add: put_buf_def put_buf'_def mess_ok_def ring_next_def Let_def vset_def)

lemma push_reader_bound: "messHead r < int n \<Longrightarrow> 0 < n \<Longrightarrow> messHead (push_reader n h r) < int n"
  by (auto simp: push_reader_def)

lemma put_buf'_ok: "mess_ok st \<Longrightarrow> mess_ok (put_buf' rec st)"
proof -
  assume a: "mess_ok st"
  then have "\<forall>r \<in> set (actMess st). messHead (push_reader (length (mBuf st)) h r) < int (length (mBuf st))" for h
    by (auto simp: mess_ok_def intro!: push_reader_bound)
  moreover have "mBuf st \<noteq> []" using a by (auto simp: mess_ok_def)
  ultimately show ?thesis using a by (simp add: mess_ok_def put_buf'_def Let_def ring_next_def)
qed

lemma put_buf'_ring:
  assumes "mess_ok st" "i < length (actMess st)" "0 \<le> messHead (actMess st ! i)"
  shows "ring_of (put_buf' rec st) i = ring_put rec (ring_of st i)" "0 \<le> messHead (actMess (put_buf' rec st) ! i)"
    "rdId (actMess (put_buf' rec st) ! i) = rdId (actMess st ! i)"
proof -
  have "messHead (actMess st ! i) < int (length (mBuf st))" using assms nth_mem [OF assms(2)] by (auto simp: mess_ok_def)
  then show "ring_of (put_buf' rec st) i = ring_put rec (ring_of st i)" "0 \<le> messHead (actMess (put_buf' rec st) ! i)"
    using assms(2,3) by (auto simp: ring_of_def put_buf'_def Let_def push_reader_def next_head_def ring_next_def nat_add_distrib)
  show "rdId (actMess (put_buf' rec st) ! i) = rdId (actMess st ! i)"
    using assms(2) by (simp add: put_buf'_def Let_def push_reader_def)
qed

lemma arch_map_Nil: "arch_map [] = Inr []"
  by (simp add: arch_map_def strParse_def size_of_def)

text \<open>The fuel of the names of the archives is enough.\<close>

lemma arch_map_total: "\<exists>am. arch_map arch = Inr am"
  unfolding arch_map_def by (rule deb_cats_loop_total) (simp_all add: size_of_def)

text \<open>So is the fuel of the categories of an archiver.\<close>

lemma categ_loop_total: "0 \<le> a \<Longrightarrow> size_of s - a < int k \<Longrightarrow> 0 < k \<Longrightarrow> \<exists>r. categ_loop k s a = Inr r"
proof (induction k arbitrary: a)
  case (Suc k)
  obtain t e where p: "strSepParse s 0 (CHR '';'') (Some a) = Inr (t, Some e)" "t \<noteq> [] \<longrightarrow> a < e \<and> e \<le> size_of s"
    using strSepParse_step [OF Suc.prems(1)] by blast
  show ?case
  proof (cases "t = []")
    case False
    then obtain r where "categ_loop k s e = Inr r" using Suc.IH [of e] Suc.prems p(2) by force
    then show ?thesis using p by simp
  qed (use p in simp)
qed simp

lemma chkMessOK_total: "\<exists>b. chkMessOK compile cat level icateg ilvl = Inr b"
  using categ_loop_total [of 0 cat "length cat + 1"] by (auto simp: chkMessOK_def categ_def size_of_def)

lemma put_alarm_new: "\<not> snd (put_alarm False c rec al)"
  by (simp add: put_alarm_def Let_def)

lemma messPut_all:
  assumes "mess_ok st"
  shows "\<exists>al. messPut False aput archs [] rec st = Inr (put_buf' rec (st\<lparr>mAlarms := al\<rparr>), put_archs aput True [] archs [rec])"
proof -
  obtain al b where p: "put_alarm False (ARCH_ALRM_CH \<in> set []) rec (mAlarms st) = (al, b)" by fastforce
  then have "\<not> b" using put_alarm_new [of _ rec "mAlarms st"] by (metis snd_conv)
  moreover have "mess_ok (st\<lparr>mAlarms := al\<rparr>)" using assms by (simp add: mess_ok_def)
  ultimately show ?thesis using p by (intro exI [of _ al]) (simp add: messPut_def arch_map_Nil put_buf_ok)
qed

lemma alarms_frame: "mess_ok (st\<lparr>mAlarms := al\<rparr>) = mess_ok st" "ring_of (st\<lparr>mAlarms := al\<rparr>) i = ring_of st i"
  by (simp_all add: mess_ok_def ring_of_def)

text \<open>Putting a list of records, seen from a reader and from the index where another reading began.\<close>

lemma messPut_list_ring:
  "mess_ok st \<Longrightarrow> i < length (actMess st) \<Longrightarrow> 0 \<le> messHead (actMess st ! i) \<Longrightarrow>
   messPut_list False aput archs [] ps st = Inr (st', cs) \<Longrightarrow>
   mess_ok st' \<and> length (mBuf st') = length (mBuf st) \<and> length (actMess st') = length (actMess st) \<and>
     ring_of st' i = fold ring_put ps (ring_of st i) \<and> 0 \<le> messHead (actMess st' ! i) \<and>
     (\<forall>m. fold ring_put ps (mBuf st, headBuf st, m) = (mBuf st', headBuf st', snd (snd (fold ring_put ps (mBuf st, headBuf st, m)))))"
proof (induction ps arbitrary: st cs)
  case Nil
  then show ?case by simp
next
  case (Cons r ps)
  obtain al where m: "messPut False aput archs [] r st =
      Inr (put_buf' r (st\<lparr>mAlarms := al\<rparr>), put_archs aput True [] archs [r])"
    using messPut_all [OF Cons.prems(1)] by blast
  let ?s = "put_buf' r (st\<lparr>mAlarms := al\<rparr>)"
  have ok: "mess_ok (st\<lparr>mAlarms := al\<rparr>)" using Cons.prems(1) by (simp add: alarms_frame)
  have i: "i < length (actMess (st\<lparr>mAlarms := al\<rparr>))" "0 \<le> messHead (actMess (st\<lparr>mAlarms := al\<rparr>) ! i)" using Cons.prems(2,3) by simp_all
  note rg = put_buf'_ring [OF ok i, of r]
  obtain cs2 where rest: "messPut_list False aput archs [] ps ?s = Inr (st', cs2)"
    using Cons.prems(4) m by (auto simp: rbind_Inr)
  have l: "length (actMess ?s) = length (actMess st)" "length (mBuf ?s) = length (mBuf st)"
    by (simp_all add: put_buf'_def Let_def)
  have "mess_ok st' \<and> length (mBuf st') = length (mBuf ?s) \<and> length (actMess st') = length (actMess ?s) \<and>
     ring_of st' i = fold ring_put ps (ring_of ?s i) \<and> 0 \<le> messHead (actMess st' ! i) \<and>
     (\<forall>m. fold ring_put ps (mBuf ?s, headBuf ?s, m) = (mBuf st', headBuf st', snd (snd (fold ring_put ps (mBuf ?s, headBuf ?s, m)))))"
    by (rule Cons.IH [OF put_buf'_ok [OF ok] _ rg(2) rest]) (use Cons.prems(2) l in simp)
  moreover have "ring_put r (mBuf st, headBuf st, m) = (mBuf ?s, headBuf ?s, next_head (length (mBuf st)) (headBuf st) m)" for m
    by (simp add: put_buf'_def Let_def)
  ultimately show ?case using l rg(1) by (simp add: alarms_frame)
qed

lemma messPut_list_total: "mess_ok st \<Longrightarrow> \<exists>st' cs. messPut_list False aput archs [] ps st = Inr (st', cs)"
proof (induction ps arbitrary: st)
  case (Cons r ps)
  obtain al where m: "messPut False aput archs [] r st =
      Inr (put_buf' r (st\<lparr>mAlarms := al\<rparr>), put_archs aput True [] archs [r])"
    using messPut_all [OF Cons.prems] by blast
  have "mess_ok (put_buf' r (st\<lparr>mAlarms := al\<rparr>))" using Cons.prems by (simp add: alarms_frame put_buf'_ok)
  from Cons.IH [OF this] m show ?case by auto
qed simp

section \<open>The archiving task loses nothing\<close>

lemma first_head_bound: "mess_ok st \<Longrightarrow> mh < int (length (mBuf st)) \<Longrightarrow> 0 \<le> first_head st mh \<and> first_head st mh < int (length (mBuf st))"
  by (auto simp: first_head_def Let_def mess_ok_def)

lemma task_collect_unread:
  assumes "mess_ok st" "i < length (actMess st)"
  shows "\<exists>st1. task_collect i st = Inr (st1, if pending st1 i = [] then None else Some (headBuf st, pending st1 i)) \<and>
     mess_ok st1 \<and> 0 \<le> messHead (actMess st1 ! i) \<and> length (actMess st1) = length (actMess st) \<and>
     mBuf st1 = mBuf st \<and> headBuf st1 = headBuf st \<and> (0 \<le> messHead (actMess st ! i) \<longrightarrow> pending st1 i = pending st i)"
proof -
  let ?r = "actMess st ! i"
  define mh where "mh = first_head st (messHead ?r)"
  let ?st1 = "st\<lparr>actMess := (actMess st)[i := ?r\<lparr>messHead := mh\<rparr>]\<rparr>"
  have "messHead ?r < int (length (mBuf st))" using assms nth_mem [OF assms(2)] by (auto simp: mess_ok_def)
  from first_head_bound [OF assms(1) this] have mh: "0 \<le> mh" "mh < int (length (mBuf st))" by (simp_all add: mh_def)
  have ok: "mess_ok ?st1" using assms mh by (auto simp: mess_ok_def dest!: set_update_subset_insert [THEN subsetD])
  have p: "pending ?st1 i = unread (mBuf st) (headBuf st) (nat mh)" using assms(2) by (simp add: pending_def ring_of_def)
  have h: "headBuf st < length (mBuf st)" using assms(1) by (simp add: mess_ok_def)
  have nm: "nat mh < length (mBuf st)" using mh by linarith
  have e: "pending ?st1 i = [] \<longleftrightarrow> mh = int (headBuf st)"
  proof -
    have "pending ?st1 i = [] \<longleftrightarrow> ring_cnt (length (mBuf st)) (headBuf st) (nat mh) = 0"
      unfolding p by (metis length_0_conv length_unread)
    then show ?thesis using mh h by (auto simp: ring_cnt_def split: if_splits)
  qed
  have "collect_loop (length (mBuf st)) (mBuf st) (nat mh) (headBuf st) = Inr (pending ?st1 i)"
    unfolding p using nm h ring_cnt_less [OF h nm] by (intro collect_unread) auto
  then have "task_collect i st = Inr (?st1, if pending ?st1 i = [] then None else Some (headBuf st, pending ?st1 i))"
    unfolding task_collect_def Let_def mh_def [symmetric] e by simp
  moreover have "0 \<le> messHead ?r \<longrightarrow> pending ?st1 i = pending st i" by (simp add: p pending_def ring_of_def mh_def first_head_def)
  ultimately show ?thesis using ok mh assms(2) by (intro exI [of _ ?st1]) simp
qed

lemma mess_task_step:
  assumes "mess_ok st" "i < length (actMess st)" "length ps < length (mBuf st)"
    "task_collect i st = Inr (st1, Some (h, ms))" "messPut_list False aput archs [] ps st1 = Inr (st2, cs)"
  shows "ms = pending st1 i" "pending (task_commit i h True st2) i = ps"
    "pending (task_commit i h False st2) i = lastn (length (mBuf st) - 1) (ms @ ps)"
proof -
  let ?n = "length (mBuf st)"
  obtain st1' where c: "task_collect i st = Inr (st1', if pending st1' i = [] then None else Some (headBuf st, pending st1' i))"
    "mess_ok st1'" "0 \<le> messHead (actMess st1' ! i)" "length (actMess st1') = length (actMess st)"
    "mBuf st1' = mBuf st" "headBuf st1' = headBuf st"
    using task_collect_unread [OF assms(1,2)] by blast
  have st1: "st1' = st1" "h = headBuf st" "ms = pending st1 i" using c(1) assms(4) by (auto split: if_splits)
  then show "ms = pending st1 i" by simp
  have i: "i < length (actMess st1)" using c(4) assms(2) st1(1) by simp
  note put = messPut_list_ring [OF c(2) _ c(3), unfolded st1(1), OF i assms(5)]
  have n: "?n = Suc (Suc (?n - 2))" using assms(1) unfolding mess_ok_def by arith
  have n1: "?n - 1 = Suc (?n - 2)" using n by arith
  have ok1: "ring_ok (?n - 2) (ring_of st1 i)" using mess_ok_ring [OF c(2) , unfolded st1(1), OF i] c(5) st1(1) by simp
  have "ring_pend (ring_of st2 i) = lastn (Suc (?n - 2)) (ms @ ps)"
    using put ring.pend_fold [OF ok1, of ps] st1(3) by (simp add: pending_def)
  then show "pending (task_commit i h False st2) i = lastn (?n - 1) (ms @ ps)"
    unfolding n1 by (simp add: task_commit_def pending_def)
  have okh: "ring_ok (?n - 2) (mBuf st1, headBuf st1, headBuf st1)"
    using assms(1) c(5,6) st1(1) n by (simp add: mess_ok_def)
  have z: "ring_cnt (length (mBuf st1)) (headBuf st1) (headBuf st1) = 0" by (simp add: ring_cnt_def)
  have few: "ring_cnt (length (mBuf st1)) (headBuf st1) (headBuf st1) + length ps \<le> Suc (?n - 2)" unfolding z using assms(3) n by simp
  obtain b' h' where f: "fold ring_put ps (mBuf st1, headBuf st1, headBuf st1) = (b', h', headBuf st1)"
    using ring_put_steady [OF okh few] by blast
  then have "b' = mBuf st2" "h' = headBuf st2" using put by (metis Pair_inject)+
  moreover have "ring_pend (fold ring_put ps (mBuf st1, headBuf st1, headBuf st1)) = unread (mBuf st1) (headBuf st1) (headBuf st1) @ ps"
    using ring.pend_fold_few [OF okh, of ps] few by simp
  moreover have "unread (mBuf st1) (headBuf st1) (headBuf st1) = []" by (simp add: unread_def z)
  ultimately have u: "unread (mBuf st2) (headBuf st2) (headBuf st) = ps" using f c(6) st1(1) by simp
  have "i < length (actMess st2)" using put i by simp
  then show "pending (task_commit i h True st2) i = ps" using u st1(2) by (simp add: task_commit_def pending_def ring_of_def)
qed

end
