(* ===== verification/Mess_Requests.thy ===== *)
theory Mess_Requests
  imports Mess_Ring
begin

text \<open>
  The requests for messages (the walk over the ring and the insertion sorted by time), the active
  alarms, the change of the size of the buffer, the invariant of all operations, and the properties.
\<close>

section \<open>The walk and the sorted answer\<close>

lemma buf_loop_fold:
  "i < length buf \<Longrightarrow> head < length buf \<Longrightarrow> (if i < head then head - i else head + length buf - i) \<le> k \<Longrightarrow>
   buf_loop k buf head f i acc = Inr (fold f (if i < head then take (head - i) (drop i buf) else drop i buf @ take head buf) acc)"
proof (induction k arbitrary: i acc)
  case 0
  then show ?case by (auto split: if_splits)
next
  case (Suc k)
  let ?l = "\<lambda>i. if i < head then take (head - i) (drop i buf) else drop i buf @ take head buf"
  have d: "drop i buf = buf ! i # drop (Suc i) buf" using Suc.prems(1) by (simp add: Cons_nth_drop_Suc)
  show ?case
  proof (cases "ring_next (length buf) i = head")
    case True
    then have "?l i = [buf ! i]"
      using d Suc.prems by (auto simp: ring_next_def split: if_splits)
    then show ?thesis using True Suc.prems(1) by (simp add: ring_next_def Let_def)
  next
    case False
    have "buf_loop k buf head f (ring_next (length buf) i) (f (buf ! i) acc) =
      Inr (fold f (?l (ring_next (length buf) i)) (f (buf ! i) acc))"
      using Suc.prems False by (intro Suc.IH) (auto simp: ring_next_def split: if_splits)
    moreover have "?l i = buf ! i # ?l (ring_next (length buf) i)"
    proof (cases "i < head")
      case True
      then obtain n where n: "head - i = Suc n" by (cases "head - i") auto
      then have "head - Suc i = n" by simp
      moreover have "Suc i < head" "ring_next (length buf) i = Suc i" using True False Suc.prems(2) by (auto simp: ring_next_def)
      ultimately show ?thesis using True d n by simp
    next
      case ge: False
      show ?thesis
      proof (cases "Suc i = length buf")
        case True
        then show ?thesis using ge d False by (simp add: ring_next_def)
      next
        case no: False
        then have "ring_next (length buf) i = Suc i" using Suc.prems(1) by (simp add: ring_next_def)
        then show ?thesis using ge d by simp
      qed
    qed
    ultimately show ?thesis using False Suc.prems(1) by (simp add: ring_next_def Let_def)
  qed
qed

text \<open>The records from the oldest to the newest.\<close>

definition in_order :: "mess_arch \<Rightarrow> srec list" where
  "in_order st = drop (headBuf st) (mBuf st) @ take (headBuf st) (mBuf st)"

lemma walk_buf_fold: "mess_ok st \<Longrightarrow> walk_buf st f acc = Inr (fold f (in_order st) acc)"
  using buf_loop_fold [of "headBuf st" "mBuf st" "headBuf st" "length (mBuf st) + 1" f acc]
  by (simp add: walk_buf_def in_order_def mess_ok_def)

lemma ins_pos_spec:
  assumes "sorted (map FTM recs)" "iM \<le> iP" "iP \<le> length recs" "\<forall>j. iM \<le> j \<and> j < iP \<longrightarrow> FTM (recs ! j) = FTM x"
    "\<forall>j. iP \<le> j \<and> j < length recs \<longrightarrow> FTM (recs ! j) > FTM x"
  shows "ins_pos recs x iM iP \<le> length recs \<and> (\<forall>j < ins_pos recs x iM iP. FTM (recs ! j) \<le> FTM x) \<and>
     (\<forall>j. ins_pos recs x iM iP \<le> j \<and> j < length recs \<longrightarrow> FTM (recs ! j) > FTM x)"
  using assms
proof (induction iM arbitrary: iP)
  case 0
  then have "\<forall>j < iP. FTM (recs ! j) \<le> FTM x" by auto
  then show ?case using 0 by simp
next
  case (Suc iM)
  have mono: "i \<le> j \<Longrightarrow> j < length recs \<Longrightarrow> FTM (recs ! i) \<le> FTM (recs ! j)" for i j
    using sorted_nth_mono [OF Suc.prems(1), of i j] by simp
  have l: "iM < length recs" using Suc.prems(2,3) by simp
  consider "FTM (recs ! iM) > FTM x" | "FTM (recs ! iM) < FTM x" | "FTM (recs ! iM) = FTM x" by linarith
  then show ?case
  proof cases
    case 1
    have "\<forall>j. iM \<le> j \<and> j < length recs \<longrightarrow> FTM (recs ! j) > FTM x" using mono 1 by fastforce
    then have "ins_pos recs x iM iM \<le> length recs \<and> (\<forall>j < ins_pos recs x iM iM. FTM (recs ! j) \<le> FTM x) \<and>
       (\<forall>j. ins_pos recs x iM iM \<le> j \<and> j < length recs \<longrightarrow> FTM (recs ! j) > FTM x)"
      using Suc.prems(1) l by (intro Suc.IH) auto
    then show ?thesis using 1 by simp
  next
    case 2
    have "FTM (recs ! j) \<le> FTM x" if "j < iP" for j
    proof (cases "j \<le> iM")
      case True
      then show ?thesis using mono [OF True l] 2 by simp
    next
      case False
      then show ?thesis using Suc.prems(4) that by simp
    qed
    then show ?thesis using 2 Suc.prems(3,5) by simp
  next
    case 3
    have "\<forall>j. iM \<le> j \<and> j < iP \<longrightarrow> FTM (recs ! j) = FTM x" using 3 Suc.prems(4) by (metis Suc_leI le_neq_implies_less)
    then have "ins_pos recs x iM iP \<le> length recs \<and> (\<forall>j < ins_pos recs x iM iP. FTM (recs ! j) \<le> FTM x) \<and>
       (\<forall>j. ins_pos recs x iM iP \<le> j \<and> j < length recs \<longrightarrow> FTM (recs ! j) > FTM x)"
      using Suc.prems by (intro Suc.IH) auto
    then show ?thesis using 3 by simp
  qed
qed

lemma ins_rec_split:
  assumes "sorted (map FTM recs)"
  obtains ys zs where "recs = ys @ zs" "ins_rec x recs = ys @ x # zs" "\<forall>y \<in> set ys. FTM y \<le> FTM x" "\<forall>z \<in> set zs. FTM x < FTM z"
proof -
  let ?p = "ins_pos recs x (length recs) (length recs)"
  have s: "?p \<le> length recs" "\<forall>j < ?p. FTM (recs ! j) \<le> FTM x" "\<forall>j. ?p \<le> j \<and> j < length recs \<longrightarrow> FTM (recs ! j) > FTM x"
    using ins_pos_spec [OF assms, of "length recs" "length recs" x] by auto
  show thesis
  proof (rule that [of "take ?p recs" "drop ?p recs"])
    show "\<forall>y \<in> set (take ?p recs). FTM y \<le> FTM x" using s(1,2) by (auto simp: in_set_conv_nth)
    show "\<forall>z \<in> set (drop ?p recs). FTM x < FTM z" using s(3) by (auto simp: in_set_conv_nth)
  qed (simp_all add: ins_rec_def Let_def)
qed

lemma ins_rec_sort: "ins_rec x (sort_key FTM xs) = sort_key FTM (xs @ [x])"
proof (rule sym, rule properties_for_sort_key)
  obtain ys zs where s: "sort_key FTM xs = ys @ zs" "ins_rec x (sort_key FTM xs) = ys @ x # zs"
    "\<forall>y \<in> set ys. FTM y \<le> FTM x" "\<forall>z \<in> set zs. FTM x < FTM z"
    by (rule ins_rec_split [of "sort_key FTM xs" x]) simp_all
  show "mset (ins_rec x (sort_key FTM xs)) = mset (xs @ [x])"
  proof -
    have "mset (ys @ zs) = mset xs" unfolding s(1) [symmetric] by (rule mset_sort)
    then show ?thesis unfolding s(2) by simp
  qed
  have so: "sorted (map FTM (ys @ zs))" unfolding s(1) [symmetric] by simp
  show "sorted (map FTM (ins_rec x (sort_key FTM xs)))"
    unfolding s(2) using so s(3,4) by (auto simp: sorted_append less_imp_le)
  fix k assume "k \<in> set (ins_rec x (sort_key FTM xs))"
  have f: "filter (\<lambda>y. FTM k = FTM y) (ys @ zs) = filter (\<lambda>y. FTM k = FTM y) xs"
    unfolding s(1) [symmetric] eq_commute [of "FTM k"] by (rule sort_key_stable)
  have z: "filter (\<lambda>y. FTM k = FTM y) zs = []" if "FTM k = FTM x" using that s(4) by (auto simp: filter_empty_conv)
  show "filter (\<lambda>y. FTM k = FTM y) (ins_rec x (sort_key FTM xs)) = filter (\<lambda>y. FTM k = FTM y) (xs @ [x])"
    unfolding s(2) using f z by auto
qed

lemma fold_ins_rec:
  "fold (\<lambda>r recs. if P r then ins_rec r recs else recs) rs (sort_key FTM xs) = sort_key FTM (xs @ filter P rs)"
  by (induction rs arbitrary: xs) (auto simp: ins_rec_sort)

lemma arch_map_buf: "arch_map ARCH_BUF = Inr [ARCH_BUF]"
  by code_simp

section \<open>Changing the size\<close>

lemma buf_erase_ok: "mess_ok st \<Longrightarrow> 3 \<le> length (mBuf st) \<Longrightarrow> mess_ok (buf_erase st) \<and> length (mBuf (buf_erase st)) = length (mBuf st) - 1"
  by (auto simp: mess_ok_def buf_erase_def Let_def shrink_reader_def min_def)

lemma buf_insert_ok: "mess_ok st \<Longrightarrow> mess_ok (buf_insert st) \<and> length (mBuf (buf_insert st)) = length (mBuf st) + 1"
  by (force simp: mess_ok_def buf_insert_def Let_def min_def)

lemma erases_ok: "mess_ok st \<Longrightarrow> k + 2 \<le> length (mBuf st) \<Longrightarrow>
   mess_ok ((buf_erase ^^ k) st) \<and> length (mBuf ((buf_erase ^^ k) st)) = length (mBuf st) - k"
proof (induction k)
  case (Suc k)
  then have "mess_ok ((buf_erase ^^ k) st)" "length (mBuf ((buf_erase ^^ k) st)) = length (mBuf st) - k" by auto
  with Suc.prems buf_erase_ok [of "(buf_erase ^^ k) st"] show ?case by auto
qed simp

lemma inserts_ok: "mess_ok st \<Longrightarrow>
   mess_ok ((buf_insert ^^ k) st) \<and> length (mBuf ((buf_insert ^^ k) st)) = length (mBuf st) + k"
proof (induction k)
  case (Suc k)
  with buf_insert_ok [of "(buf_insert ^^ k) st"] show ?case by auto
qed simp

lemma mess_len_ok:
  assumes "mess_ok st"
  shows "mess_ok (setMessBufLen len st)" "length (mBuf (setMessBufLen len st)) = min MAX_MessBufSize (max DEF_MessBufSize len)"
proof -
  define l where "l = min MAX_MessBufSize (max DEF_MessBufSize len)"
  have l: "2 \<le> l" by (simp add: l_def MAX_MessBufSize_def DEF_MessBufSize_def)
  define st1 where "st1 = (buf_erase ^^ (length (mBuf st) - l)) st"
  have n: "2 \<le> length (mBuf st)" using assms by (simp add: mess_ok_def)
  have "mess_ok st1 \<and> length (mBuf st1) = length (mBuf st) - (length (mBuf st) - l)"
    unfolding st1_def by (rule erases_ok [OF assms]) (use l n in arith)
  then have s: "mess_ok st1" "length (mBuf st1) \<le> l" using l by auto
  have e: "setMessBufLen len st = (buf_insert ^^ (l - length (mBuf st1))) st1"
    by (simp add: setMessBufLen_def Let_def l_def st1_def)
  show "mess_ok (setMessBufLen len st)" "length (mBuf (setMessBufLen len st)) = l"
    unfolding e using inserts_ok [OF s(1)] s(2) by simp_all
qed

text \<open>An inserted cell moves the unread records of a reader before the head of the ring, but not its index.\<close>

lemma mess_insert_repeats:
  assumes "mess_ok st" "i < length (actMess st)" "int (headBuf st) < messHead (actMess st ! i)"
  shows "pending (buf_insert st) i = mBuf st ! nat (messHead (actMess st ! i) - 1) # pending st i"
proof -
  define h m n where "h = headBuf st" and "m = nat (messHead (actMess st ! i))" and "n = length (mBuf st)"
  have "messHead (actMess st ! i) < int n" using assms(1) nth_mem [OF assms(2)] by (auto simp: mess_ok_def n_def)
  then have hm: "h < m" "m < n" using assms(3) by (auto simp: h_def m_def)
  have m1: "nat (messHead (actMess st ! i) - 1) = m - 1" by (simp add: m_def nat_diff_distrib')
  let ?b = "mBuf st" let ?b' = "take h ?b @ empty_rec # drop h ?b"
  have c: "ring_cnt (Suc n) h m = Suc (ring_cnt n h m)" using hm by (simp add: ring_cnt_def)
  have l: "length ?b' = Suc n" using hm by (simp add: n_def)
  have at: "?b' ! j = (if j < h then ?b ! j else ?b ! (j - 1))" if "j \<noteq> h" "j \<le> n" for j
    using that hm by (auto simp: nth_append nth_Cons' n_def min_def)
  have "unread ?b' h m = ?b ! (m - 1) # unread ?b h m"
  proof (rule nth_equalityI)
    show "length (unread ?b' h m) = length (?b ! (m - 1) # unread ?b h m)" using c l n_def by simp
    fix k assume "k < length (unread ?b' h m)"
    then have k: "k < Suc (ring_cnt n h m)" using c l by simp
    show "unread ?b' h m ! k = (?b ! (m - 1) # unread ?b h m) ! k"
    proof (cases k)
      case 0
      then show ?thesis using at [of m] hm l c by (simp add: unread_def ring_idx_def n_def [symmetric] del: upt_Suc)
    next
      case (Suc q)
      have "?b' ! ring_idx (Suc n) m (Suc q) = ?b ! ring_idx n m q"
        using at [of "ring_idx (Suc n) m (Suc q)"] hm k Suc by (auto simp: ring_idx_def ring_cnt_def split: if_splits)
      then show ?thesis using Suc k l c n_def by (simp add: unread_def del: upt_Suc)
    qed
  qed
  then show ?thesis by (simp add: pending_def ring_of_def buf_insert_def Let_def h_def m_def [symmetric] m1)
qed

section \<open>The invariant\<close>

text \<open>Putting never fails on a state in order.  \<open>deals\<close> is whether the archives of a message keep its alarm.\<close>

definition deals :: "string \<Rightarrow> string list \<Rightarrow> bool" where
  "deals arch am \<longleftrightarrow> (arch = [] \<or> ARCH_BUF \<in> set am \<or> ARCH_ALRM \<in> set am \<or> ARCH_ALRM_CH \<in> set am) \<and> ARCH_NOALRM \<notin> set am"

lemma messPut_total:
  assumes "mess_ok st" "arch_map arch = Inr am"
  shows "\<exists>st' cs. messPut rd aput archs arch rec st = Inr (st', cs) \<and> mess_ok st' \<and> length (actMess st') = length (actMess st)
    \<and> mAlarms st' = (if deals arch am then fst (put_alarm rd (ARCH_ALRM_CH \<in> set am) rec (mAlarms st)) else mAlarms st)"
proof -
  define p where "p = (if deals arch am then put_alarm rd (ARCH_ALRM_CH \<in> set am) rec (mAlarms st) else (mAlarms st, False))"
  obtain al known where q: "p = (al, known)" by (cases p)
  have al: "al = (if deals arch am then fst (put_alarm rd (ARCH_ALRM_CH \<in> set am) rec (mAlarms st)) else mAlarms st)"
    using q by (auto simp: p_def split: if_splits)
  have m: "messPut rd aput archs arch rec st = (if known then Inr (st, [])
      else rbind (if arch = [] \<or> ARCH_NOALRM \<in> set am \<or> ARCH_BUF \<in> set am
         then put_buf rec (st\<lparr>mAlarms := al\<rparr>) else Inr (st\<lparr>mAlarms := al\<rparr>)) (\<lambda>st1.
           Inr (st1, if ARCH_BUF \<notin> set am then put_archs aput (arch = []) am archs [rec] else [])))"
    unfolding messPut_def assms(2) rbind_simps using q unfolding p_def deals_def by simp
  show ?thesis
  proof (cases known)
    case True
    then have "al = mAlarms st" using q by (auto simp: p_def put_alarm_def Let_def split: if_splits)
    then show ?thesis using m True assms(1) al by auto
  next
    case False
    have b: "put_buf rec (st\<lparr>mAlarms := al\<rparr>) = Inr (put_buf' rec (st\<lparr>mAlarms := al\<rparr>))"
      "mess_ok (put_buf' rec (st\<lparr>mAlarms := al\<rparr>))" "length (actMess (put_buf' rec (st\<lparr>mAlarms := al\<rparr>))) = length (actMess st)"
      "mAlarms (put_buf' rec (st\<lparr>mAlarms := al\<rparr>)) = al"
      using assms(1) put_buf_ok [of "st\<lparr>mAlarms := al\<rparr>"] put_buf'_ok [of "st\<lparr>mAlarms := al\<rparr>"]
      by (simp_all add: alarms_frame put_buf'_def Let_def)
    show ?thesis
    proof (cases "arch = [] \<or> ARCH_NOALRM \<in> set am \<or> ARCH_BUF \<in> set am")
      case True
      then show ?thesis using b m False al by auto
    next
      case nb: False
      have "mess_ok (st\<lparr>mAlarms := al\<rparr>)" using assms(1) by (simp add: alarms_frame)
      then show ?thesis using m False nb al by auto
    qed
  qed
qed

lemma task_commit_ok: "mess_ok st \<Longrightarrow> h < length (mBuf st) \<Longrightarrow> i < length (actMess st) \<Longrightarrow>
   mess_ok (task_commit i h b st) \<and> length (actMess (task_commit i h b st)) = length (actMess st)"
  by (auto simp: mess_ok_def task_commit_def dest!: set_update_subset_insert [THEN subsetD])

lemma task_turn_ok: "mess_ok st \<Longrightarrow> \<forall>i \<in> set is. i < length (actMess st) \<Longrightarrow> \<exists>st' cs. task_turn aput is st = Inr (st', cs) \<and> mess_ok st'"
proof (induction "is" arbitrary: st)
  case (Cons i "is")
  obtain st1 where c: "task_collect i st = Inr (st1, if pending st1 i = [] then None else Some (headBuf st, pending st1 i))"
    "mess_ok st1" "length (actMess st1) = length (actMess st)" "mBuf st1 = mBuf st" "headBuf st1 = headBuf st"
    using task_collect_unread [OF Cons.prems(1), of i] Cons.prems(2) by auto
  show ?case
  proof (cases "pending st1 i = []")
    case True
    then show ?thesis using c Cons.IH [OF c(2)] Cons.prems(2) by auto
  next
    case False
    let ?s = "task_commit i (headBuf st) (aput (rdId (actMess st1 ! i)) (pending st1 i)) st1"
    have "mess_ok ?s \<and> length (actMess ?s) = length (actMess st1)"
      using Cons.prems c by (intro task_commit_ok) (auto simp: mess_ok_def)
    then obtain st' cs where "task_turn aput is ?s = Inr (st', cs)" "mess_ok st'"
      using Cons.IH [of ?s] Cons.prems(2) c(3) by auto
    then show ?thesis using c(1) False by (auto simp: Let_def)
  qed
qed simp

lemma setActMess_ok: "mess_ok st \<Longrightarrow> mh < int (length (mBuf st)) \<Longrightarrow> mess_ok (setActMess wid mh val st)"
  by (auto simp: mess_ok_def setActMess_def Let_def dest: set_takeWhileD in_set_dropD set_dropWhileD)

text \<open>C29. Every operation keeps the state of the messages in order: the head and the indexes of the readers lie in
  the buffer.  Putting a message to any archives and a turn of the archiving task never fail, and the buffer gets
  the wanted size within its bounds.\<close>

theorem mess_state_ok:
  assumes "mess_ok st"
  shows "(\<exists>st' cs. messPut rd aput archs arch rec st = Inr (st', cs) \<and> mess_ok st') \<and>
    (\<exists>st' cs. task_turn tput [0 ..< length (actMess st)] st = Inr (st', cs) \<and> mess_ok st') \<and>
    mess_ok (setMessBufLen len st) \<and>
    length (mBuf (setMessBufLen len st)) = min MAX_MessBufSize (max DEF_MessBufSize len) \<and>
    mess_ok (archivator_start wid st) \<and> mess_ok (archivator_stop wid st) \<and> mess_ok (perSYSCall days per now cnt st)"
proof -
  let ?s = "st\<lparr>actMess := map (\<lambda>r. if rdId r = wid then r\<lparr>messHead := -1\<rparr> else r) (actMess st)\<rparr>"
  have "mess_ok ?s" using assms by (auto simp: mess_ok_def)
  then have "mess_ok (archivator_start wid st)" unfolding archivator_start_def by (rule setActMess_ok) simp
  moreover have "mess_ok (archivator_stop wid st)" unfolding archivator_stop_def by (rule setActMess_ok [OF assms]) simp
  moreover have "mess_ok (perSYSCall days per now cnt st)" using assms by (simp add: perSYSCall_def mess_ok_def)
  moreover have "\<exists>st' cs. task_turn tput [0 ..< length (actMess st)] st = Inr (st', cs) \<and> mess_ok st'"
    using assms by (intro task_turn_ok) auto
  moreover have "\<exists>st' cs. messPut rd aput archs arch rec st = Inr (st', cs) \<and> mess_ok st'"
    using messPut_total [OF assms] arch_map_total [of arch] by blast
  ultimately show ?thesis using mess_len_ok [OF assms] by blast
qed

definition demo_arch :: mess_arch where
  "demo_arch = \<lparr>mBuf = [empty_rec, empty_rec\<lparr>rtime := 1\<rparr>, empty_rec], headBuf = 2,
     actMess = [\<lparr>rdId = ''a'', messHead = 1\<rparr>], mAlarms = []\<rparr>"

lemma demo_ok: "mess_ok demo_arch"
  by (simp add: mess_ok_def demo_arch_def)

theorem mess_state_ok_witness: "mess_ok (archivator_start ''b'' demo_arch)"
  using mess_state_ok [OF demo_ok, of False "\<lambda>_ ml. ml" "[]" "[]" empty_rec "\<lambda>_ _. True" 0 "''b''" 0 0 0 0] by simp

section \<open>The properties\<close>

text \<open>C26. A turn of the archiving task while messages are put, fewer than the buffer has cells, to all archives and
  without redundancy: the messages it takes for an archiver are exactly the unread ones; when they are stored, the
  unread ones are those put meanwhile, in order; when storing fails, the unread and the new ones stay unread up to
  the size of the buffer.\<close>

theorem mess_task_no_loss:
  assumes "mess_ok st" "i < length (actMess st)" "length ps < length (mBuf st)"
    "task_collect i st = Inr (st1, Some (h, ms))"
  shows "\<exists>st2 cs. messPut_list False aput archs [] ps st1 = Inr (st2, cs) \<and> ms = pending st1 i \<and>
    pending (task_commit i h True st2) i = ps \<and>
    pending (task_commit i h False st2) i = lastn (length (mBuf st) - 1) (ms @ ps)"
proof -
  have "mess_ok st1" using task_collect_unread [OF assms(1,2)] assms(4) by auto
  from messPut_list_total [OF this, of aput archs ps] obtain st2 cs where p: "messPut_list False aput archs [] ps st1 = Inr (st2, cs)"
    by blast
  from mess_task_step [OF assms p] p show ?thesis by blast
qed

theorem mess_task_no_loss_witness:
  "\<exists>st2 cs. messPut_list False (\<lambda>_ ml. ml) [] [] [empty_rec\<lparr>rtime := 2\<rparr>] demo_arch = Inr (st2, cs) \<and>
    [empty_rec\<lparr>rtime := 1\<rparr>] = pending demo_arch 0 \<and>
    pending (task_commit 0 2 True st2) 0 = [empty_rec\<lparr>rtime := 2\<rparr>] \<and>
    pending (task_commit 0 2 False st2) 0 = lastn (length (mBuf demo_arch) - 1) ([empty_rec\<lparr>rtime := 1\<rparr>] @ [empty_rec\<lparr>rtime := 2\<rparr>])"
proof -
  have "task_collect 0 demo_arch = Inr (demo_arch, Some (2, [empty_rec\<lparr>rtime := 1\<rparr>]))"
    by code_simp
  from mess_task_no_loss [OF demo_ok _ _ this, of "[empty_rec\<lparr>rtime := 2\<rparr>]"] show ?thesis by (simp add: demo_arch_def)
qed

text \<open>C27. A request for messages of the buffer gives exactly its records of the time range, the level and the
  category, sorted by time; records of the same time stay in the order they were put.\<close>

theorem mess_get_sorted:
  assumes "mess_ok st" "0 \<le> level"
  shows "messGet ev bTm eTm category level ARCH_BUF upTo st =
    Inr (sort_key FTM (filter (get_rec (re_test (gCompile ev) category) bTm eTm level) (in_order st)),
         min eTm (tdiv (gCurTime ev) 1000000 - 1))"
  using assms fold_ins_rec [of "get_rec (re_test (gCompile ev) category) bTm eTm level" "in_order st" "[]"]
  by (simp add: messGet_def arch_map_buf walk_buf_fold Let_def)

theorem mess_get_sorted_witness:
  "messGet \<lparr>gCompile = \<lambda>_ _ _ _ _. None, gNow = \<lambda>_. 0, gCurTime = 5000000, gInterfTm = 7, gModules = [], gGet = \<lambda>_ _ rs. (rs, 0),
      gAddr = \<lambda>_. 0\<rparr> 0 9 [] 0 ARCH_BUF 0 demo_arch =
    Inr (sort_key FTM (filter (get_rec (re_test (\<lambda>_ _ _ _ _. None) []) 0 9 0) (in_order demo_arch)), min 9 (tdiv 5000000 1000000 - 1))"
  using mess_get_sorted [OF demo_ok, of 0 "\<lparr>gCompile = \<lambda>_ _ _ _ _. None, gNow = \<lambda>_. 0, gCurTime = 5000000, gInterfTm = 7, gModules = [],
      gGet = \<lambda>_ _ rs. (rs, 0), gAddr = \<lambda>_. 0\<rparr>" 0 9 "[]" 0] by simp

text \<open>C28. The alarm of the category of a message after it is put: when the archives of the message keep alarms, a
  message of a negative level sets it, unless it is newer than the message and there is no redundancy, or there is none
  and only changes are wanted, or, with redundancy, it is known already; a message of another level clears it, unless it is newer.
  The alarms of the other categories are never changed, and putting never fails.\<close>

theorem mess_alarm_state:
  assumes "mess_ok st" "arch_map arch = Inr am"
  shows "\<exists>st' cs. messPut rd aput archs arch rec st = Inr (st', cs) \<and>
    map_of (mAlarms st') c =
      (if c \<noteq> rcateg rec \<or> \<not> deals arch am then map_of (mAlarms st) c
       else case map_of (mAlarms st) c of
         None \<Rightarrow> if rlevel rec < 0 \<and> ARCH_ALRM_CH \<notin> set am then Some (rec\<lparr>rlevel := to_i8 \<bar>rlevel rec\<bar>\<rparr>) else None
       | Some a \<Rightarrow>
           if rlevel rec < 0 \<and> rd \<and> FTM a \<le> FTM rec \<and> \<bar>rlevel rec\<bar> = rlevel a \<and> rmess rec = rmess a then Some a
           else if rlevel rec < 0 \<and> (FTM a \<le> FTM rec \<or> rd) then Some (rec\<lparr>rlevel := to_i8 \<bar>rlevel rec\<bar>\<rparr>)
           else if 0 \<le> rlevel rec \<and> FTM a \<le> FTM rec then None else Some a)"
proof -
  obtain st' cs where m: "messPut rd aput archs arch rec st = Inr (st', cs)"
    "mAlarms st' = (if deals arch am then fst (put_alarm rd (ARCH_ALRM_CH \<in> set am) rec (mAlarms st)) else mAlarms st)"
    using messPut_total [OF assms] by blast
  show ?thesis
    by (intro exI [of _ st'] exI [of _ cs] conjI m(1))
      (auto simp: m(2) put_alarm_def Let_def update_conv delete_conv split: if_splits option.splits)
qed

theorem mess_alarm_state_witness:
  "\<exists>st' cs. messPut False (\<lambda>_ ml. ml) [] [] (empty_rec\<lparr>rlevel := -3\<rparr>) demo_arch = Inr (st', cs) \<and>
    map_of (mAlarms st') [] = Some (empty_rec\<lparr>rlevel := 3\<rparr>)"
  using mess_alarm_state [OF demo_ok arch_map_Nil, of False "\<lambda>_ ml. ml" "[]" "empty_rec\<lparr>rlevel := -3\<rparr>" "[]"]
  by (simp add: demo_arch_def empty_rec_def to_i8_def deals_def)

end
