(* ===== verification/Cpp_Real.thy ===== *)
theory Cpp_Real
  imports Cpp_String
begin

text \<open>
  The values the program keeps its data in: the 64-bit integer, the \<open>double\<close> as its IEEE bits and
  the conversions of C++ between them, and the reserved values \<open>EVAL_*\<close> for "no value"
  (\<^verbatim>\<open>src/src/tvariant.h\<close>).
\<close>

type_synonym u64 = "64 word"

section \<open>Doubles as bits\<close>

definition fneg :: "u64 \<Rightarrow> bool" where
  "fneg x \<longleftrightarrow> 9223372036854775808 \<le> uint x"

definition fexp :: "u64 \<Rightarrow> int" where
  "fexp x = uint x div 4503599627370496 mod 2048"

definition ffrac :: "u64 \<Rightarrow> int" where
  "ffrac x = uint x mod 4503599627370496"

definition fmag :: "u64 \<Rightarrow> int" where
  "fmag x = uint x mod 9223372036854775808"

definition is_nan :: "u64 \<Rightarrow> bool" where
  "is_nan x \<longleftrightarrow> fexp x = 2047 \<and> ffrac x \<noteq> 0"

text \<open>The values but NaN are ordered as their magnitudes with the sign; both zeroes are equal.\<close>

definition fkey :: "u64 \<Rightarrow> int" where
  "fkey x = (if fneg x then - fmag x else fmag x)"

definition feq :: "u64 \<Rightarrow> u64 \<Rightarrow> bool" where
  "feq x y \<longleftrightarrow> \<not> is_nan x \<and> \<not> is_nan y \<and> fkey x = fkey y"

definition flt :: "u64 \<Rightarrow> u64 \<Rightarrow> bool" where
  "flt x y \<longleftrightarrow> \<not> is_nan x \<and> \<not> is_nan y \<and> fkey x < fkey y"

definition fbool :: "u64 \<Rightarrow> bool" where
  "fbool x \<longleftrightarrow> fmag x \<noteq> 0"

section \<open>Integers and doubles\<close>

text \<open>The number of binary digits of a positive integer.\<close>

function bitlen :: "int \<Rightarrow> nat" where
  "bitlen n = (if n \<le> 0 then 0 else Suc (bitlen (n div 2)))"
  by auto

termination by (relation "measure nat") auto

declare bitlen.simps [simp del]

text \<open>\<open>m / 2^k\<close> rounded to the nearest integer, ties to the even one.\<close>

definition round_half_even :: "int \<Rightarrow> nat \<Rightarrow> int" where
  "round_half_even m k =
     (let q = m div 2 ^ k; r = m mod 2 ^ k
      in if 2 * r > 2 ^ k \<or> (2 * r = 2 ^ k \<and> odd q) then q + 1 else q)"

text \<open>The nearest double, ties to the even significand.\<close>

definition i2r :: "int \<Rightarrow> u64" where
  "i2r n =
     (let m = \<bar>n\<bar>; e = bitlen m - 1;
          f = (if e \<le> 52 then m * 2 ^ (52 - e) else round_half_even m (e - 52));
          b = (if m = 0 then 0 else (int e + 1022) * 4503599627370496 + f)
      in word_of_int (if n < 0 then 9223372036854775808 + b else b))"

text \<open>The conversion to \<open>int64_t\<close> truncates towards zero; out of the range it is undefined.\<close>

definition r2i :: "u64 \<Rightarrow> int res" where
  "r2i x =
     (if fexp x = 2047 then Inl Overflow
      else if fexp x < 1023 then Inr 0
      else let f = 4503599627370496 + ffrac x; e = fexp x;
               m = (if 1075 \<le> e then f * 2 ^ nat (e - 1075) else f div 2 ^ nat (1075 - e));
               n = (if fneg x then - m else m)
           in if - 9223372036854775808 \<le> n \<and> n \<le> 9223372036854775807 then Inr n else Inl Overflow)"

section \<open>Single precision\<close>

text \<open>A \<open>float\<close> widens exactly; a \<open>double\<close> narrows to the nearest \<open>float\<close>, to an infinity when it is too great.\<close>

definition f2d :: "u32 \<Rightarrow> u64" where
  "f2d x =
     (let s = uint x div 2147483648; e = uint x div 8388608 mod 256; m = uint x mod 8388608;
          k = bitlen m;
          b = (if e = 255 then 2047 * 4503599627370496 + m * 536870912
               else if e = 0 then (if m = 0 then 0 else (int k + 873) * 4503599627370496 + (m * 2 ^ (53 - k) - 4503599627370496))
               else (e + 896) * 4503599627370496 + m * 536870912)
      in word_of_int (s * 9223372036854775808 + b))"

definition d2f :: "u64 \<Rightarrow> u32" where
  "d2f x =
     (let s = (if fneg x then 2147483648 else 0); e = fexp x - 896; f = 4503599627370496 + ffrac x;
          b = (if is_nan x then 255 * 8388608 + 4194304 + ffrac x div 536870912 mod 4194304
               else if fexp x = 2047 then 255 * 8388608
               else if 1 \<le> e then min (255 * 8388608) ((e - 1) * 8388608 + round_half_even f 29)
               else if - 30 < e then round_half_even f (nat (30 - e))
               else 0)
      in word_of_int (s + b))"

section \<open>The reserved values\<close>

abbreviation (input) EVAL_BOOL :: int where "EVAL_BOOL \<equiv> 2"
abbreviation (input) EVAL_INT :: int where "EVAL_INT \<equiv> - 9223372036854775807"
abbreviation (input) EVAL_STR :: string where "EVAL_STR \<equiv> ''<EVAL>''"

text \<open>\<open>-1.79E308\<close> rounded to a \<open>double\<close>.\<close>

definition EVAL_REAL :: u64 where
  "EVAL_REAL = 0xFFEFDCF158ADBB99"

definition int64 :: "int \<Rightarrow> bool" where
  "int64 n \<longleftrightarrow> - 9223372036854775808 \<le> n \<and> n \<le> 9223372036854775807"

definition b2i :: "bool \<Rightarrow> int" where
  "b2i b = (if b then 1 else 0)"

section \<open>Integers up to 2 to the power of 53 are exact\<close>

lemma bitlen_bounds: "0 < n \<Longrightarrow> 0 < bitlen n \<and> 2 ^ (bitlen n - 1) \<le> n \<and> n < 2 ^ bitlen n"
proof (induction n rule: bitlen.induct)
  case (1 n)
  show ?case
  proof (cases "n = 1")
    case False
    with 1 have IH: "0 < bitlen (n div 2)" "2 ^ (bitlen (n div 2) - 1) \<le> n div 2" "n div 2 < 2 ^ bitlen (n div 2)"
      by auto
    obtain k where k: "bitlen (n div 2) = Suc k" using IH(1) by (cases "bitlen (n div 2)") auto
    have b: "bitlen n = Suc (Suc k)" using 1(2) k by (simp add: bitlen.simps [of n])
    have "2 * 2 ^ k \<le> n" "n < 4 * 2 ^ k" using IH(2,3) k by auto
    then show ?thesis unfolding b by simp
  qed (simp add: bitlen.simps)
qed

lemma bitlen_le: "0 < n \<Longrightarrow> n < 2 ^ k \<Longrightarrow> bitlen n \<le> k"
proof (rule ccontr)
  assume "0 < n" "n < 2 ^ k" "\<not> bitlen n \<le> k"
  then have "(2::int) ^ k \<le> 2 ^ (bitlen n - 1)" by (intro power_increasing) auto
  also have "\<dots> \<le> n" using bitlen_bounds [OF \<open>0 < n\<close>] by simp
  finally show False using \<open>n < 2 ^ k\<close> by simp
qed

text \<open>The fields of a double put together from its sign, exponent and significand.\<close>

lemma uint_word_u64: "0 \<le> b \<Longrightarrow> b < 18446744073709551616 \<Longrightarrow> uint (word_of_int b :: u64) = b"
  by (simp add: uint_word_of_int)

lemma fields:
  fixes s :: bool
  assumes "0 \<le> e" "e < 2047" "0 \<le> f" "f < 4503599627370496"
  defines "x \<equiv> (word_of_int (e * 4503599627370496 + f + (if s then 9223372036854775808 else 0)) :: u64)"
  shows "fneg x = s" "fexp x = e" "ffrac x = f" "fmag x = e * 4503599627370496 + f"
proof -
  have u: "uint x = e * 4503599627370496 + f + (if s then 9223372036854775808 else 0)"
    using assms(1-4) unfolding x_def by (intro uint_word_u64) auto
  have n: "e * 4503599627370496 + f < 9223372036854775808" using assms(2,4) by linarith
  show "fneg x = s" using n assms(1,3) by (simp add: fneg_def u)
  show "fmag x = e * 4503599627370496 + f" using n assms(1,3) by (auto simp: fmag_def u)
  have d: "(e * 4503599627370496 + f + (if s then 9223372036854775808 else 0)) div 4503599627370496 = e + (if s then 2048 else 0)"
    using assms(3,4) by auto
  show "fexp x = e" unfolding fexp_def u d using assms(1,2) by auto
  have "(if s then 9223372036854775808 else 0) = (if s then 2048 else 0) * (4503599627370496::int)" by simp
  then have "uint x = f + (e + (if s then 2048 else 0)) * 4503599627370496" unfolding u by (simp only: distrib_right ac_simps)
  then show "ffrac x = f" unfolding ffrac_def using assms(3,4) by (simp only: mod_mult_self1 mod_pos_pos_trivial)
qed

lemma i2r_fields:
  assumes "n \<noteq> 0" "\<bar>n\<bar> < 9007199254740992"
  defines "e \<equiv> bitlen \<bar>n\<bar> - 1"
  shows "e \<le> 52" "2 ^ e \<le> \<bar>n\<bar>" "fneg (i2r n) = (n < 0)" "fexp (i2r n) = int e + 1023"
    "ffrac (i2r n) = \<bar>n\<bar> * 2 ^ (52 - e) - 4503599627370496"
proof -
  have b: "0 < bitlen \<bar>n\<bar>" "2 ^ (bitlen \<bar>n\<bar> - 1) \<le> \<bar>n\<bar>" "\<bar>n\<bar> < 2 ^ bitlen \<bar>n\<bar>"
    using bitlen_bounds [of "\<bar>n\<bar>"] assms(1) by auto
  have "bitlen \<bar>n\<bar> \<le> 53" using assms by (intro bitlen_le) auto
  then show e: "e \<le> 52" unfolding e_def by simp
  show lo: "2 ^ e \<le> \<bar>n\<bar>" using b(2) unfolding e_def .
  have hi: "\<bar>n\<bar> < 2 ^ Suc e" using b(1,3) unfolding e_def by simp
  let ?f = "\<bar>n\<bar> * 2 ^ (52 - e)"
  have p: "(2::int) ^ e * 2 ^ (52 - e) = 4503599627370496" "(2::int) ^ Suc e * 2 ^ (52 - e) = 9007199254740992"
    using e by (simp_all add: power_add [symmetric])
  have f1: "4503599627370496 \<le> ?f" using mult_right_mono [OF lo, of "2 ^ (52 - e)"] p(1) by simp
  have f2: "?f < 9007199254740992" using mult_strict_right_mono [OF hi, of "2 ^ (52 - e)"] unfolding p(2) by simp
  have x: "i2r n = word_of_int ((int e + 1023) * 4503599627370496 + (?f - 4503599627370496)
      + (if n < 0 then 9223372036854775808 else 0))"
  proof -
    have "i2r n = word_of_int (if n < 0 then 9223372036854775808 + ((int e + 1022) * 4503599627370496 + ?f)
        else (int e + 1022) * 4503599627370496 + ?f)"
      unfolding i2r_def Let_def e_def [symmetric] using e assms(1) by (simp only: if_True if_False abs_eq_0)
    also have "\<dots> = word_of_int ((int e + 1023) * 4503599627370496 + (?f - 4503599627370496)
      + (if n < 0 then 9223372036854775808 else 0))"
      by (rule arg_cong [where f = word_of_int]) (simp add: distrib_right)
    finally show ?thesis .
  qed
  note F = fields [of "int e + 1023" "?f - 4503599627370496" "n < 0", folded x]
  show "fneg (i2r n) = (n < 0)" "fexp (i2r n) = int e + 1023" "ffrac (i2r n) = ?f - 4503599627370496"
    using F(1-3) f1 f2 e by auto
qed

lemma r2i_i2r: "\<bar>n\<bar> < 9007199254740992 \<Longrightarrow> r2i (i2r n) = Inr n"
proof (cases "n = 0")
  case True then show ?thesis by (simp add: i2r_def r2i_def fexp_def)
next
  case False
  assume n: "\<bar>n\<bar> < 9007199254740992"
  define e where "e = bitlen \<bar>n\<bar> - 1"
  note F = i2r_fields [OF False n, folded e_def]
  have "(if 1075 \<le> int e + 1023 then \<bar>n\<bar> * 2 ^ (52 - e) * 2 ^ nat (int e + 1023 - 1075)
      else \<bar>n\<bar> * 2 ^ (52 - e) div 2 ^ nat (1075 - (int e + 1023))) = \<bar>n\<bar>"
  proof (cases "e = 52")
    case False
    with F(1) have "nat (1075 - (int e + 1023)) = 52 - e" "\<not> 1075 \<le> int e + 1023" by auto
    then show ?thesis by simp
  qed simp
  moreover have "- 9223372036854775808 \<le> n \<and> n \<le> 9223372036854775807" using n by linarith
  moreover have "(if n < 0 then - \<bar>n\<bar> else \<bar>n\<bar>) = n" by auto
  moreover have "4503599627370496 + (\<bar>n\<bar> * 2 ^ (52 - e) - 4503599627370496) = \<bar>n\<bar> * 2 ^ (52 - e)" by linarith
  moreover have "int e + 1023 \<noteq> 2047" "\<not> int e + 1023 < 1023" using F(1) by linarith+
  ultimately show ?thesis unfolding r2i_def F(3-5) Let_def by (simp only: if_True if_False simp_thms)
qed

section \<open>Integers and their texts\<close>

lemma digit_chars: "digit_val c < 10 \<Longrightarrow> isdigit c"
  by (auto simp: digit_val_def split: if_splits)

lemma isdigit_other: "isdigit c \<Longrightarrow> \<not> isspace c \<and> c \<noteq> nul \<and> c \<noteq> CHR ''-'' \<and> c \<noteq> CHR ''+'' \<and> c \<noteq> CHR ''<''"
  by (auto simp: isdigit_def isspace_def code_def)

lemma nat_str_10_digits: "list_all isdigit (nat_str 10 n)"
  using nat_str_digits [of 10 n] digit_chars by (auto simp: list_all_iff)

lemma nat_str_Cons: obtains c cs where "nat_str 10 n = c # cs" "isdigit c" "list_all isdigit cs"
  using nat_str_10_digits [of n] by (cases "nat_str 10 n") auto

lemma int_str_not_EVAL [simp]: "int_str n \<noteq> EVAL_STR"
proof (cases "n < 0")
  case False
  then show ?thesis using nat_str_Cons [of "nat n"] by (metis int_str_def isdigit_other list.inject)
qed (simp add: int_str_def)

lemma strtol_int_str: "int64 n \<Longrightarrow> strtol 10 (int_str n) = n"
proof -
  assume n: "int64 n"
  obtain c cs where s: "nat_str 10 (nat \<bar>n\<bar>) = c # cs" "isdigit c" "list_all isdigit cs"
    by (rule nat_str_Cons)
  have v: "digits_val 10 (c # cs) = nat \<bar>n\<bar>" using nat_str_digits [of 10 "nat \<bar>n\<bar>"] s(1) by simp
  have c: "\<not> isspace c" "c \<noteq> nul" "c \<noteq> CHR ''-''" "c \<noteq> CHR ''+''" using isdigit_other [OF s(2)] by auto
  have t: "takeWhile (\<lambda>c. c \<noteq> nul) cs = cs"
    using s(3) by (auto simp: takeWhile_eq_all_conv list_all_iff dest: isdigit_other)
  have m: "\<not> isspace (CHR ''-'')" by (simp add: isspace_def code_def)
  show ?thesis
  proof (cases "n < 0")
    case True
    then have "int_str n = CHR ''-'' # c # cs" using s(1) by (simp add: int_str_def abs_if)
    moreover have "takeWhile (\<lambda>c. c \<noteq> nul) (CHR ''-'' # c # cs) = CHR ''-'' # c # cs" using c(2) t by simp
    ultimately show ?thesis using True n v m by (simp add: strtol_def int64_def)
  next
    case False
    then have i: "int_str n = c # cs" using s(1) by (simp add: int_str_def)
    have w: "takeWhile (\<lambda>c. c \<noteq> nul) (c # cs) = c # cs" using c(2) t by simp
    show ?thesis using False n v c unfolding strtol_def i w by (simp add: int64_def)
  qed
qed

lemma s2ll_int_str: "int64 n \<Longrightarrow> s2ll (int_str n) = n"
  by (simp add: s2ll_def strtol_int_str)

lemma s2i_int_str: "- 2147483648 \<le> n \<Longrightarrow> n < 2147483648 \<Longrightarrow> s2i (int_str n) = n"
  by (simp add: s2i_def strtol_int_str int64_def to_i32_id)

end
