(* ===== verification/Tvariant.thy ===== *)
theory Tvariant
  imports Cpp_Real Tsys_Path
begin

text \<open>
  The variant value \<open>TVariant\<close> (\<^verbatim>\<open>src/src/tvariant.cpp\<close>) and the values of the inputs and outputs
  of a function, \<open>TValFunc\<close> (\<^verbatim>\<open>src/src/tfunction.cpp\<close>): the typed storage, the reading and the
  writing of each type with its conversions, the reserved "no value" and the sign of modification.

  An object is its handle; a handle may be free.  What the code asks of objects (the name of the
  class, the text in XML and its parsing), the address of the \<open>TEValObj\<close> a call allocates and the
  conversions of a double to a text and back of the C library (\<open>snprintf\<close>, \<open>atof\<close>) are the
  environment \<open>venv\<close> of one call.  \<open>getO\<close> of a variant with a free handle also keeps the new
  \<open>TEValObj\<close>, which the reading functions here only give.
\<close>

section \<open>The storage\<close>

datatype vtype = Null | Boolean | Integer | Real | String | Object

text \<open>
  The union of \<open>TVariant\<close>: nothing written yet, the scalars, a text in the eight bytes of the union
  (\<open>mSize\<close> is its length), in a block of its own (\<open>mSize\<close> is its length) or in a \<open>std::string\<close>
  (\<open>mStdString\<close>), and the object.
\<close>

datatype 'h vstore = VNone | VB int | VI int | VR u64 | VMini string | VPtr string | VStd string | VO "'h option"

record 'h variant =
  mType :: vtype
  mFixedTp :: bool
  mStdStringOmit :: bool
  vval :: "'h vstore"

record 'h venv =
  r2s :: "u64 \<Rightarrow> string"
  s2r :: "string \<Rightarrow> u64"
  isEValObj :: "'h \<Rightarrow> bool"
  getStrXML :: "'h \<Rightarrow> string"
  parseStrXML :: "string \<Rightarrow> 'h option \<Rightarrow> 'h option"
  newEVal :: 'h
  newObj :: 'h

text \<open>Reading a member of the union that was not the last one written is undefined.\<close>

fun own_b :: "'h vstore \<Rightarrow> int res" where
  "own_b (VB b) = Inr b"
| "own_b _ = Inl UndefRead"

fun own_i :: "'h vstore \<Rightarrow> int res" where
  "own_i (VI i) = Inr i"
| "own_i _ = Inl UndefRead"

fun own_r :: "'h vstore \<Rightarrow> u64 res" where
  "own_r (VR r) = Inr r"
| "own_r _ = Inl UndefRead"

fun own_s :: "'h vstore \<Rightarrow> string res" where
  "own_s (VStd s) = Inr s"
| "own_s (VMini s) = Inr s"
| "own_s (VPtr s) = Inr s"
| "own_s _ = Inl UndefRead"

fun own_o :: "'h vstore \<Rightarrow> 'h option res" where
  "own_o (VO h) = Inr h"
| "own_o _ = Inl UndefRead"

definition setType :: "vtype \<Rightarrow> bool \<Rightarrow> bool \<Rightarrow> 'h variant \<Rightarrow> 'h variant" where
  "setType tp fixTp stdStringOmit v0 =
     (let v = v0\<lparr>mFixedTp := fixTp\<rparr>
      in if tp = mType v then v
         else case tp of
            String \<Rightarrow> v\<lparr>mType := tp, vval := VMini [], mStdStringOmit := stdStringOmit\<rparr>
          | Object \<Rightarrow> v\<lparr>mType := tp, vval := VO None\<rparr>
          | _ \<Rightarrow> v\<lparr>mType := tp, vval := VNone\<rparr>)"

section \<open>Reading a variant\<close>

definition getO :: "'h venv \<Rightarrow> 'h variant \<Rightarrow> 'h res" where
  "getO E v =
     (if mType v \<noteq> Object then Inr (newEVal E)
      else rbind (own_o (vval v)) (\<lambda>h. case h of None \<Rightarrow> Inr (newEVal E) | Some x \<Rightarrow> Inr x))"

definition getB :: "'h venv \<Rightarrow> 'h variant \<Rightarrow> int res" where
  "getB E v = (case mType v of
       Null \<Rightarrow> Inr 0
     | String \<Rightarrow> rbind (own_s (vval v)) (\<lambda>t. Inr (if t = EVAL_STR then EVAL_BOOL else b2i (s2i t \<noteq> 0)))
     | Integer \<Rightarrow> rbind (own_i (vval v)) (\<lambda>t. Inr (if t = EVAL_INT then EVAL_BOOL else b2i (t \<noteq> 0)))
     | Real \<Rightarrow> rbind (own_r (vval v)) (\<lambda>t. Inr (if feq t EVAL_REAL then EVAL_BOOL else b2i (fbool t)))
     | Object \<Rightarrow> rbind (getO E v) (\<lambda>t. Inr (if isEValObj E t then EVAL_BOOL else 1))
     | Boolean \<Rightarrow> own_b (vval v))"

definition getI :: "'h venv \<Rightarrow> 'h variant \<Rightarrow> int res" where
  "getI E v = (case mType v of
       String \<Rightarrow> rbind (own_s (vval v)) (\<lambda>t. Inr (if t = EVAL_STR then EVAL_INT else s2ll t))
     | Real \<Rightarrow> rbind (own_r (vval v)) (\<lambda>t. if feq t EVAL_REAL then Inr EVAL_INT else r2i t)
     | Boolean \<Rightarrow> rbind (getB E v) (\<lambda>t. Inr (if t = EVAL_BOOL then EVAL_INT else t))
     | Object \<Rightarrow> rbind (getO E v) (\<lambda>t. Inr (if isEValObj E t then EVAL_INT else 1))
     | Integer \<Rightarrow> own_i (vval v)
     | Null \<Rightarrow> Inr EVAL_INT)"

definition getR :: "'h venv \<Rightarrow> 'h variant \<Rightarrow> u64 res" where
  "getR E v = (case mType v of
       String \<Rightarrow> rbind (own_s (vval v)) (\<lambda>t. Inr (if t = EVAL_STR then EVAL_REAL else s2r E t))
     | Integer \<Rightarrow> rbind (getI E v) (\<lambda>t. Inr (if t = EVAL_INT then EVAL_REAL else i2r t))
     | Boolean \<Rightarrow> rbind (getB E v) (\<lambda>t. Inr (if t = EVAL_BOOL then EVAL_REAL else i2r t))
     | Object \<Rightarrow> rbind (getO E v) (\<lambda>t. Inr (if isEValObj E t then EVAL_REAL else i2r 1))
     | Real \<Rightarrow> own_r (vval v)
     | Null \<Rightarrow> Inr EVAL_REAL)"

definition getS :: "'h venv \<Rightarrow> 'h variant \<Rightarrow> string res" where
  "getS E v = (case mType v of
       Integer \<Rightarrow> rbind (getI E v) (\<lambda>t. Inr (if t = EVAL_INT then EVAL_STR else int_str t))
     | Real \<Rightarrow> rbind (getR E v) (\<lambda>t. Inr (if feq t EVAL_REAL then EVAL_STR else r2s E t))
     | Boolean \<Rightarrow> rbind (getB E v) (\<lambda>t. Inr (if t = EVAL_BOOL then EVAL_STR else i2s t Dec))
     | Object \<Rightarrow> rbind (getO E v) (\<lambda>t. Inr (if isEValObj E t then EVAL_STR else getStrXML E t))
     | String \<Rightarrow> own_s (vval v)
     | Null \<Rightarrow> Inr EVAL_STR)"

definition isEVal :: "'h venv \<Rightarrow> 'h variant \<Rightarrow> bool res" where
  "isEVal E v = (case mType v of
       String \<Rightarrow> rbind (getS E v) (\<lambda>t. Inr (t = EVAL_STR))
     | Integer \<Rightarrow> rbind (getI E v) (\<lambda>t. Inr (t = EVAL_INT))
     | Real \<Rightarrow> rbind (getR E v) (\<lambda>t. Inr (feq t EVAL_REAL))
     | Boolean \<Rightarrow> rbind (getB E v) (\<lambda>t. Inr (t = EVAL_BOOL))
     | Object \<Rightarrow> rbind (getO E v) (\<lambda>t. Inr (isEValObj E t))
     | Null \<Rightarrow> Inr True)"

text \<open>\<open>operator==\<close>; two objects are equal when they are the same one.\<close>

definition veq :: "'h venv \<Rightarrow> 'h variant \<Rightarrow> 'h variant \<Rightarrow> bool res" where
  "veq E v w =
     (if mType w \<noteq> mType v then Inr False
      else case mType v of
         Boolean \<Rightarrow> rbind (getB E w) (\<lambda>a. rbind (getB E v) (\<lambda>b. Inr (a = b)))
       | Integer \<Rightarrow> rbind (getI E w) (\<lambda>a. rbind (getI E v) (\<lambda>b. Inr (a = b)))
       | Real \<Rightarrow> rbind (getR E w) (\<lambda>a. rbind (getR E v) (\<lambda>b. Inr (feq a b)))
       | String \<Rightarrow> rbind (getS E w) (\<lambda>a. rbind (getS E v) (\<lambda>b. Inr (a = b)))
       | Object \<Rightarrow> rbind (getO E w) (\<lambda>a. rbind (getO E v) (\<lambda>b. Inr (a = b)))
       | Null \<Rightarrow> Inr False)"

section \<open>Writing a variant\<close>

text \<open>Taking the type of the written value, unless the type of the variant is fixed.\<close>

definition retype :: "vtype \<Rightarrow> 'h variant \<Rightarrow> 'h variant" where
  "retype tp v = (if mType v \<noteq> tp \<and> \<not> mFixedTp v then setType tp False False v else v)"

text \<open>Placing a text: the union itself, a block of its own up to 30 MB, or a \<open>std::string\<close>.\<close>

definition put_s :: "string \<Rightarrow> 'h variant \<Rightarrow> 'h variant res" where
  "put_s ivl v =
     (if length ivl < 8 then Inr (v\<lparr>vval := VMini ivl\<rparr>)
      else if mStdStringOmit v then
        (if length ivl > 30000000 then Inl (TError 0) else Inr (v\<lparr>vval := VPtr ivl\<rparr>))
      else Inr (v\<lparr>vval := VStd ivl\<rparr>))"

definition setB :: "int \<Rightarrow> 'h variant \<Rightarrow> 'h variant res" where
  "setB ivl v0 = (let v = retype Boolean v0 in case mType v of
       String \<Rightarrow> put_s (if ivl = EVAL_BOOL then EVAL_STR else i2s ivl Dec) v
     | Integer \<Rightarrow> Inr (v\<lparr>vval := VI (if ivl = EVAL_BOOL then EVAL_INT else ivl)\<rparr>)
     | Real \<Rightarrow> Inr (v\<lparr>vval := VR (if ivl = EVAL_BOOL then EVAL_REAL else i2r ivl)\<rparr>)
     | Boolean \<Rightarrow> Inr (v\<lparr>vval := VB ivl\<rparr>)
     | _ \<Rightarrow> Inr v)"

definition setI :: "int \<Rightarrow> 'h variant \<Rightarrow> 'h variant res" where
  "setI ivl v0 = (let v = retype Integer v0 in case mType v of
       String \<Rightarrow> put_s (if ivl = EVAL_INT then EVAL_STR else int_str ivl) v
     | Integer \<Rightarrow> Inr (v\<lparr>vval := VI ivl\<rparr>)
     | Real \<Rightarrow> Inr (v\<lparr>vval := VR (if ivl = EVAL_INT then EVAL_REAL else i2r ivl)\<rparr>)
     | Boolean \<Rightarrow> Inr (v\<lparr>vval := VB (if ivl = EVAL_INT then EVAL_BOOL else b2i (ivl \<noteq> 0))\<rparr>)
     | _ \<Rightarrow> Inr v)"

definition setR :: "'h venv \<Rightarrow> u64 \<Rightarrow> 'h variant \<Rightarrow> 'h variant res" where
  "setR E ivl v0 = (let v = retype Real v0 in case mType v of
       String \<Rightarrow> put_s (if feq ivl EVAL_REAL then EVAL_STR else r2s E ivl) v
     | Integer \<Rightarrow> rbind (if feq ivl EVAL_REAL then Inr EVAL_INT else r2i ivl) (\<lambda>i. Inr (v\<lparr>vval := VI i\<rparr>))
     | Real \<Rightarrow> Inr (v\<lparr>vval := VR ivl\<rparr>)
     | Boolean \<Rightarrow> Inr (v\<lparr>vval := VB (if feq ivl EVAL_REAL then EVAL_BOOL else b2i (fbool ivl))\<rparr>)
     | _ \<Rightarrow> Inr v)"

text \<open>
  Writing an object takes \<open>*val.o\<close> whatever the type is: with a fixed type but the object one the
  union holds no pointer to a handle.
\<close>

definition setO :: "'h option \<Rightarrow> 'h variant \<Rightarrow> 'h variant res" where
  "setO ivl v0 = (let v = retype Object v0
     in if mType v = Object then Inr (v\<lparr>vval := VO ivl\<rparr>) else Inl BadCast)"

definition setS :: "'h venv \<Rightarrow> string \<Rightarrow> 'h variant \<Rightarrow> 'h variant res" where
  "setS E ivl v0 = (let v = retype String v0 in case mType v of
       String \<Rightarrow> put_s ivl v
     | Integer \<Rightarrow> Inr (v\<lparr>vval := VI (if ivl = EVAL_STR then EVAL_INT else s2ll ivl)\<rparr>)
     | Real \<Rightarrow> Inr (v\<lparr>vval := VR (if ivl = EVAL_STR then EVAL_REAL else s2r E ivl)\<rparr>)
     | Boolean \<Rightarrow> Inr (v\<lparr>vval := VB (if ivl = EVAL_STR then EVAL_BOOL else b2i (s2i ivl \<noteq> 0))\<rparr>)
     | Object \<Rightarrow> (if ivl = EVAL_STR then setO (Some (newEVal E)) v
                   else rbind (getO E v) (\<lambda>h. setO (parseStrXML E ivl (Some h)) v))
     | Null \<Rightarrow> Inr v)"

definition assign :: "'h venv \<Rightarrow> 'h variant \<Rightarrow> 'h variant \<Rightarrow> 'h variant res" where
  "assign E vr v = (case mType vr of
       Null \<Rightarrow> if \<not> mFixedTp v then Inr (setType Null False False v) else setS E [] v
     | Boolean \<Rightarrow> rbind (getB E vr) (\<lambda>t. setB t v)
     | Integer \<Rightarrow> rbind (getI E vr) (\<lambda>t. setI t v)
     | Real \<Rightarrow> rbind (getR E vr) (\<lambda>t. setR E t v)
     | String \<Rightarrow> rbind (getS E vr) (\<lambda>t. rbind (setS E t v) (\<lambda>v'. Inr (v'\<lparr>mStdStringOmit := mStdStringOmit vr\<rparr>)))
     | Object \<Rightarrow> rbind (getO E vr) (\<lambda>t. setO (Some t) v))"

definition new_variant :: "'h variant" where
  "new_variant = \<lparr>mType = Null, mFixedTp = False, mStdStringOmit = False, vval = VNone\<rparr>"

definition copy_variant :: "'h venv \<Rightarrow> 'h variant \<Rightarrow> 'h variant res" where
  "copy_variant E var = assign E var new_variant"

text \<open>The constructors of a variant from a value.\<close>

definition vint :: "int \<Rightarrow> 'h variant" where
  "vint i = new_variant\<lparr>mType := Integer, vval := VI i\<rparr>"

definition vreal :: "u64 \<Rightarrow> 'h variant" where
  "vreal r = new_variant\<lparr>mType := Real, vval := VR r\<rparr>"

definition vbool :: "int \<Rightarrow> 'h variant" where
  "vbool b = new_variant\<lparr>mType := Boolean, vval := VB b\<rparr>"

definition vstr :: "string \<Rightarrow> 'h variant" where
  "vstr s = new_variant\<lparr>mType := String, vval := (if length s < 8 then VMini s else VStd s)\<rparr>"

lemma getI_vint [simp]: "getI E (vint i) = Inr i"
  by (simp add: getI_def vint_def)

section \<open>The reserved value\<close>

text \<open>What the storage of a variant holds is of its type.\<close>

fun held :: "vtype \<Rightarrow> 'h vstore \<Rightarrow> bool" where
  "held Boolean (VB _) = True"
| "held Integer (VI _) = True"
| "held Real (VR _) = True"
| "held String (VMini s) = (length s < 8)"
| "held String (VPtr s) = (8 \<le> length s \<and> length s \<le> 30000000)"
| "held String (VStd s) = (8 \<le> length s)"
| "held Object (VO _) = True"
| "held _ _ = False"

definition scalar :: "vtype \<Rightarrow> bool" where
  "scalar tp \<longleftrightarrow> tp \<in> {Boolean, Integer, Real, String}"

lemma feq_EVAL_self [simp]: "feq EVAL_REAL EVAL_REAL"
  by (simp add: feq_def is_nan_def fexp_def ffrac_def EVAL_REAL_def)

lemma EVAL_REAL_iff: "feq x EVAL_REAL \<longleftrightarrow> x = EVAL_REAL"
proof
  assume "feq x EVAL_REAL"
  then have k: "fkey x = fkey EVAL_REAL" by (simp add: feq_def)
  have e: "fkey EVAL_REAL = - 9218829891383704473" by (simp add: fkey_def fneg_def fmag_def EVAL_REAL_def)
  have m: "fmag x \<ge> 0" by (simp add: fmag_def)
  have n: "fneg x" using k e m by (auto simp: fkey_def split: if_splits)
  then have "uint x - 9223372036854775808 = fmag x"
  proof -
    have "uint x < 18446744073709551616" "9223372036854775808 \<le> uint x" using uint_lt2p [of x] n by (simp_all add: fneg_def)
    then have "(uint x - 9223372036854775808) mod 9223372036854775808 = uint x - 9223372036854775808"
      by (intro mod_pos_pos_trivial) auto
    then show ?thesis by (simp only: fmag_def minus_mod_self2)
  qed
  then have "uint x = uint EVAL_REAL" using k e n by (simp add: fkey_def EVAL_REAL_def)
  then show "x = EVAL_REAL" by (simp only: word_uint_eq_iff)
qed simp

lemma isEVal_cases:
  assumes "isEVal E v = Inr True" "scalar (mType v)"
  obtains "mType v = Boolean" "vval v = VB EVAL_BOOL" | "mType v = Integer" "vval v = VI EVAL_INT"
  | "mType v = Real" "vval v = VR EVAL_REAL" | "mType v = String" "own_s (vval v) = Inr EVAL_STR"
  using assms
  by (cases "mType v"; cases "vval v") (auto simp: isEVal_def scalar_def getB_def getI_def getR_def getS_def EVAL_REAL_iff)

lemma put_s_eval: "put_s EVAL_STR v = Inr (v\<lparr>vval := VMini EVAL_STR\<rparr>)"
  by (simp add: put_s_def)

lemma retype_scalar: "scalar tp \<Longrightarrow> (mFixedTp v \<Longrightarrow> scalar (mType v)) \<Longrightarrow> scalar (mType (retype tp v))"
  by (auto simp: retype_def setType_def Let_def split: vtype.splits)

definition evalv :: "vtype \<Rightarrow> 'h variant \<Rightarrow> bool" where
  "evalv tp v \<longleftrightarrow> (case tp of Boolean \<Rightarrow> vval v = VB EVAL_BOOL | Integer \<Rightarrow> vval v = VI EVAL_INT
     | Real \<Rightarrow> vval v = VR EVAL_REAL | String \<Rightarrow> vval v = VMini EVAL_STR | _ \<Rightarrow> False)"

lemma evalv_isEVal: "mType v = tp \<Longrightarrow> evalv tp v \<Longrightarrow> isEVal E v = Inr True"
  by (cases tp) (auto simp: evalv_def isEVal_def getB_def getI_def getR_def getS_def)

definition eval_put :: "vtype \<Rightarrow> 'h variant \<Rightarrow> 'h variant res \<Rightarrow> bool" where
  "eval_put tp v r \<longleftrightarrow> (\<exists>v'. r = Inr v' \<and> mType v' = mType (retype tp v) \<and> mFixedTp v' = mFixedTp (retype tp v)
      \<and> evalv (mType v') v')"

lemma eval_put_I: "r = Inr v' \<Longrightarrow> mType v' = mType (retype tp v) \<Longrightarrow> mFixedTp v' = mFixedTp (retype tp v)
  \<Longrightarrow> evalv (mType v') v' \<Longrightarrow> eval_put tp v r"
  by (auto simp: eval_put_def)

lemma eval_put_setB: "scalar (mType (retype Boolean v)) \<Longrightarrow> eval_put Boolean v (setB EVAL_BOOL v)"
  by (cases "mType (retype Boolean v)") (simp_all add: eval_put_def setB_def evalv_def put_s_eval scalar_def)

lemma eval_put_setI: "scalar (mType (retype Integer v)) \<Longrightarrow> eval_put Integer v (setI EVAL_INT v)"
  by (cases "mType (retype Integer v)") (simp_all add: eval_put_def setI_def evalv_def put_s_eval scalar_def)

lemma eval_put_setR: "scalar (mType (retype Real v)) \<Longrightarrow> eval_put Real v (setR E EVAL_REAL v)"
  by (cases "mType (retype Real v)") (simp_all add: eval_put_def setR_def evalv_def put_s_eval scalar_def)

lemma eval_put_setS: "scalar (mType (retype String v)) \<Longrightarrow> eval_put String v (setS E EVAL_STR v)"
  by (cases "mType (retype String v)") (simp_all add: eval_put_def setS_def evalv_def put_s_eval scalar_def)

lemma retype_facts: "mFixedTp (retype tp v) = mFixedTp v" "mType (retype tp v) = (if mFixedTp v then mType v else tp)"
  by (auto simp: retype_def setType_def Let_def split: vtype.splits)

text \<open>C30. No value stays no value: assigning a variant that holds the reserved value of its scalar type
  to any variant that is not fixed, or is fixed to any other scalar type, gives the reserved value of the
  type the written variant has then.\<close>

theorem variant_eval_kept:
  assumes "isEVal E vr = Inr True" "scalar (mType vr)" "mFixedTp v \<Longrightarrow> scalar (mType v)"
  shows "\<exists>v'. assign E vr v = Inr v' \<and> isEVal E v' = Inr True \<and> mFixedTp v' = mFixedTp v
    \<and> mType v' = (if mFixedTp v then mType v else mType vr)"
proof -
  have sc: "scalar (mType (retype tp v))" if "scalar tp" for tp using that assms(3) by (auto simp: retype_facts)
  have P: "eval_put Boolean v (setB EVAL_BOOL v)" "eval_put Integer v (setI EVAL_INT v)"
    "eval_put Real v (setR E EVAL_REAL v)" "eval_put String v (setS E EVAL_STR v)"
    by (intro eval_put_setB eval_put_setI eval_put_setR eval_put_setS sc; simp add: scalar_def)+
  have d: "rbind r Inr = r" for r :: "'a variant res" by (cases r) auto
  have fin: "\<exists>v'. rbind r (\<lambda>v'. Inr (if k then v'\<lparr>mStdStringOmit := x\<rparr> else v')) = Inr v' \<and> isEVal E v' = Inr True \<and> mFixedTp v' = mFixedTp v
    \<and> mType v' = (if mFixedTp v then mType v else mType vr)" if ep: "eval_put (mType vr) v r" for r k x
  proof -
    obtain v' where v': "r = Inr v'" "mType v' = mType (retype (mType vr) v)" "mFixedTp v' = mFixedTp v" "evalv (mType v') v'"
      using ep unfolding eval_put_def retype_facts(1) by blast
    let ?w = "if k then v'\<lparr>mStdStringOmit := x\<rparr> else v'"
    have "isEVal E ?w = Inr True" using v'(4) by (intro evalv_isEVal [of _ "mType v'"]) (auto simp: evalv_def split: vtype.splits)
    then show ?thesis using v' by (auto simp: retype_facts)
  qed
  from assms(1,2) show ?thesis
  proof (cases rule: isEVal_cases)
    case 1 with fin [of "setB EVAL_BOOL v" False] P(1) show ?thesis by (simp add: assign_def getB_def d)
  next
    case 2 with fin [of "setI EVAL_INT v" False] P(2) show ?thesis by (simp add: assign_def getI_def d)
  next
    case 3 with fin [of "setR E EVAL_REAL v" False] P(3) show ?thesis by (simp add: assign_def getR_def d)
  next
    case 4 with fin [of "setS E EVAL_STR v" True "mStdStringOmit vr"] P(4) show ?thesis by (simp add: assign_def getS_def)
  qed
qed

definition wit_env :: "nat venv" where
  "wit_env = \<lparr>r2s = (\<lambda>_. ''1''), s2r = (\<lambda>_. 0), isEValObj = (\<lambda>h. h = 0), getStrXML = (\<lambda>_. ''<Object/>''),
     parseStrXML = (\<lambda>_ _. Some 1), newEVal = 0, newObj = 2\<rparr>"

lemma variant_eval_kept_witness:
  "\<exists>v'. assign wit_env \<lparr>mType = Integer, mFixedTp = False, mStdStringOmit = False, vval = VI EVAL_INT\<rparr>
      \<lparr>mType = String, mFixedTp = True, mStdStringOmit = False, vval = VMini ''12''\<rparr> = Inr v' \<and> mType v' = String \<and> isEVal wit_env v' = Inr True"
  using variant_eval_kept [of wit_env "\<lparr>mType = Integer, mFixedTp = False, mStdStringOmit = False, vval = VI EVAL_INT\<rparr>"
      "\<lparr>mType = String, mFixedTp = True, mStdStringOmit = False, vval = VMini ''12''\<rparr>"]
  by (auto simp: isEVal_def getI_def scalar_def)

section \<open>The type of the storage\<close>

definition wf_variant :: "'h variant \<Rightarrow> bool" where
  "wf_variant v \<longleftrightarrow> mType v = Null \<or> held (mType v) (vval v)"

datatype 'h vop = WB int | WI int | WR u64 | WS string | WO "'h option" | WAssign "'h variant"

definition vop_run :: "'h venv \<Rightarrow> 'h vop \<Rightarrow> 'h variant \<Rightarrow> 'h variant res" where
  "vop_run E a v = (case a of WB b \<Rightarrow> setB b v | WI i \<Rightarrow> setI i v | WR r \<Rightarrow> setR E r v | WS s \<Rightarrow> setS E s v
     | WO h \<Rightarrow> setO h v | WAssign w \<Rightarrow> assign E w v)"

definition keeps :: "'h variant res \<Rightarrow> bool" where
  "keeps r \<longleftrightarrow> (case r of Inl e \<Rightarrow> e \<in> {TError 0, Overflow, BadCast} | Inr v \<Rightarrow> wf_variant v)"

lemma keeps_simps [simp]: "keeps (Inr v) = wf_variant v" "keeps (Inl e) = (e \<in> {TError 0, Overflow, BadCast})"
  by (simp_all add: keeps_def)

lemma keeps_put_s [simp]: "mType v = String \<Longrightarrow> keeps (put_s t v)"
  by (auto simp: put_s_def wf_variant_def)

lemma held_put [simp]:
  "mType v = Boolean \<Longrightarrow> wf_variant (v\<lparr>vval := VB b\<rparr>)" "mType v = Integer \<Longrightarrow> wf_variant (v\<lparr>vval := VI i\<rparr>)"
  "mType v = Real \<Longrightarrow> wf_variant (v\<lparr>vval := VR r\<rparr>)" "mType v = Object \<Longrightarrow> wf_variant (v\<lparr>vval := VO h\<rparr>)"
  "mType v = Null \<Longrightarrow> wf_variant v"
  by (simp_all add: wf_variant_def)

lemma r2i_error: "r2i x = Inl e \<Longrightarrow> e = Overflow"
  by (auto simp: r2i_def Let_def split: if_splits)

lemma retype_same: "mType (retype tp v) \<noteq> tp \<Longrightarrow> retype tp v = v"
  using retype_facts(2) [of tp v] by (auto simp: retype_def)

lemma keeps_scalars:
  assumes "wf_variant v"
  shows "keeps (setB b v)" "keeps (setI i v)" "keeps (setR E r v)" "keeps (setO h v)"
proof -
  show "keeps (setB b v)"
    using assms retype_same [of Boolean v] by (cases "mType (retype Boolean v)") (auto simp: setB_def)
  show "keeps (setI i v)"
    using assms retype_same [of Integer v] by (cases "mType (retype Integer v)") (auto simp: setI_def)
  have "keeps (rbind (if feq r EVAL_REAL then Inr EVAL_INT else r2i r) (\<lambda>i. Inr (w\<lparr>vval := VI i\<rparr>)))"
    if "mType w = Integer" for w :: "'a variant"
    using that by (cases "r2i r") (auto dest: r2i_error)
  then show "keeps (setR E r v)"
    using assms retype_same [of Real v] by (cases "mType (retype Real v)") (auto simp: setR_def)
  show "keeps (setO h v)" by (simp add: setO_def Let_def)
qed

lemma wf_own:
  assumes "wf_variant v"
  shows "mType v = Boolean \<Longrightarrow> \<exists>x. vval v = VB x" "mType v = Integer \<Longrightarrow> \<exists>x. vval v = VI x"
    "mType v = Real \<Longrightarrow> \<exists>x. vval v = VR x" "mType v = Object \<Longrightarrow> \<exists>x. vval v = VO x"
    "mType v = String \<Longrightarrow> \<exists>x. own_s (vval v) = Inr x"
  using assms by (cases "vval v"; simp add: wf_variant_def)+

lemma wf_reads:
  assumes "wf_variant v"
  shows "\<exists>x. getO E v = Inr x" "\<exists>x. getB E v = Inr x" "(\<exists>x. getI E v = Inr x) \<or> getI E v = Inl Overflow"
    "\<exists>x. getR E v = Inr x" "\<exists>x. getS E v = Inr x"
proof -
  show O: "\<exists>x. getO E v = Inr x" using wf_own(4) [OF assms] by (auto simp: getO_def split: option.splits)
  show B: "\<exists>x. getB E v = Inr x" using O wf_own [OF assms] by (cases "mType v") (fastforce simp: getB_def)+
  have "\<exists>x. r2i t = Inr x \<or> r2i t = Inl Overflow" for t by (cases "r2i t") (auto dest: r2i_error)
  then show I: "(\<exists>x. getI E v = Inr x) \<or> getI E v = Inl Overflow"
    using O B wf_own [OF assms] by (cases "mType v") (fastforce simp: getI_def)+
  have I': "mType v = Integer \<Longrightarrow> \<exists>x. getI E v = Inr x" using wf_own(2) [OF assms] by (auto simp: getI_def)
  show R: "\<exists>x. getR E v = Inr x" using O B I' wf_own [OF assms] by (cases "mType v") (fastforce simp: getR_def)+
  show "\<exists>x. getS E v = Inr x" using O B I' R wf_own [OF assms] by (cases "mType v") (fastforce simp: getS_def)+
qed

lemma keeps_setS: "wf_variant v \<Longrightarrow> keeps (setS E s v)"
proof -
  assume wf: "wf_variant v"
  have o1: "keeps (rbind (getO E w) (\<lambda>h. setO (parseStrXML E s (Some h)) w))" if w: "wf_variant w" for w
    using wf_reads(1) [OF w, of E] keeps_scalars(4) [OF w] by auto
  show ?thesis
    using wf retype_same [of String v] keeps_scalars(4) o1
    by (cases "mType (retype String v)") (auto simp: setS_def)
qed

lemma keeps_assign: "wf_variant w \<Longrightarrow> wf_variant v \<Longrightarrow> keeps (assign E w v)"
proof -
  assume w: "wf_variant w" and v: "wf_variant v"
  have s: "keeps (rbind (setS E t v) (\<lambda>v'. Inr (v'\<lparr>mStdStringOmit := mStdStringOmit w\<rparr>)))" for t
    using keeps_setS [OF v, of E t] by (cases "setS E t v") (auto simp: wf_variant_def)
  have n: "wf_variant (setType Null False False v)" by (simp add: setType_def wf_variant_def Let_def)
  show ?thesis
    using wf_reads [OF w, of E] keeps_scalars [OF v] keeps_setS [OF v] s n
    by (cases "mType w") (auto simp: assign_def)
qed

definition good_op :: "'h vop \<Rightarrow> bool" where
  "good_op a \<longleftrightarrow> (case a of WAssign w \<Rightarrow> wf_variant w | _ \<Rightarrow> True)"

lemma keeps_op: "wf_variant v \<Longrightarrow> good_op a \<Longrightarrow> keeps (vop_run E a v)"
  by (cases a) (auto simp: vop_run_def good_op_def keeps_scalars keeps_setS keeps_assign)

fun vop_runs :: "('h venv \<times> 'h vop) list \<Rightarrow> 'h variant \<Rightarrow> 'h variant res" where
  "vop_runs [] v = Inr v"
| "vop_runs ((E, a) # as) v = rbind (vop_run E a v) (vop_runs as)"

lemma keeps_runs: "wf_variant v \<Longrightarrow> list_all (good_op \<circ> snd) ops \<Longrightarrow> keeps (vop_runs ops v)"
proof (induction ops arbitrary: v)
  case (Cons a ops)
  obtain E b where a: "a = (E, b)" by (cases a)
  have "keeps (vop_run E b v)" using Cons.prems a by (intro keeps_op) auto
  then show ?case using Cons a by (cases "vop_run E b v") auto
qed simp

text \<open>C31. The union of a variant is read as what was last written to it: after any sequence of writes and
  assignments to a well-formed variant each reading is defined, but for a number too great for the
  integer it is converted to, and the sequence stops only by the limit of a text, by such a number or by
  an object written to a variant fixed to another type.\<close>

theorem variant_type_safe:
  assumes "wf_variant v" "list_all (good_op \<circ> snd) ops" "vop_runs ops v = r"
  shows "case r of Inl e \<Rightarrow> e \<in> {TError 0, Overflow, BadCast}
    | Inr w \<Rightarrow> wf_variant w \<and> (\<forall>e. getB E w \<noteq> Inl e \<and> getR E w \<noteq> Inl e \<and> getS E w \<noteq> Inl e \<and> getO E w \<noteq> Inl e
        \<and> (getI E w = Inl e \<longrightarrow> e = Overflow))"
proof -
  have k: "keeps r" using keeps_runs [OF assms(1,2)] assms(3) by simp
  show ?thesis
  proof (cases r)
    case (Inr w)
    with k have "wf_variant w" by simp
    from wf_reads [OF this, of E] Inr k show ?thesis by auto
  qed (use k in simp)
qed

lemma variant_type_safe_witness:
  "\<exists>w. vop_runs [(wit_env, WI 7), (wit_env, WR EVAL_REAL), (wit_env, WS ''open'')] new_variant = Inr w \<and> getS wit_env w \<noteq> Inl UndefRead"
proof -
  have r: "vop_runs [(wit_env, WI 7), (wit_env, WR EVAL_REAL), (wit_env, WS ''open'')] new_variant =
    Inr \<lparr>mType = String, mFixedTp = False, mStdStringOmit = False, vval = VMini ''open''\<rparr>"
    by (simp add: vop_run_def setI_def setR_def setS_def put_s_def retype_def setType_def new_variant_def)
  show ?thesis
    using variant_type_safe [of new_variant "[(wit_env, WI 7), (wit_env, WR EVAL_REAL), (wit_env, WS ''open'')]", OF _ _ r, of wit_env] r
    by (simp add: good_op_def wf_variant_def new_variant_def)
qed

end
