(* ===== verification/Tfunction.thy ===== *)
theory Tfunction
  imports Tvariant Tmess_Utf8
begin

text \<open>
  The values of the inputs and outputs of a function, \<open>TValFunc\<close>
  (\<^verbatim>\<open>src/src/tfunction.cpp\<close>): their creation from the description of the function, the typed
  reading and writing with conversions, and the sign of modification.  The lock of the texts and the
  objects is not modelled: the operations here are the critical sections.
\<close>

section \<open>The values\<close>

record 'h fslot =
  tp :: vtype
  mdf :: bool
  fval :: "'h vstore"

record 'h valfunc =
  mVal :: "'h fslot list"
  mMdfChk :: bool

record fio =
  io_type :: vtype
  io_sel :: bool
  io_def :: string

definition slot_new :: "'h venv \<Rightarrow> fio \<Rightarrow> 'h fslot" where
  "slot_new E io =
     (let def = (if io_sel io then fst (strLine (io_def io) 0 None) else io_def io)
      in \<lparr>tp = io_type io, mdf = False, fval = (case io_type io of
             String \<Rightarrow> VStd def
           | Integer \<Rightarrow> VI (s2ll def)
           | Real \<Rightarrow> VR (s2r E def)
           | Boolean \<Rightarrow> VB (to_i8 (s2i def))
           | Object \<Rightarrow> VO (Some (newObj E))
           | Null \<Rightarrow> VNone)\<rparr>)"

section \<open>Reading\<close>

text \<open>Taking the object of a free handle throws.\<close>

definition handle_at :: "'h option \<Rightarrow> 'h res" where
  "handle_at h = (case h of None \<Rightarrow> Inl (TError 0) | Some x \<Rightarrow> Inr x)"

definition slot_getO :: "'h fslot \<Rightarrow> 'h option res" where
  "slot_getO sl = (if tp sl \<noteq> Object then Inl (TError 0) else own_o (fval sl))"

definition slot_getB :: "'h fslot \<Rightarrow> int res" where
  "slot_getB sl = (case tp sl of
       String \<Rightarrow> rbind (own_s (fval sl)) (\<lambda>t. Inr (if t \<noteq> EVAL_STR then b2i (s2i t \<noteq> 0) else EVAL_BOOL))
     | Integer \<Rightarrow> rbind (own_i (fval sl)) (\<lambda>t. Inr (if t \<noteq> EVAL_INT then b2i (t \<noteq> 0) else EVAL_BOOL))
     | Real \<Rightarrow> rbind (own_r (fval sl)) (\<lambda>t. Inr (if \<not> feq t EVAL_REAL then b2i (fbool t) else EVAL_BOOL))
     | Boolean \<Rightarrow> own_b (fval sl)
     | _ \<Rightarrow> Inr EVAL_BOOL)"

definition slot_getI :: "'h fslot \<Rightarrow> int res" where
  "slot_getI sl = (case tp sl of
       String \<Rightarrow> rbind (own_s (fval sl)) (\<lambda>t. Inr (if t \<noteq> EVAL_STR then s2ll t else EVAL_INT))
     | Real \<Rightarrow> rbind (own_r (fval sl)) (\<lambda>t. if \<not> feq t EVAL_REAL then r2i t else Inr EVAL_INT)
     | Boolean \<Rightarrow> rbind (slot_getB sl) (\<lambda>t. Inr (if t \<noteq> EVAL_BOOL then b2i (t \<noteq> 0) else EVAL_INT))
     | Integer \<Rightarrow> own_i (fval sl)
     | _ \<Rightarrow> Inr EVAL_INT)"

definition slot_getR :: "'h venv \<Rightarrow> 'h fslot \<Rightarrow> u64 res" where
  "slot_getR E sl = (case tp sl of
       String \<Rightarrow> rbind (own_s (fval sl)) (\<lambda>t. Inr (if t \<noteq> EVAL_STR then s2r E t else EVAL_REAL))
     | Integer \<Rightarrow> rbind (slot_getI sl) (\<lambda>t. Inr (if t \<noteq> EVAL_INT then i2r t else EVAL_REAL))
     | Boolean \<Rightarrow> rbind (slot_getB sl) (\<lambda>t. Inr (if t \<noteq> EVAL_BOOL then i2r (b2i (t \<noteq> 0)) else EVAL_REAL))
     | Real \<Rightarrow> own_r (fval sl)
     | _ \<Rightarrow> Inr EVAL_REAL)"

definition slot_getS :: "'h venv \<Rightarrow> 'h fslot \<Rightarrow> string res" where
  "slot_getS E sl = (case tp sl of
       Integer \<Rightarrow> rbind (slot_getI sl) (\<lambda>t. Inr (if t \<noteq> EVAL_INT then int_str t else EVAL_STR))
     | Real \<Rightarrow> rbind (slot_getR E sl) (\<lambda>t. Inr (if \<not> feq t EVAL_REAL then r2s E t else EVAL_STR))
     | Boolean \<Rightarrow> rbind (slot_getB sl) (\<lambda>t. Inr (if t \<noteq> EVAL_BOOL then i2s (b2i (t \<noteq> 0)) Dec else EVAL_STR))
     | Object \<Rightarrow> rbind (slot_getO sl) (\<lambda>h. rbind (handle_at h) (\<lambda>x. Inr (getStrXML E x)))
     | String \<Rightarrow> own_s (fval sl)
     | Null \<Rightarrow> Inr EVAL_STR)"

definition vf_at :: "'h valfunc \<Rightarrow> nat \<Rightarrow> ('h fslot \<Rightarrow> 'b res) \<Rightarrow> 'b res" where
  "vf_at vf idx f = (if idx \<ge> length (mVal vf) then Inl (TError 0) else f (mVal vf ! idx))"

definition vf_get :: "'h venv \<Rightarrow> 'h valfunc \<Rightarrow> nat \<Rightarrow> 'h variant res" where
  "vf_get E vf idx = vf_at vf idx (\<lambda>sl. case tp sl of
       Integer \<Rightarrow> rbind (slot_getI sl) (\<lambda>t. setI t new_variant)
     | Real \<Rightarrow> rbind (slot_getR E sl) (\<lambda>t. setR E t new_variant)
     | Boolean \<Rightarrow> rbind (slot_getB sl) (\<lambda>t. setB t new_variant)
     | String \<Rightarrow> rbind (slot_getS E sl) (\<lambda>t. setS E t new_variant)
     | Object \<Rightarrow> rbind (slot_getO sl) (\<lambda>t. setO t new_variant)
     | Null \<Rightarrow> setS E EVAL_STR new_variant)"

section \<open>Writing\<close>

text \<open>
  Writing a value of the own type: with \<open>mMdfChk\<close> the old value is read and compared, and a
  different one sets the sign.
\<close>

definition slot_put :: "bool \<Rightarrow> bool res \<Rightarrow> 'h vstore \<Rightarrow> 'h fslot \<Rightarrow> 'h fslot res" where
  "slot_put chk differs st sl =
     (if chk then rbind differs (\<lambda>d. Inr (sl\<lparr>mdf := mdf sl \<or> d, fval := st\<rparr>)) else Inr (sl\<lparr>fval := st\<rparr>))"

definition slot_putB :: "bool \<Rightarrow> int \<Rightarrow> 'h fslot \<Rightarrow> 'h fslot res" where
  "slot_putB chk v sl = slot_put chk (rbind (own_b (fval sl)) (\<lambda>p. Inr (v \<noteq> p))) (VB v) sl"

definition slot_putI :: "bool \<Rightarrow> int \<Rightarrow> 'h fslot \<Rightarrow> 'h fslot res" where
  "slot_putI chk v sl = slot_put chk (rbind (own_i (fval sl)) (\<lambda>p. Inr (v \<noteq> p))) (VI v) sl"

definition slot_putR :: "bool \<Rightarrow> u64 \<Rightarrow> 'h fslot \<Rightarrow> 'h fslot res" where
  "slot_putR chk v0 sl =
     (let v = (if is_nan v0 then 0 else v0)
      in slot_put chk (rbind (own_r (fval sl)) (\<lambda>p. Inr (\<not> feq v p))) (VR v) sl)"

definition slot_putS :: "bool \<Rightarrow> string \<Rightarrow> 'h fslot \<Rightarrow> 'h fslot res" where
  "slot_putS chk v sl = slot_put chk (rbind (own_s (fval sl)) (\<lambda>p. Inr (v \<noteq> p))) (VStd v) sl"

definition slot_putO :: "bool \<Rightarrow> 'h option \<Rightarrow> 'h fslot \<Rightarrow> 'h fslot res" where
  "slot_putO chk v sl = slot_put chk (rbind (own_o (fval sl)) (\<lambda>p. Inr (v \<noteq> p))) (VO v) sl"

definition slot_setB :: "'h venv \<Rightarrow> bool \<Rightarrow> int \<Rightarrow> 'h fslot \<Rightarrow> 'h fslot res" where
  "slot_setB E chk v sl = (case tp sl of
       String \<Rightarrow> slot_putS chk (if v \<noteq> EVAL_BOOL then i2s (b2i (v \<noteq> 0)) Dec else EVAL_STR) sl
     | Integer \<Rightarrow> slot_putI chk (if v \<noteq> EVAL_BOOL then b2i (v \<noteq> 0) else EVAL_INT) sl
     | Real \<Rightarrow> slot_putR chk (if v \<noteq> EVAL_BOOL then i2r (b2i (v \<noteq> 0)) else EVAL_REAL) sl
     | Object \<Rightarrow> if v = EVAL_BOOL then slot_putO chk (Some (newEVal E)) sl else Inr sl
     | Boolean \<Rightarrow> slot_putB chk v sl
     | Null \<Rightarrow> Inr sl)"

definition slot_setI :: "'h venv \<Rightarrow> bool \<Rightarrow> int \<Rightarrow> 'h fslot \<Rightarrow> 'h fslot res" where
  "slot_setI E chk v sl = (case tp sl of
       String \<Rightarrow> slot_putS chk (if v \<noteq> EVAL_INT then int_str v else EVAL_STR) sl
     | Real \<Rightarrow> slot_putR chk (if v \<noteq> EVAL_INT then i2r v else EVAL_REAL) sl
     | Boolean \<Rightarrow> slot_putB chk (if v \<noteq> EVAL_INT then b2i (v \<noteq> 0) else EVAL_BOOL) sl
     | Object \<Rightarrow> if v = EVAL_INT then slot_putO chk (Some (newEVal E)) sl else Inr sl
     | Integer \<Rightarrow> slot_putI chk v sl
     | Null \<Rightarrow> Inr sl)"

definition slot_setR :: "'h venv \<Rightarrow> bool \<Rightarrow> u64 \<Rightarrow> 'h fslot \<Rightarrow> 'h fslot res" where
  "slot_setR E chk v sl = (case tp sl of
       String \<Rightarrow> slot_putS chk (if \<not> feq v EVAL_REAL then r2s E v else EVAL_STR) sl
     | Integer \<Rightarrow> rbind (if \<not> feq v EVAL_REAL then r2i v else Inr EVAL_INT) (\<lambda>i. slot_putI chk i sl)
     | Boolean \<Rightarrow> slot_putB chk (if \<not> feq v EVAL_REAL then b2i (fbool v) else EVAL_BOOL) sl
     | Object \<Rightarrow> if feq v EVAL_REAL then slot_putO chk (Some (newEVal E)) sl else Inr sl
     | Real \<Rightarrow> slot_putR chk v sl
     | Null \<Rightarrow> Inr sl)"

definition slot_setS :: "'h venv \<Rightarrow> bool \<Rightarrow> string \<Rightarrow> 'h fslot \<Rightarrow> 'h fslot res" where
  "slot_setS E chk v sl = (case tp sl of
       Integer \<Rightarrow> slot_putI chk (if v \<noteq> EVAL_STR then s2ll v else EVAL_INT) sl
     | Real \<Rightarrow> slot_putR chk (if v \<noteq> EVAL_STR then s2r E v else EVAL_REAL) sl
     | Boolean \<Rightarrow> slot_putB chk (if v \<noteq> EVAL_STR then b2i (s2i v \<noteq> 0) else EVAL_BOOL) sl
     | Object \<Rightarrow> if v \<noteq> EVAL_STR then rbind (own_o (fval sl)) (\<lambda>h. slot_putO chk (parseStrXML E v h) sl)
                 else slot_putO chk (Some (newEVal E)) sl
     | String \<Rightarrow> slot_putS chk v sl
     | Null \<Rightarrow> Inr sl)"

definition slot_setO :: "'h venv \<Rightarrow> bool \<Rightarrow> 'h option \<Rightarrow> 'h fslot \<Rightarrow> 'h fslot res" where
  "slot_setO E chk v sl = (case tp sl of
       String \<Rightarrow> rbind (handle_at v) (\<lambda>x. slot_setS E chk (getStrXML E x) sl)
     | Object \<Rightarrow> slot_putO chk v sl
     | Null \<Rightarrow> Inr sl
     | _ \<Rightarrow> slot_setB E chk 1 sl)"

definition vf_upd :: "'h valfunc \<Rightarrow> nat \<Rightarrow> ('h fslot \<Rightarrow> 'h fslot res) \<Rightarrow> 'h valfunc res" where
  "vf_upd vf idx f = rbind (vf_at vf idx f) (\<lambda>sl. Inr (vf\<lparr>mVal := (mVal vf)[idx := sl]\<rparr>))"

definition vf_setB :: "'h venv \<Rightarrow> nat \<Rightarrow> int \<Rightarrow> 'h valfunc \<Rightarrow> 'h valfunc res" where
  "vf_setB E idx v vf = vf_upd vf idx (slot_setB E (mMdfChk vf) v)"

definition vf_setI :: "'h venv \<Rightarrow> nat \<Rightarrow> int \<Rightarrow> 'h valfunc \<Rightarrow> 'h valfunc res" where
  "vf_setI E idx v vf = vf_upd vf idx (slot_setI E (mMdfChk vf) v)"

definition vf_setR :: "'h venv \<Rightarrow> nat \<Rightarrow> u64 \<Rightarrow> 'h valfunc \<Rightarrow> 'h valfunc res" where
  "vf_setR E idx v vf = vf_upd vf idx (slot_setR E (mMdfChk vf) v)"

definition vf_setS :: "'h venv \<Rightarrow> nat \<Rightarrow> string \<Rightarrow> 'h valfunc \<Rightarrow> 'h valfunc res" where
  "vf_setS E idx v vf = vf_upd vf idx (slot_setS E (mMdfChk vf) v)"

definition vf_setO :: "'h venv \<Rightarrow> nat \<Rightarrow> 'h option \<Rightarrow> 'h valfunc \<Rightarrow> 'h valfunc res" where
  "vf_setO E idx v vf = vf_upd vf idx (slot_setO E (mMdfChk vf) v)"

definition vf_set :: "'h venv \<Rightarrow> nat \<Rightarrow> 'h variant \<Rightarrow> 'h valfunc \<Rightarrow> 'h valfunc res" where
  "vf_set E idx v vf = vf_at vf idx (\<lambda>sl. case tp sl of
       Integer \<Rightarrow> rbind (getI E v) (\<lambda>t. vf_setI E idx t vf)
     | Real \<Rightarrow> rbind (getR E v) (\<lambda>t. vf_setR E idx t vf)
     | Boolean \<Rightarrow> rbind (getB E v) (\<lambda>t. vf_setB E idx t vf)
     | String \<Rightarrow> rbind (getS E v) (\<lambda>t. vf_setS E idx t vf)
     | Object \<Rightarrow> rbind (getO E v) (\<lambda>t. vf_setO E idx (Some t) vf)
     | Null \<Rightarrow> Inr vf)"

definition vf_setMdfChk :: "bool \<Rightarrow> 'h valfunc \<Rightarrow> 'h valfunc" where
  "vf_setMdfChk st vf =
     (let vf1 = vf\<lparr>mMdfChk := st\<rparr>
      in if st then vf1\<lparr>mVal := map (\<lambda>sl. sl\<lparr>mdf := False\<rparr>) (mVal vf1)\<rparr> else vf1)"

text \<open>The values of a function for its inputs and outputs, as \<open>setFunc\<close> makes them.\<close>

definition vf_new :: "'h venv \<Rightarrow> fio list \<Rightarrow> 'h valfunc" where
  "vf_new E ios = \<lparr>mVal = map (slot_new E) ios, mMdfChk = False\<rparr>"

section \<open>The sign of modification\<close>

text \<open>The same value: equal, or two equal numbers (the zeroes).\<close>

definition vsame :: "'h vstore \<Rightarrow> 'h vstore \<Rightarrow> bool" where
  "vsame a b \<longleftrightarrow> a = b \<or> (\<exists>x y. a = VR x \<and> b = VR y \<and> feq x y) \<or> (\<exists>s. own_s a = Inr s \<and> own_s b = Inr s)"

lemma vsame_refl [simp]: "vsame a a"
  by (simp add: vsame_def)

lemma vsame_trans: "vsame a b \<Longrightarrow> vsame b c \<Longrightarrow> vsame a c"
  by (auto simp: vsame_def feq_def)

text \<open>A step of one value that keeps its type, never clears the sign, and without the sign keeps the value.\<close>

definition honest :: "'h fslot \<Rightarrow> 'h fslot \<Rightarrow> bool" where
  "honest sl sl' \<longleftrightarrow> tp sl' = tp sl \<and> (mdf sl \<longrightarrow> mdf sl') \<and> (\<not> mdf sl' \<longrightarrow> vsame (fval sl) (fval sl'))"

lemma honest_refl [simp]: "honest sl sl"
  by (simp add: honest_def)

lemma honest_trans: "honest a b \<Longrightarrow> honest b c \<Longrightarrow> honest a c"
  by (auto simp: honest_def intro: vsame_trans)

lemma honest_put:
  "slot_putB True b sl = Inr sl' \<Longrightarrow> honest sl sl'" "slot_putI True i sl = Inr sl' \<Longrightarrow> honest sl sl'"
  "slot_putR True r sl = Inr sl' \<Longrightarrow> honest sl sl'" "slot_putS True s sl = Inr sl' \<Longrightarrow> honest sl sl'"
  "slot_putO True h sl = Inr sl' \<Longrightarrow> honest sl sl'"
  by (cases "fval sl"; auto simp: slot_putB_def slot_putI_def slot_putR_def slot_putS_def slot_putO_def slot_put_def
      honest_def vsame_def feq_def Let_def split: if_splits)+

lemma honest_setB: "slot_setB E True b sl = Inr sl' \<Longrightarrow> honest sl sl'"
  by (cases "tp sl") (auto simp: slot_setB_def honest_put split: if_splits)

lemma honest_setS: "slot_setS E True s sl = Inr sl' \<Longrightarrow> honest sl sl'"
  by (cases "tp sl") (auto simp: slot_setS_def rbind_Inr honest_put split: if_splits)

lemma honest_sets:
  "slot_setI E True i sl = Inr sl' \<Longrightarrow> honest sl sl'"
  "slot_setR E True r sl = Inr sl' \<Longrightarrow> honest sl sl'"
  "slot_setO E True h sl = Inr sl' \<Longrightarrow> honest sl sl'"
  by (cases "tp sl"; auto simp: slot_setI_def slot_setR_def slot_setO_def rbind_Inr honest_put honest_setB honest_setS split: if_splits)+

datatype 'h fop = FSetB nat int | FSetI nat int | FSetR nat u64 | FSetS nat string | FSetO nat "'h option" | FSet nat "'h variant"

definition fop_run :: "'h venv \<Rightarrow> 'h fop \<Rightarrow> 'h valfunc \<Rightarrow> 'h valfunc res" where
  "fop_run E a vf = (case a of FSetB i v \<Rightarrow> vf_setB E i v vf | FSetI i v \<Rightarrow> vf_setI E i v vf | FSetR i v \<Rightarrow> vf_setR E i v vf
     | FSetS i v \<Rightarrow> vf_setS E i v vf | FSetO i v \<Rightarrow> vf_setO E i v vf | FSet i v \<Rightarrow> vf_set E i v vf)"

fun fop_runs :: "('h venv \<times> 'h fop) list \<Rightarrow> 'h valfunc \<Rightarrow> 'h valfunc res" where
  "fop_runs [] vf = Inr vf"
| "fop_runs ((E, a) # as) vf = rbind (fop_run E a vf) (fop_runs as)"

definition vf_honest :: "'h valfunc \<Rightarrow> 'h valfunc \<Rightarrow> bool" where
  "vf_honest vf vf' \<longleftrightarrow> mMdfChk vf' = mMdfChk vf \<and> list_all2 honest (mVal vf) (mVal vf')"

lemma list_all2_honest_refl: "list_all2 honest xs xs"
  by (simp add: list_all2_refl)

lemma vf_honest_refl: "vf_honest vf vf"
  by (simp add: vf_honest_def list_all2_honest_refl)

lemma vf_honest_trans: "vf_honest a b \<Longrightarrow> vf_honest b c \<Longrightarrow> vf_honest a c"
  using list_all2_trans [of honest honest honest] honest_trans by (auto simp: vf_honest_def)

lemma vf_upd_honest:
  assumes "vf_upd vf i f = Inr vf'" "\<And>sl sl'. f sl = Inr sl' \<Longrightarrow> honest sl sl'"
  shows "vf_honest vf vf'"
proof -
  from assms(1) obtain sl where sl: "i < length (mVal vf)" "f (mVal vf ! i) = Inr sl" "vf' = vf\<lparr>mVal := (mVal vf)[i := sl]\<rparr>"
    by (auto simp: vf_upd_def vf_at_def rbind_Inr split: if_splits)
  have "list_all2 honest (mVal vf) ((mVal vf)[i := sl])"
    unfolding list_all2_conv_all_nth
  proof (intro conjI allI impI)
    fix k assume "k < length (mVal vf)"
    then show "honest (mVal vf ! k) ((mVal vf)[i := sl] ! k)"
      using assms(2) [OF sl(2)] by (cases "k = i") auto
  qed simp
  then show ?thesis by (simp add: vf_honest_def sl(3))
qed

lemma fop_honest: "mMdfChk vf \<Longrightarrow> fop_run E a vf = Inr vf' \<Longrightarrow> vf_honest vf vf'"
proof -
  assume chk: "mMdfChk vf" and r: "fop_run E a vf = Inr vf'"
  note upds = vf_setB_def vf_setI_def vf_setR_def vf_setS_def vf_setO_def
  have prim: "vf_setB E i b vf = Inr vf' \<Longrightarrow> vf_honest vf vf'" "vf_setI E i n vf = Inr vf' \<Longrightarrow> vf_honest vf vf'"
    "vf_setR E i x vf = Inr vf' \<Longrightarrow> vf_honest vf vf'" "vf_setS E i s vf = Inr vf' \<Longrightarrow> vf_honest vf vf'"
    "vf_setO E i h vf = Inr vf' \<Longrightarrow> vf_honest vf vf'" for i b n x s h
    using chk by (auto simp: upds elim!: vf_upd_honest intro: honest_setB honest_setS honest_sets)
  have set1: "vf_set E i v vf = Inr vf' \<Longrightarrow> vf_honest vf vf'" for i v
    by (cases "tp (mVal vf ! i)") (auto simp: vf_set_def vf_at_def rbind_Inr prim vf_honest_refl split: if_splits)
  show ?thesis using r prim set1 by (cases a) (auto simp: fop_run_def)
qed

lemma fops_honest: "mMdfChk vf \<Longrightarrow> fop_runs ops vf = Inr vf' \<Longrightarrow> vf_honest vf vf'"
proof (induction ops arbitrary: vf)
  case (Cons a ops)
  obtain E b where a: "a = (E, b)" by (cases a)
  from Cons.prems obtain vf1 where v: "fop_run E b vf = Inr vf1" "fop_runs ops vf1 = Inr vf'"
    by (auto simp: a rbind_Inr)
  have h: "vf_honest vf vf1" using Cons.prems(1) v(1) by (rule fop_honest)
  then have "mMdfChk vf1" using Cons.prems(1) by (simp add: vf_honest_def)
  from Cons.IH [OF this v(2)] h show ?case by (blast intro: vf_honest_trans)
qed (simp add: vf_honest_refl)

text \<open>C32. The sign of modification loses no change: after \<open>setMdfChk(true)\<close> and any sequence of writes of any
  types to any inputs and outputs, a value without the sign is the one it was, and has its type.\<close>

theorem mdf_complete:
  assumes "fop_runs ops (vf_setMdfChk True vf) = Inr vf'" "i < length (mVal vf)" "\<not> mdf (mVal vf' ! i)"
  shows "length (mVal vf') = length (mVal vf) \<and> tp (mVal vf' ! i) = tp (mVal vf ! i)
    \<and> vsame (fval (mVal vf ! i)) (fval (mVal vf' ! i))"
proof -
  have "mMdfChk (vf_setMdfChk True vf)" by (simp add: vf_setMdfChk_def)
  from fops_honest [OF this assms(1)]
  have "list_all2 honest (map (\<lambda>sl. sl\<lparr>mdf := False\<rparr>) (mVal vf)) (mVal vf')"
    by (simp add: vf_honest_def vf_setMdfChk_def)
  then show ?thesis using assms(2,3) by (auto simp: list_all2_conv_all_nth honest_def)
qed

definition wit_fn :: "nat valfunc" where
  "wit_fn = vf_new wit_env [\<lparr>io_type = Integer, io_sel = False, io_def = ''5''\<rparr>, \<lparr>io_type = String, io_sel = False, io_def = ''off''\<rparr>]"

lemma mdf_complete_witness:
  "\<exists>vf'. fop_runs [(wit_env, FSetB 1 1), (wit_env, FSetS 0 ''5'')] (vf_setMdfChk True wit_fn) = Inr vf'
     \<and> mdf (mVal vf' ! 1) \<and> vsame (VI 5) (fval (mVal vf' ! 0))"
proof -
  define s0 :: "nat fslot" where "s0 = \<lparr>tp = Integer, mdf = False, fval = VI 5\<rparr>"
  define s1 :: "nat fslot" where "s1 = \<lparr>tp = String, mdf = False, fval = VStd ''off''\<rparr>"
  have w: "wit_fn = \<lparr>mVal = [s0, s1], mMdfChk = False\<rparr>" unfolding s0_def s1_def by code_simp
  define vf' where "vf' = \<lparr>mVal = [s0, s1\<lparr>mdf := True, fval := VStd ''1''\<rparr>], mMdfChk = True\<rparr>"
  have r: "fop_runs [(wit_env, FSetB 1 1), (wit_env, FSetS 0 ''5'')] (vf_setMdfChk True wit_fn) = Inr vf'"
    unfolding w vf'_def s0_def s1_def by code_simp
  have v: "fval (mVal wit_fn ! 0) = VI 5" "mVal vf' ! 0 = s0" "mdf (mVal vf' ! 1)" "\<not> mdf s0" "length (mVal wit_fn) = 2"
    by (simp_all add: w vf'_def s0_def)
  from mdf_complete [OF r, of 0] v r show ?thesis by auto
qed

end
