(* ===== verification/Cpp_Map.thy ===== *)
theory Cpp_Map
  imports Cpp_String "HOL-Library.List_Lexorder" "HOL-Library.Char_ord"
begin

text \<open>
  \<open>std::map\<close> as an association list sorted by its keys: texts are ordered by their symbols, as
  \<open>std::string\<close> compares them.
\<close>

fun kv_put :: "('k::linorder) \<Rightarrow> 'v \<Rightarrow> ('k \<times> 'v) list \<Rightarrow> ('k \<times> 'v) list" where
  "kv_put k v [] = [(k, v)]"
| "kv_put k v ((j, w) # g) = (if k < j then (k, v) # (j, w) # g else if k = j then (k, v) # g else (j, w) # kv_put k v g)"

definition kv_del :: "'k \<Rightarrow> ('k \<times> 'v) list \<Rightarrow> ('k \<times> 'v) list" where
  "kv_del k g = filter (\<lambda>p. fst p \<noteq> k) g"

definition kv_get :: "'k \<Rightarrow> ('k \<times> 'v) list \<Rightarrow> 'v option" where
  "kv_get k g = map_of g k"

lemma kv_get_put: "kv_get j (kv_put k v g) = (if j = k then Some v else kv_get j g)"
  by (induction k v g rule: kv_put.induct) (auto simp: kv_get_def)

lemma kv_get_del: "kv_get j (kv_del k g) = (if j = k then None else kv_get j g)"
  by (induction g) (auto simp: kv_get_def kv_del_def)

lemma kv_put_keys: "set (map fst (kv_put k v g)) = insert k (set (map fst g))"
  by (induction k v g rule: kv_put.induct) auto

lemma kv_put_sorted: "sorted_wrt (<) (map fst g) \<Longrightarrow> sorted_wrt (<) (map fst (kv_put k v g))"
proof (induction k v g rule: kv_put.induct)
  case (2 k v j w g)
  then show ?case using kv_put_keys [of k v g] by (auto simp: neq_iff dest: order.strict_trans)
qed simp

end
