(* ===== verification/Tarray.thy ===== *)
theory Tarray
  imports Tvariant Cpp_Map "HOL-Library.Multiset"
begin

text \<open>
  The objects of the user programs (\<^verbatim>\<open>src/src/tvariant.cpp\<close>): the properties of an object (\<open>TVarObj\<close>)
  and the array (\<open>TArrayObj\<close>) with the functions a program calls by their names.

  The objects an element or an argument refers to are handles; whether a handle is an array, and whether it is
  this very array, is asked of the environment, with the addition of doubles and the permutation that
  \<open>std::sort\<close> makes for the texts of the elements.  A value that moves in the vector is the same value.
  A fault in the middle of a function does not give the state it leaves.  The texts in XML are not modelled.
\<close>

section \<open>The properties of an object\<close>

type_synonym 'h props = "(string \<times> 'h variant) list"

definition ob_propList :: "'h props \<Rightarrow> string list" where
  "ob_propList P = map fst P"

definition ob_propGet :: "'h venv \<Rightarrow> string \<Rightarrow> 'h props \<Rightarrow> 'h variant res" where
  "ob_propGet E i P = (case kv_get i P of Some v \<Rightarrow> assign E v new_variant | None \<Rightarrow> Inr new_variant)"

text \<open>\<open>mProps[id] = val\<close>: a new property begins as an empty variant.\<close>

definition ob_propSet :: "'h venv \<Rightarrow> string \<Rightarrow> 'h variant \<Rightarrow> 'h props \<Rightarrow> 'h props res" where
  "ob_propSet E i v P =
     rbind (assign E v (case kv_get i P of Some w \<Rightarrow> w | None \<Rightarrow> new_variant)) (\<lambda>w. Inr (kv_put i w P))"

definition ob_propClear :: "string \<Rightarrow> 'h props \<Rightarrow> 'h props" where
  "ob_propClear ids P = (if ids \<noteq> [] then kv_del ids P else [])"

section \<open>The array\<close>

record 'h arrobj =
  mProps :: "'h props"
  mEls :: "'h variant list"

datatype 'h asrc = AThis | AOther "'h variant list" | ANone

record 'h aenv =
  ae_v :: "'h venv"
  ae_src :: "'h \<Rightarrow> 'h asrc"
  r_add :: "u64 \<Rightarrow> u64 \<Rightarrow> u64"
  sort_perm :: "string list \<Rightarrow> nat list"

text \<open>The result of a function: a value, this array or a new array.\<close>

datatype 'h fres = RVal "'h variant" | RThis | RArr "'h variant list"

definition arGet :: "'h venv \<Rightarrow> int \<Rightarrow> 'h variant list \<Rightarrow> 'h variant res" where
  "arGet E vid els = (if 0 \<le> vid \<and> vid < int (length els) then assign E (els ! nat vid) new_variant else Inr new_variant)"

definition arSet :: "'h venv \<Rightarrow> int \<Rightarrow> 'h variant \<Rightarrow> 'h variant list \<Rightarrow> 'h variant list res" where
  "arSet E vid val els =
     (let i = (if vid < 0 then length els else nat vid); els' = els @ replicate (i + 1 - length els) new_variant
      in rbind (assign E val (els' ! i)) (\<lambda>v. Inr (els'[i := v])))"

definition arr_propGet :: "'h venv \<Rightarrow> string \<Rightarrow> 'h arrobj \<Rightarrow> 'h variant res" where
  "arr_propGet E i A =
     (if i = ''length'' then Inr (vint (int (length (mEls A))))
      else if i \<noteq> [] \<and> isdigit (at i 0) then arGet E (s2i i) (mEls A)
      else ob_propGet E i (mProps A))"

definition arr_propSet :: "'h venv \<Rightarrow> string \<Rightarrow> 'h variant \<Rightarrow> 'h arrobj \<Rightarrow> 'h arrobj res" where
  "arr_propSet E i v A =
     (if i \<noteq> [] \<and> isdigit (at i 0) then rbind (arSet E (s2i i) v (mEls A)) (\<lambda>els. Inr (A\<lparr>mEls := els\<rparr>))
      else rbind (ob_propSet E i v (mProps A)) (\<lambda>P. Inr (A\<lparr>mProps := P\<rparr>)))"

section \<open>The parts of the functions\<close>

fun copies :: "'h venv \<Rightarrow> 'h variant list \<Rightarrow> 'h variant list res" where
  "copies E [] = Inr []"
| "copies E (v # vs) = rbind (copy_variant E v) (\<lambda>w. rbind (copies E vs) (\<lambda>ws. Inr (w # ws)))"

fun texts :: "'h venv \<Rightarrow> 'h variant list \<Rightarrow> string list res" where
  "texts E [] = Inr []"
| "texts E (v # vs) = rbind (getS E v) (\<lambda>t. rbind (texts E vs) (\<lambda>ts. Inr (t # ts)))"

fun join_els :: "string \<Rightarrow> string list \<Rightarrow> string" where
  "join_els sep [] = []"
| "join_els sep [t] = t"
| "join_els sep (t # ts) = t @ sep @ join_els sep ts"

text \<open>An array that is concatenated to itself grows while it is read.\<close>

partial_function (option) concat_this :: "'h venv \<Rightarrow> nat \<Rightarrow> 'h variant list \<Rightarrow> 'h variant list res option" where
  "concat_this E i els =
     (if i < length els then (case arGet E (int i) els of Inl e \<Rightarrow> Some (Inl e) | Inr v \<Rightarrow> concat_this E (Suc i) (els @ [v]))
      else Some (Inr els))"

text \<open>The bounds of a part: from the end when negative, within the array.\<close>

definition part_beg :: "nat \<Rightarrow> int \<Rightarrow> int" where
  "part_beg n i = (let b = to_i32 i in max (if b < 0 then to_i32 (int n + b) else b) 0)"

definition part_end :: "nat \<Rightarrow> int option \<Rightarrow> int" where
  "part_end n oi =
     (let e = (case oi of None \<Rightarrow> to_i32 (int n) | Some i \<Rightarrow> to_i32 i)
      in min (if e < 0 then to_i32 (int n + e) else e) (to_i32 (int n)))"

definition arg_opt :: "'h venv \<Rightarrow> nat \<Rightarrow> 'h variant list \<Rightarrow> int option res" where
  "arg_opt E k prms = (if k < length prms then rbind (getI E (prms ! k)) (\<lambda>i. Inr (Some i)) else Inr None)"

fun slice_loop :: "'h venv \<Rightarrow> 'h variant list \<Rightarrow> int \<Rightarrow> int list \<Rightarrow> 'h variant list \<Rightarrow> 'h variant list res" where
  "slice_loop E els beg [] rez = Inr rez"
| "slice_loop E els beg (i # is) rez =
     rbind (vat els i) (\<lambda>v. rbind (arSet E (i - beg) v rez) (slice_loop E els beg is))"

fun sum_loop :: "'h aenv \<Rightarrow> 'h variant list \<Rightarrow> int list \<Rightarrow> u64 \<Rightarrow> u64 res" where
  "sum_loop A els [] rez = Inr rez"
| "sum_loop A els (i # is) rez = rbind (vat els i) (\<lambda>v. rbind (getR (ae_v A) v) (\<lambda>x. sum_loop A els is (r_add A rez x)))"

function del_loop :: "'h venv \<Rightarrow> int \<Rightarrow> int \<Rightarrow> int \<Rightarrow> 'h variant list \<Rightarrow> 'h variant list \<Rightarrow> ('h variant list \<times> 'h variant list) res" where
  "del_loop E cnt beg iC els rez =
     (if iC < cnt \<and> beg < to_i32 (int (length els))
      then rbind (vat els beg) (\<lambda>v. rbind (arSet E iC v rez) (\<lambda>rez'.
             del_loop E cnt beg (iC + 1) (take (nat beg) els @ drop (Suc (nat beg)) els) rez'))
      else Inr (els, rez))"
  by pat_completeness auto
termination
  by (relation "measure (\<lambda>(E, cnt, beg, iC, els, rez). nat (cnt - iC))") auto

declare del_loop.simps [simp del]

definition ins_at :: "int \<Rightarrow> 'h variant \<Rightarrow> 'h variant list \<Rightarrow> 'h variant list res" where
  "ins_at k v els = (if 0 \<le> k \<and> k \<le> int (length els) then Inr (take (nat k) els @ v # drop (nat k) els) else Inl UndefRead)"

text \<open>\<open>i\<close> is the count of the values inserted before.\<close>

fun ins_loop :: "'h venv \<Rightarrow> int \<Rightarrow> int \<Rightarrow> 'h variant list \<Rightarrow> 'h variant list \<Rightarrow> 'h variant list res" where
  "ins_loop E beg i [] els = Inr els"
| "ins_loop E beg i (v # vs) els =
     (if beg \<le> to_i32 (int (length els))
      then rbind (copy_variant E v) (\<lambda>w. rbind (ins_at (beg + i) w els) (ins_loop E beg (i + 1) vs))
      else Inr els)"

fun unshift_loop :: "'h venv \<Rightarrow> int \<Rightarrow> 'h variant list \<Rightarrow> 'h variant list \<Rightarrow> 'h variant list res" where
  "unshift_loop E i [] els = Inr els"
| "unshift_loop E i (v # vs) els = rbind (copy_variant E v) (\<lambda>w. rbind (ins_at i w els) (unshift_loop E (i + 1) vs))"

text \<open>The first element with the text, from one on.\<close>

fun index_loop :: "'h venv \<Rightarrow> string \<Rightarrow> int \<Rightarrow> 'h variant list \<Rightarrow> int res" where
  "index_loop E t iE [] = Inr (- 1)"
| "index_loop E t iE (v # vs) = rbind (getS E v) (\<lambda>s. if s = t then Inr (to_i32 iE) else index_loop E t (iE + 1) vs)"

definition index_start :: "nat \<Rightarrow> int option \<Rightarrow> nat" where
  "index_start n oi = (case oi of None \<Rightarrow> 0
     | Some i \<Rightarrow> nat (min ((int n - 1) mod 2 ^ 64) (i mod 2 ^ 32) mod 2 ^ 32))"

function last_loop :: "'h venv \<Rightarrow> string \<Rightarrow> 'h variant list \<Rightarrow> int \<Rightarrow> int res" where
  "last_loop E t els iE =
     (if iE \<ge> 0 then rbind (vat els iE) (\<lambda>v. rbind (getS E v) (\<lambda>s. if s = t then Inr iE else last_loop E t els (iE - 1)))
      else Inr iE)"
  by pat_completeness auto
termination
  by (relation "measure (\<lambda>(E, t, els, iE). nat (iE + 1))") auto

declare last_loop.simps [simp del]

section \<open>The functions\<close>

definition arr_join :: "'h venv \<Rightarrow> 'h variant list \<Rightarrow> 'h arrobj \<Rightarrow> ('h fres \<times> 'h arrobj) res" where
  "arr_join E prms A =
     rbind (if prms \<noteq> [] then getS E (hd prms) else Inr '','') (\<lambda>sep. rbind (texts E (mEls A)) (\<lambda>ts.
       Inr (RVal (vstr (join_els sep ts)), A)))"

definition arr_concat :: "'h aenv \<Rightarrow> 'h variant list \<Rightarrow> 'h arrobj \<Rightarrow> ('h fres \<times> 'h arrobj) res option" where
  "arr_concat R prms A =
     (if mType (hd prms) \<noteq> Object then Some (Inr (RThis, A))
      else case rbind (own_o (vval (hd prms))) (\<lambda>h. Inr (case h of None \<Rightarrow> ANone | Some x \<Rightarrow> ae_src R x)) of
        Inl e \<Rightarrow> Some (Inl e)
      | Inr ANone \<Rightarrow> Some (Inr (RThis, A))
      | Inr (AOther vs) \<Rightarrow> Some (rbind (copies (ae_v R) vs) (\<lambda>ws. Inr (RThis, A\<lparr>mEls := mEls A @ ws\<rparr>)))
      | Inr AThis \<Rightarrow> map_option (\<lambda>r. rbind r (\<lambda>els. Inr (RThis, A\<lparr>mEls := els\<rparr>))) (concat_this (ae_v R) 0 (mEls A)))"

definition arr_push :: "'h venv \<Rightarrow> 'h variant list \<Rightarrow> 'h arrobj \<Rightarrow> ('h fres \<times> 'h arrobj) res" where
  "arr_push E prms A = rbind (copies E prms) (\<lambda>ws. let els = mEls A @ ws in Inr (RVal (vint (to_i32 (int (length els)))), A\<lparr>mEls := els\<rparr>))"

definition arr_pop :: "'h venv \<Rightarrow> 'h arrobj \<Rightarrow> ('h fres \<times> 'h arrobj) res" where
  "arr_pop E A =
     (if mEls A = [] then Inr (RVal new_variant, A)
      else rbind (copy_variant E (last (mEls A))) (\<lambda>v. Inr (RVal v, A\<lparr>mEls := butlast (mEls A)\<rparr>)))"

definition arr_shift :: "'h venv \<Rightarrow> 'h arrobj \<Rightarrow> ('h fres \<times> 'h arrobj) res" where
  "arr_shift E A =
     (if mEls A = [] then Inr (RVal new_variant, A)
      else rbind (copy_variant E (hd (mEls A))) (\<lambda>v. Inr (RVal v, A\<lparr>mEls := tl (mEls A)\<rparr>)))"

definition arr_unshift :: "'h venv \<Rightarrow> 'h variant list \<Rightarrow> 'h arrobj \<Rightarrow> ('h fres \<times> 'h arrobj) res" where
  "arr_unshift E prms A =
     rbind (unshift_loop E 0 prms (mEls A)) (\<lambda>els. Inr (RVal (vint (to_i32 (int (length els)))), A\<lparr>mEls := els\<rparr>))"

definition arr_slice :: "'h venv \<Rightarrow> 'h variant list \<Rightarrow> 'h arrobj \<Rightarrow> ('h fres \<times> 'h arrobj) res" where
  "arr_slice E prms A =
     rbind (getI E (hd prms)) (\<lambda>i. rbind (arg_opt E 1 prms) (\<lambda>oe.
       let n = length (mEls A); beg = part_beg n i
       in rbind (slice_loop E (mEls A) beg [beg .. part_end n oe - 1] []) (\<lambda>rez. Inr (RArr rez, A))))"

definition arr_splice :: "'h venv \<Rightarrow> 'h variant list \<Rightarrow> 'h arrobj \<Rightarrow> ('h fres \<times> 'h arrobj) res" where
  "arr_splice E prms A =
     rbind (getI E (hd prms)) (\<lambda>i. rbind (arg_opt E 1 prms) (\<lambda>oc.
       let beg = to_i32 (max 0 i); cnt = (case oc of Some c \<Rightarrow> to_i32 c | None \<Rightarrow> to_i32 (int (length (mEls A))))
       in rbind (del_loop E cnt beg 0 (mEls A) []) (\<lambda>(els, rez).
          rbind (ins_loop E beg 0 (drop 2 prms) els) (\<lambda>els'. Inr (RArr rez, A\<lparr>mEls := els'\<rparr>)))))"

definition arr_indexOf :: "'h venv \<Rightarrow> 'h variant list \<Rightarrow> 'h arrobj \<Rightarrow> ('h fres \<times> 'h arrobj) res" where
  "arr_indexOf E prms A =
     rbind (arg_opt E 1 prms) (\<lambda>oi. rbind (getS E (hd prms)) (\<lambda>sVl.
       let sp = index_start (length (mEls A)) oi
       in rbind (index_loop E sVl (int sp) (drop sp (mEls A))) (\<lambda>r. Inr (RVal (vint r), A))))"

definition arr_lastIndexOf :: "'h venv \<Rightarrow> 'h variant list \<Rightarrow> 'h arrobj \<Rightarrow> ('h fres \<times> 'h arrobj) res" where
  "arr_lastIndexOf E prms A =
     rbind (getS E (hd prms)) (\<lambda>sVl. rbind (last_loop E sVl (mEls A) (int (length (mEls A)))) (\<lambda>iE.
       Inr (RVal (vint (if iE < int (length (mEls A)) then iE else - 1)), A)))"

definition arr_sum :: "'h aenv \<Rightarrow> 'h variant list \<Rightarrow> 'h arrobj \<Rightarrow> ('h fres \<times> 'h arrobj) res" where
  "arr_sum R prms A =
     rbind (getI (ae_v R) (hd prms)) (\<lambda>i. rbind (arg_opt (ae_v R) 1 prms) (\<lambda>oe.
       let n = length (mEls A)
       in rbind (sum_loop R (mEls A) [part_beg n i .. part_end n oe - 1] 0) (\<lambda>x. Inr (RVal (vreal x), A))))"

definition arr_sort :: "'h aenv \<Rightarrow> 'h arrobj \<Rightarrow> ('h fres \<times> 'h arrobj) res" where
  "arr_sort R A = rbind (texts (ae_v R) (mEls A)) (\<lambda>ks. Inr (RThis, A\<lparr>mEls := map (\<lambda>i. mEls A ! i) (sort_perm R ks)\<rparr>))"

definition arr_funcCall :: "'h aenv \<Rightarrow> string \<Rightarrow> 'h variant list \<Rightarrow> 'h arrobj \<Rightarrow> ('h fres \<times> 'h arrobj) res option" where
  "arr_funcCall R fid prms A =
     (let E = ae_v R
      in if fid \<in> {''join'', ''toString'', ''valueOf''} then Some (arr_join E prms A)
         else if fid = ''concat'' \<and> prms \<noteq> [] then arr_concat R prms A
         else if fid = ''push'' \<and> prms \<noteq> [] then Some (arr_push E prms A)
         else if fid = ''pop'' then Some (arr_pop E A)
         else if fid = ''reverse'' then Some (Inr (RThis, A\<lparr>mEls := rev (mEls A)\<rparr>))
         else if fid = ''shift'' then Some (arr_shift E A)
         else if fid = ''unshift'' \<and> prms \<noteq> [] then Some (arr_unshift E prms A)
         else if fid = ''slice'' \<and> prms \<noteq> [] then Some (arr_slice E prms A)
         else if fid = ''splice'' \<and> prms \<noteq> [] then Some (arr_splice E prms A)
         else if fid = ''indexOf'' \<and> prms \<noteq> [] then Some (arr_indexOf E prms A)
         else if fid = ''lastIndexOf'' \<and> prms \<noteq> [] then Some (arr_lastIndexOf E prms A)
         else if fid = ''sum'' \<and> prms \<noteq> [] then Some (arr_sum R prms A)
         else if fid = ''sort'' then Some (arr_sort R A)
         else if fid = ''isEVal'' then Some (Inr (RVal (vbool 0), A))
         else Some (Inl (TError 0)))"

section \<open>Values that copy as they are\<close>

text \<open>What the programs calculate with: not fixed to a type, not of the economical texts, an object not free.\<close>

definition plain_val :: "'h variant \<Rightarrow> bool" where
  "plain_val v \<longleftrightarrow> \<not> mFixedTp v \<and> \<not> mStdStringOmit v \<and> (case mType v of
       Null \<Rightarrow> vval v = VNone
     | Boolean \<Rightarrow> (\<exists>b. vval v = VB b)
     | Integer \<Rightarrow> (\<exists>i. vval v = VI i)
     | Real \<Rightarrow> (\<exists>r. vval v = VR r)
     | String \<Rightarrow> (\<exists>s. vval v = (if length s < 8 then VMini s else VStd s))
     | Object \<Rightarrow> (\<exists>h. vval v = VO (Some h)))"

lemma plain_new [simp]: "plain_val new_variant"
  by (simp add: plain_val_def new_variant_def)

lemma plain_vint [simp]: "plain_val (vint i)"
  by (simp add: plain_val_def new_variant_def vint_def)

lemma assign_plain:
  assumes "plain_val v" "plain_val x"
  shows "assign E v x = Inr v"
  using assms
  by (cases v; cases x; cases "mType v")
    (auto simp: plain_val_def assign_def getB_def getI_def getR_def getS_def getO_def setB_def setI_def setR_def setS_def setO_def
      retype_def setType_def put_s_def Let_def)

lemma copy_plain [simp]: "plain_val v \<Longrightarrow> copy_variant E v = Inr v"
  by (simp add: copy_variant_def assign_plain)

lemma copies_plain [simp]: "list_all plain_val vs \<Longrightarrow> copies E vs = Inr vs"
  by (induction vs) auto

lemma arGet_plain: "list_all plain_val els \<Longrightarrow> 0 \<le> i \<Longrightarrow> i < int (length els) \<Longrightarrow> arGet E i els = Inr (els ! nat i)"
  by (auto simp: arGet_def list_all_length intro!: assign_plain)

lemma arSet_end [simp]: "plain_val v \<Longrightarrow> arSet E (int (length els)) v els = Inr (els @ [v])"
  by (simp add: arSet_def Let_def assign_plain nth_append list_update_append)

lemma slice_plain:
  assumes "list_all plain_val els" "0 \<le> i" "j < int (length els)"
  shows "slice_loop E els (i - int (length rez)) [i..j] rez = Inr (rez @ take (nat (j + 1 - i)) (drop (nat i) els))"
  using assms(2)
proof (induction "nat (j + 1 - i)" arbitrary: i rez)
  case (Suc n)
  then have i: "i \<le> j" "n = nat (j + 1 - (i + 1))" by auto
  have k: "nat i < length els" using i(1) assms(3) Suc.prems by auto
  then have v: "vat els i = Inr (els ! nat i)" "plain_val (els ! nat i)"
    using Suc.prems assms(1) by (auto simp: vat_def list_all_length)
  have "take (nat (j + 1 - i)) (drop (nat i) els) = els ! nat i # take n (drop (Suc (nat i)) els)"
    unfolding Suc.hyps(2) [symmetric] using k by (simp flip: Cons_nth_drop_Suc)
  moreover have "slice_loop E els (i + 1 - int (length (rez @ [els ! nat i]))) [i + 1..j] (rez @ [els ! nat i]) =
      Inr ((rez @ [els ! nat i]) @ take (nat (j + 1 - (i + 1))) (drop (nat (i + 1)) els))"
    by (rule Suc.hyps(1) [OF i(2)]) (use Suc.prems in simp)
  moreover have "nat (i + 1) = Suc (nat i)" using Suc.prems by simp
  ultimately show ?case using i v Suc.prems by (simp add: upto_rec1 [OF i(1)])
qed simp

lemma del_plain:
  assumes "list_all plain_val els" "0 \<le> beg" "int (length els) < 2 ^ 31"
  shows "del_loop E cnt beg (int (length rez)) els rez =
    Inr (take (nat beg) els @ drop (nat beg + nat (cnt - int (length rez))) els,
      rez @ take (nat (cnt - int (length rez))) (drop (nat beg) els))"
  using assms
proof (induction "nat (cnt - int (length rez))" arbitrary: els rez)
  case 0
  then show ?case by (simp add: del_loop.simps)
next
  case (Suc n)
  have t: "to_i32 (int (length els)) = int (length els)" using Suc.prems(3) by (simp add: to_i32_id)
  show ?case
  proof (cases "beg < int (length els)")
    case False
    then have "length els \<le> nat beg" by simp
    then show ?thesis using t False by (simp add: del_loop.simps)
  next
    case True
    then have k: "nat beg < length els" using Suc.prems(2) by simp
    then have v: "vat els beg = Inr (els ! nat beg)" "plain_val (els ! nat beg)"
      using Suc.prems by (auto simp: vat_def list_all_length)
    let ?els = "take (nat beg) els @ drop (Suc (nat beg)) els"
    have p: "list_all plain_val ?els" using Suc.prems(1) by (auto simp: list_all_iff dest: in_set_takeD in_set_dropD)
    have c: "int (length rez) < cnt" "n = nat (cnt - int (length (rez @ [els ! nat beg])))" using Suc.hyps(2) by auto
    have "del_loop E cnt beg (int (length (rez @ [els ! nat beg]))) ?els (rez @ [els ! nat beg]) =
      Inr (take (nat beg) ?els @ drop (nat beg + n) ?els, (rez @ [els ! nat beg]) @ take n (drop (nat beg) ?els))"
      using Suc.hyps(1) [OF c(2) p Suc.prems(2)] Suc.prems(3) k unfolding c(2) by simp
    moreover have "take (nat beg) ?els = take (nat beg) els" "drop (nat beg + n) ?els = drop (nat beg + Suc n) els"
      "drop (nat beg) ?els = drop (Suc (nat beg)) els"
      using k by (simp_all add: min_def add.commute)
    moreover have "take (Suc n) (drop (nat beg) els) = els ! nat beg # take n (drop (Suc (nat beg)) els)"
      using k by (simp flip: Cons_nth_drop_Suc)
    ultimately show ?thesis
      using c(1) v t True unfolding Suc.hyps(2) [symmetric] by (simp add: del_loop.simps [of E cnt beg "int (length rez)"] add.commute)
  qed
qed

lemma ins_plain:
  assumes "list_all plain_val vs" "0 \<le> beg" "0 \<le> i" "beg + i \<le> int (length els)" "int (length els + length vs) < 2 ^ 31"
  shows "ins_loop E beg i vs els = Inr (take (nat (beg + i)) els @ vs @ drop (nat (beg + i)) els)"
  using assms
proof (induction vs arbitrary: i els)
  case (Cons v vs)
  have t: "to_i32 (int (length els)) = int (length els)" using Cons.prems(5) by (simp add: to_i32_id)
  let ?els = "take (nat (beg + i)) els @ v # drop (nat (beg + i)) els"
  have n: "nat (beg + (i + 1)) = Suc (nat (beg + i))" "length (take (nat (beg + i)) els) = nat (beg + i)"
    using Cons.prems(2-4) by (auto simp: nat_add_distrib)
  have "ins_loop E beg (i + 1) vs ?els = Inr (take (nat (beg + (i + 1))) ?els @ vs @ drop (nat (beg + (i + 1))) ?els)"
    by (rule Cons.IH) (use Cons.prems n(2) in auto)
  then show ?case using Cons.prems t n by (simp add: ins_at_def)
qed simp

lemma unshift_plain:
  assumes "list_all plain_val vs" "0 \<le> i" "i \<le> int (length els)"
  shows "unshift_loop E i vs els = Inr (take (nat i) els @ vs @ drop (nat i) els)"
  using assms
proof (induction vs arbitrary: i els)
  case (Cons v vs)
  let ?els = "take (nat i) els @ v # drop (nat i) els"
  have n: "nat (i + 1) = Suc (nat i)" "length (take (nat i) els) = nat i" using Cons.prems(2,3) by auto
  have "unshift_loop E (i + 1) vs ?els = Inr (take (nat (i + 1)) ?els @ vs @ drop (nat (i + 1)) ?els)"
    by (rule Cons.IH) (use Cons.prems n(2) in auto)
  then show ?case using Cons.prems n by (simp add: ins_at_def)
qed simp

section \<open>The array is a list\<close>

datatype 'a acmd = APush "'a list" | APop | AReverse | AShift | AUnshift "'a list" | ASlice int "int option" | ASplice int int "'a list"

datatype 'a ares = NCount nat | NVal 'a | NNone | NThis | NArr "'a list"

text \<open>An index from the end when it is negative.\<close>

definition from_end :: "nat \<Rightarrow> int \<Rightarrow> nat" where
  "from_end n i = nat (if i < 0 then int n + i else i)"

fun list_cmd :: "'a acmd \<Rightarrow> 'a list \<Rightarrow> 'a ares \<times> 'a list" where
  "list_cmd (APush vs) xs = (NCount (length xs + length vs), xs @ vs)"
| "list_cmd APop xs = (if xs = [] then (NNone, []) else (NVal (last xs), butlast xs))"
| "list_cmd AReverse xs = (NThis, rev xs)"
| "list_cmd AShift xs = (if xs = [] then (NNone, []) else (NVal (hd xs), tl xs))"
| "list_cmd (AUnshift vs) xs = (NCount (length xs + length vs), vs @ xs)"
| "list_cmd (ASlice b e) xs =
     (NArr (drop (from_end (length xs) b) (take (case e of None \<Rightarrow> length xs | Some j \<Rightarrow> from_end (length xs) j) xs)), xs)"
| "list_cmd (ASplice b k vs) xs =
     (let i = nat b in (NArr (take (nat k) (drop i xs)), take i xs @ (if i \<le> length xs then vs else []) @ drop (i + nat k) xs))"

fun list_cmds :: "'a acmd list \<Rightarrow> 'a list \<Rightarrow> 'a ares list \<times> 'a list" where
  "list_cmds [] xs = ([], xs)"
| "list_cmds (c # cs) xs = (case list_cmd c xs of (r, ys) \<Rightarrow> case list_cmds cs ys of (rs, zs) \<Rightarrow> (r # rs, zs))"

text \<open>The calls the commands stand for.\<close>

fun cmd_call :: "'h variant acmd \<Rightarrow> string \<times> 'h variant list" where
  "cmd_call (APush vs) = (''push'', vs)"
| "cmd_call APop = (''pop'', [])"
| "cmd_call AReverse = (''reverse'', [])"
| "cmd_call AShift = (''shift'', [])"
| "cmd_call (AUnshift vs) = (''unshift'', vs)"
| "cmd_call (ASlice b e) = (''slice'', vint b # (case e of None \<Rightarrow> [] | Some j \<Rightarrow> [vint j]))"
| "cmd_call (ASplice b k vs) = (''splice'', vint b # vint k # vs)"

fun res_of :: "'h variant ares \<Rightarrow> 'h fres" where
  "res_of (NCount n) = RVal (vint (int n))"
| "res_of (NVal v) = RVal v"
| "res_of NNone = RVal new_variant"
| "res_of NThis = RThis"
| "res_of (NArr vs) = RArr vs"

fun arr_runs :: "'h aenv \<Rightarrow> 'h variant acmd list \<Rightarrow> 'h arrobj \<Rightarrow> ('h fres list \<times> 'h arrobj) res option" where
  "arr_runs R [] A = Some (Inr ([], A))"
| "arr_runs R (c # cs) A = (case arr_funcCall R (fst (cmd_call c)) (snd (cmd_call c)) A of
       None \<Rightarrow> None
     | Some (Inl e) \<Rightarrow> Some (Inl e)
     | Some (Inr (r, A')) \<Rightarrow> map_option (\<lambda>x. rbind x (\<lambda>(rs, A''). Inr (r # rs, A''))) (arr_runs R cs A'))"

definition int32 :: "int \<Rightarrow> bool" where
  "int32 i \<longleftrightarrow> - (2 ^ 31) \<le> i \<and> i < 2 ^ 31"

fun cmd_ok :: "'h variant acmd \<Rightarrow> bool" where
  "cmd_ok (APush vs) = (vs \<noteq> [] \<and> list_all plain_val vs)"
| "cmd_ok (AUnshift vs) = (vs \<noteq> [] \<and> list_all plain_val vs)"
| "cmd_ok (ASlice b e) = (int32 b \<and> (case e of None \<Rightarrow> True | Some j \<Rightarrow> int32 j))"
| "cmd_ok (ASplice b k vs) = (int32 b \<and> int32 k \<and> list_all plain_val vs)"
| "cmd_ok _ = True"

fun cmd_adds :: "'a acmd \<Rightarrow> nat" where
  "cmd_adds (APush vs) = length vs"
| "cmd_adds (AUnshift vs) = length vs"
| "cmd_adds (ASplice b k vs) = length vs"
| "cmd_adds _ = 0"

lemma part_beg_from_end: "int32 i \<Longrightarrow> int n < 2 ^ 31 \<Longrightarrow> part_beg n i = int (from_end n i)"
  by (auto simp: part_beg_def from_end_def int32_def to_i32_id)

lemma part_end_from_end: "int32 i \<Longrightarrow> int n < 2 ^ 31 \<Longrightarrow> part_end n (Some i) \<le> int n \<and> nat (part_end n (Some i)) = min n (from_end n i)"
  by (auto simp: part_end_def from_end_def int32_def to_i32_id)

lemma part_end_none: "int n < 2 ^ 31 \<Longrightarrow> part_end n None = int n"
  by (auto simp: part_end_def to_i32_id)

lemma slice_part:
  assumes "list_all plain_val els" "e \<le> int (length els)"
  shows "slice_loop E els (int b) [int b..e - 1] [] = Inr (drop b (take (nat e) els))"
proof -
  have "nat (e - 1 + 1 - int b) = nat e - b" by (cases "0 \<le> e") auto
  then show ?thesis using slice_plain [OF assms(1), of "int b" "e - 1" E "[]"] assms(2) by (simp add: drop_take)
qed

lemma splice_ins:
  assumes "list_all plain_val vs" "int (length els + length vs) < 2 ^ 31"
  shows "ins_loop E (int j) 0 vs (take j els @ drop (j + k) els) =
    Inr (take j els @ (if j \<le> length els then vs else []) @ drop (j + k) els)"
proof (cases "j \<le> length els")
  case True
  then show ?thesis using ins_plain [OF assms(1), of "int j" 0 "take j els @ drop (j + k) els" E] assms(2) by simp
next
  case False
  then show ?thesis using assms(2) by (cases vs) (auto simp: to_i32_id)
qed

lemma cmd_refines:
  assumes "list_all plain_val (mEls A)" "cmd_ok c" "int (length (mEls A) + cmd_adds c) < 2 ^ 31" "list_cmd c (mEls A) = (r, xs)"
  shows "arr_funcCall R (fst (cmd_call c)) (snd (cmd_call c)) A = Some (Inr (res_of r, A\<lparr>mEls := xs\<rparr>))"
    "list_all plain_val xs" "length xs \<le> length (mEls A) + cmd_adds c"
proof -
  have n: "to_i32 (int (length (mEls A))) = int (length (mEls A))" "int (length (mEls A)) < 2 ^ 31"
    using assms(3) by (simp_all add: to_i32_id)
  have m: "to_i32 (int (length (mEls A)) + int k) = int (length (mEls A)) + int k" if "k \<le> cmd_adds c" for k
    using assms(3) that by (simp add: to_i32_id)
  have same: "A\<lparr>mEls := mEls A\<rparr> = A" by simp
  show "list_all plain_val xs" "length xs \<le> length (mEls A) + cmd_adds c"
    using assms by (cases c; auto simp: list_all_iff Let_def split: if_splits dest: in_set_butlastD list.set_sel(2) in_set_takeD in_set_dropD)+
  show "arr_funcCall R (fst (cmd_call c)) (snd (cmd_call c)) A = Some (Inr (res_of r, A\<lparr>mEls := xs\<rparr>))"
  proof (cases c)
    case (APush vs)
    then show ?thesis using assms m [of "length vs"] by (auto simp: arr_funcCall_def arr_push_def Let_def)
  next
    case APop
    then show ?thesis using assms same by (auto simp: arr_funcCall_def arr_pop_def Let_def list_all_iff split: if_splits)
  next
    case AReverse
    then show ?thesis using assms by (auto simp: arr_funcCall_def)
  next
    case AShift
    then show ?thesis using assms same by (auto simp: arr_funcCall_def arr_shift_def Let_def list_all_iff split: if_splits)
  next
    case (AUnshift vs)
    then show ?thesis using assms m [of "length vs"] by (auto simp: arr_funcCall_def arr_unshift_def unshift_plain Let_def add.commute)
  next
    case (ASlice b oe)
    have e: "part_end (length (mEls A)) oe \<le> int (length (mEls A))"
      "take (nat (part_end (length (mEls A)) oe)) (mEls A) =
        take (case oe of None \<Rightarrow> length (mEls A) | Some j \<Rightarrow> from_end (length (mEls A)) j) (mEls A)"
      using ASlice assms(2) part_end_from_end [OF _ n(2)] part_end_none [OF n(2)] by (auto split: option.splits simp: min_def)
    have a: "arg_opt E 1 (snd (cmd_call c)) = Inr oe" for E :: "'a venv"
      using ASlice by (auto simp: arg_opt_def split: option.split)
    show ?thesis
      using ASlice assms(2,4) slice_part [OF assms(1) e(1), unfolded e(2)] a part_beg_from_end [OF _ n(2), of b]
      by (auto simp: arr_funcCall_def arr_slice_def Let_def)
  next
    case (ASplice b k vs)
    have b: "to_i32 (max 0 b) = int (nat b)" "to_i32 k = k" using ASplice assms(2) by (auto simp: int32_def to_i32_id)
    let ?els = "take (nat b) (mEls A) @ drop (nat b + nat k) (mEls A)"
    have d: "del_loop E k (int (nat b)) 0 (mEls A) [] = Inr (?els, take (nat k) (drop (nat b) (mEls A)))" for E :: "'a venv"
      using del_plain [OF assms(1) _ n(2), of "int (nat b)" E k "[]"] by simp
    have i: "ins_loop E (int (nat b)) 0 vs ?els =
        Inr (take (nat b) (mEls A) @ (if nat b \<le> length (mEls A) then vs else []) @ drop (nat b + nat k) (mEls A))" for E :: "'a venv"
      using ASplice assms(2,3) by (intro splice_ins) simp_all
    show ?thesis using ASplice assms(4) b d i by (auto simp: arr_funcCall_def arr_splice_def arg_opt_def Let_def)
  qed
qed

text \<open>An array is the list of its elements: every sequence of the calls push, pop, reverse, shift, unshift,
  slice and splice with the indexes from the begin, from the end and beyond it gives the results and leaves
  the elements of the same operations on a list, for values that copy as they are and a size within the
  integers.\<close>

lemma array_refines_list:
  assumes "list_all plain_val (mEls A)" "\<forall>c \<in> set cs. cmd_ok c" "int (length (mEls A) + sum_list (map cmd_adds cs)) < 2 ^ 31"
  shows "arr_runs R cs A = Some (Inr (map res_of (fst (list_cmds cs (mEls A))), A\<lparr>mEls := snd (list_cmds cs (mEls A))\<rparr>))"
  using assms
proof (induction cs arbitrary: A)
  case (Cons c cs)
  obtain r xs where x: "list_cmd c (mEls A) = (r, xs)" by (cases "list_cmd c (mEls A)")
  note f = cmd_refines [OF Cons.prems(1) _ _ x]
  have o: "cmd_ok c" "int (length (mEls A) + cmd_adds c) < 2 ^ 31" using Cons.prems(2,3) by auto
  have "arr_runs R cs (A\<lparr>mEls := xs\<rparr>) = Some (Inr (map res_of (fst (list_cmds cs xs)), A\<lparr>mEls := snd (list_cmds cs xs)\<rparr>))"
    using Cons.IH [of "A\<lparr>mEls := xs\<rparr>"] f(2,3) [OF o] Cons.prems(2,3) by simp
  then show ?case using f(1) [OF o, of R] x by (simp split: prod.split)
qed simp

definition wit_arr :: "nat aenv" where
  "wit_arr = \<lparr>ae_v = wit_env, ae_src = (\<lambda>h. if h = 1 then AThis else ANone), r_add = (\<lambda>x y. x),
     sort_perm = (\<lambda>ks. sort_key (\<lambda>i. ks ! i) [0..<length ks])\<rparr>"

lemma array_refines_list_witness:
  "\<exists>rs. arr_runs wit_arr [APush [vint 1, vint 2, vint 3], ASplice 1 1 [vint 8, vint 9], AShift, ASlice (- 2) None] \<lparr>mProps = [], mEls = []\<rparr>
     = Some (Inr (rs, \<lparr>mProps = [], mEls = [vint 8, vint 9, vint 3]\<rparr>)) \<and> last rs = RArr [vint 9, vint 3]"
  using array_refines_list [of "\<lparr>mProps = [], mEls = []\<rparr>"
      "[APush [vint 1, vint 2, vint 3], ASplice 1 1 [vint 8, vint 9], AShift, ASlice (- 2) None]" wit_arr]
  by (simp add: int32_def from_end_def numeral_eq_Suc)

section \<open>Searching and sorting\<close>

lemma texts_nth: "texts E els = Inr ts \<Longrightarrow> length ts = length els \<and> (\<forall>i < length els. getS E (els ! i) = Inr (ts ! i))"
proof (induction els arbitrary: ts)
  case (Cons v els)
  then obtain t us where t: "getS E v = Inr t" "texts E els = Inr us" "ts = t # us" by (auto simp: rbind_Inr)
  then show ?case using Cons.IH [OF t(2)] by (auto simp: nth_Cons split: nat.split)
qed simp

lemma texts_drop: "texts E els = Inr ts \<Longrightarrow> texts E (drop k els) = Inr (drop k ts)"
proof (induction els arbitrary: ts k)
  case (Cons v els)
  then show ?case by (cases k) (auto simp: rbind_Inr)
qed simp

lemma texts_map: "\<forall>i \<in> set is. getS E (f i) = Inr (g i) \<Longrightarrow> texts E (map f is) = Inr (map g is)"
  by (induction "is") auto

lemma index_loop_found:
  assumes "texts E els = Inr ts" "int (length els) + iE < 2 ^ 31" "0 \<le> iE"
  shows "index_loop E t iE els = Inr (if t \<in> set ts then iE + int (length (takeWhile (\<lambda>x. x \<noteq> t) ts)) else - 1)"
  using assms
proof (induction els arbitrary: ts iE)
  case (Cons v els)
  then obtain s us where s: "getS E v = Inr s" "texts E els = Inr us" "ts = s # us" by (auto simp: rbind_Inr)
  then show ?case using Cons.IH [OF s(2), of "iE + 1"] Cons.prems(2,3) by (auto simp: to_i32_id)
qed simp

text \<open>\<open>indexOf\<close> gives the first index from the start on whose element has the text of the value, or -1.\<close>

lemma array_index_first:
  assumes "texts (ae_v R) (mEls A) = Inr ts" "getS (ae_v R) v = Inr t" "0 \<le> i" "i < int (length (mEls A))" "int (length (mEls A)) < 2 ^ 31"
  shows "arr_funcCall R ''indexOf'' [v, vint i] A = Some (Inr (RVal (vint (if t \<in> set (drop (nat i) ts)
      then i + int (length (takeWhile (\<lambda>x. x \<noteq> t) (drop (nat i) ts))) else - 1)), A))"
proof -
  have "(int (length (mEls A)) - 1) mod 18446744073709551616 = int (length (mEls A)) - 1"
    using assms(3-5) by (intro mod_pos_pos_trivial) auto
  then have "index_start (length (mEls A)) (Some i) = nat i" using assms(3-5) by (simp add: index_start_def)
  then show ?thesis
    using assms index_loop_found [OF texts_drop [OF assms(1), of "nat i"], of i t]
    by (simp add: arr_funcCall_def arr_indexOf_def arg_opt_def Let_def)
qed

text \<open>Sorting, by what \<open>std::sort\<close> promises, rearranges the elements in the order of their texts.\<close>

definition sorts :: "'h aenv \<Rightarrow> bool" where
  "sorts R \<longleftrightarrow> (\<forall>ks. mset (sort_perm R ks) = mset [0..<length ks] \<and> sorted (map (\<lambda>i. ks ! i) (sort_perm R ks)))"

lemma array_sort_sorted:
  assumes "sorts R" "texts (ae_v R) (mEls A) = Inr ts"
  shows "\<exists>A' us. arr_funcCall R ''sort'' [] A = Some (Inr (RThis, A')) \<and> mset (mEls A') = mset (mEls A) \<and> mProps A' = mProps A
    \<and> texts (ae_v R) (mEls A') = Inr us \<and> sorted us"
proof -
  let ?p = "sort_perm R ts"
  have t: "length ts = length (mEls A)" "\<forall>i < length (mEls A). getS (ae_v R) (mEls A ! i) = Inr (ts ! i)"
    using texts_nth [OF assms(2)] by auto
  have p: "mset ?p = mset [0..<length (mEls A)]" "sorted (map (\<lambda>i. ts ! i) ?p)" using assms(1) t(1) by (auto simp: sorts_def)
  have "set ?p = {0..<length (mEls A)}" using arg_cong [OF p(1), of set_mset] by simp
  then have u: "texts (ae_v R) (map (\<lambda>i. mEls A ! i) ?p) = Inr (map (\<lambda>i. ts ! i) ?p)" using t(2) by (intro texts_map) auto
  have "mset (map (\<lambda>i. mEls A ! i) ?p) = mset (map (\<lambda>i. mEls A ! i) [0..<length (mEls A)])" unfolding mset_map p(1) ..
  then have "mset (map (\<lambda>i. mEls A ! i) ?p) = mset (mEls A)" by (simp add: map_nth)
  then show ?thesis using u p(2) assms(2) by (simp add: arr_funcCall_def arr_sort_def Let_def)
qed

lemma sorts_wit: "sorts wit_arr"
  by (simp add: sorts_def wit_arr_def)

section \<open>Faults\<close>

text \<open>The search from the end begins behind the last element.\<close>

lemma last_index_outside: "getS (ae_v R) v = Inr t \<Longrightarrow> arr_funcCall R ''lastIndexOf'' (v # vs) A = Some (Inl UndefRead)"
  by (simp add: arr_funcCall_def arr_lastIndexOf_def last_loop.simps vat_def)

text \<open>Concatenating an array to itself never ends.\<close>

lemma concat_this_none:
  assumes "i < length els" "list_all plain_val els"
  shows "concat_this E i els = None"
proof -
  have "i' < length els' \<and> list_all plain_val els' \<longrightarrow> False" if "concat_this E' i' els' = Some r" for E' :: "'a venv" and i' els' r
    using _ that
  proof (rule concat_this.raw_induct [of "\<lambda>E' i' els' r. i' < length els' \<and> list_all plain_val els' \<longrightarrow> False"])
    fix loop E' i' els' r
    assume ih: "\<And>(E' :: 'a venv) i' els' r. loop E' i' els' = Some r \<Longrightarrow> i' < length els' \<and> list_all plain_val els' \<longrightarrow> False"
      and e: "(if i' < length els' then case arGet E' (int i') els' of Inl e \<Rightarrow> Some (Inl e) | Inr v \<Rightarrow> loop E' (Suc i') (els' @ [v])
        else Some (Inr els')) = Some r"
    show "i' < length els' \<and> list_all plain_val els' \<longrightarrow> False"
    proof
      assume l: "i' < length els' \<and> list_all plain_val els'"
      then have "loop E' (Suc i') (els' @ [els' ! i']) = Some r" using e arGet_plain [of els' "int i'" E'] by simp
      from ih [OF this] l have "\<not> list_all plain_val (els' @ [els' ! i'])" by simp
      moreover have "plain_val (els' ! i')" using l by (simp add: list_all_length)
      ultimately show False using l by simp
    qed
  qed
  then show ?thesis using assms by (cases "concat_this E i els") blast+
qed

lemma concat_self_never_ends:
  assumes "mType v = Object" "vval v = VO (Some h)" "ae_src R h = AThis" "mEls A \<noteq> []" "list_all plain_val (mEls A)"
  shows "arr_funcCall R ''concat'' [v] A = None"
  using assms concat_this_none [of 0 "mEls A" "ae_v R"] by (simp add: arr_funcCall_def arr_concat_def Let_def)

end
