(* ===== verification/Modbus_Node.thy ===== *)
theory Modbus_Node
  imports Modbus_Frame Tfunction
begin

text \<open>
  The node of the ModBus input protocol (\<^verbatim>\<open>src/src/moduls/daq/ModBus/modbus_prt.cpp\<close>, class
  \<open>Node\<close>): the table of the registers and the coils made of the identifiers of the inputs and outputs,
  and the processing of a request PDU, \<open>Node::req\<close>, in the data mode over the values of the
  function (\<open>Tfunction\<close>) and in the gateway modes.

  The host is little-endian.  What \<open>lnkOutput\<close> passes to the linked attributes is kept as a list, the
  counters of the requests (\<open>float\<close> in the code) are integers, and the answer of the device behind a
  gateway is a parameter: \<open>None\<close> for a thrown error, otherwise whether it set the attribute
  \<open>err\<close>, and the text.
\<close>

section \<open>The data\<close>

record sio =
  s_id :: nat
  s_tp :: char
  s_pos :: int
  s_endian :: bool

type_synonym blk = "int \<Rightarrow> sio option"

record 'h ndata =
  coilR :: blk
  coilW :: blk
  coilI :: blk
  regR :: blk
  regW :: blk
  regI :: blk
  rCoil :: int
  rCoilI :: int
  rReg :: int
  rRegI :: int
  wCoil :: int
  wReg :: int
  nvals :: "'h valfunc"
  outs :: "(nat \<times> 'h variant) list"

record 'h node =
  mEn :: bool
  cfgInTR :: string
  cfgADDR :: int
  cfgPRT :: string
  cfgMODE :: int
  cfgTO_ADDR :: string
  cntReq :: int
  ndat :: "'h ndata"

abbreviation (input) MD_DATA :: int where "MD_DATA \<equiv> 0"
abbreviation (input) MD_GT_ND :: int where "MD_GT_ND \<equiv> 1"
abbreviation (input) MD_GT_NET :: int where "MD_GT_NET \<equiv> 2"

section \<open>The table of the registers and the coils\<close>

text \<open>A first registration stays; the following ones of the same address are left out with a warning.\<close>

definition blk_add :: "int \<Rightarrow> sio \<Rightarrow> blk \<Rightarrow> blk" where
  "blk_add i v b = (case b i of None \<Rightarrow> b(i \<mapsto> v) | Some _ \<Rightarrow> b)"

definition regCR :: "int \<Rightarrow> sio \<Rightarrow> string \<Rightarrow> bool \<Rightarrow> 'h ndata \<Rightarrow> 'h ndata res" where
  "regCR i v tpn wr D =
     (if tpn = ''C'' then Inr (if wr then D\<lparr>coilW := blk_add i v (coilW D)\<rparr> else D\<lparr>coilR := blk_add i v (coilR D)\<rparr>)
      else if tpn = ''CI'' then Inr (D\<lparr>coilI := blk_add i v (coilI D)\<rparr>)
      else if tpn = ''R'' then Inr (if wr then D\<lparr>regW := blk_add i v (regW D)\<rparr> else D\<lparr>regR := blk_add i v (regR D)\<rparr>)
      else if tpn = ''RI'' then Inr (D\<lparr>regI := blk_add i v (regI D)\<rparr>)
      else Inl (TError 0))"

text \<open>Registering for reading and, with the sign of writing, for writing; and a list of these.\<close>

definition reg_both :: "int \<times> sio \<Rightarrow> string \<Rightarrow> bool \<Rightarrow> 'h ndata \<Rightarrow> 'h ndata res" where
  "reg_both r tpn wr D =
     rbind (regCR (fst r) (snd r) tpn False D) (\<lambda>D'. if wr then regCR (fst r) (snd r) tpn True D' else Inr D')"

fun reg_each :: "bool \<Rightarrow> (int \<times> sio) list \<Rightarrow> string \<Rightarrow> 'h ndata \<Rightarrow> 'h ndata res" where
  "reg_each wr [] tpn D = Inr D"
| "reg_each wr (r # rs) tpn D = rbind (regCR (fst r) (snd r) tpn wr D) (reg_each wr rs tpn)"

fun reg_both_each :: "bool \<Rightarrow> (int \<times> sio) list \<Rightarrow> string \<Rightarrow> 'h ndata \<Rightarrow> 'h ndata res" where
  "reg_both_each wr [] tpn D = Inr D"
| "reg_both_each wr (r # rs) tpn D = rbind (reg_both r tpn wr D) (reg_both_each wr rs tpn)"

definition reg_all :: "bool \<Rightarrow> (int \<times> sio) list \<Rightarrow> string \<Rightarrow> 'h ndata \<Rightarrow> 'h ndata res" where
  "reg_all wr rs tpn D = rbind (reg_each False rs tpn D) (\<lambda>D'. if wr then reg_each True rs tpn D' else Inr D')"

definition parse0 :: "string \<Rightarrow> int \<Rightarrow> string \<Rightarrow> string res" where
  "parse0 s level sep = rbind (strParse s level sep None False) (\<lambda>(r, e). Inr r)"

text \<open>The next element from an offset, and the offset after it.\<close>

definition parse_off :: "string \<Rightarrow> int \<Rightarrow> (string \<times> int) res" where
  "parse_off s off = rbind (strParse s 0 '':'' (Some off) False) (\<lambda>(r, e). Inr (r, case e of Some x \<Rightarrow> x | None \<Rightarrow> off))"

text \<open>The symbols \<open>w\<close>, \<open>~\<close> and \<open>e\<close> after the last digit, from the last one.\<close>

definition mode_of :: "string \<Rightarrow> string" where
  "mode_of s = concat (map (\<lambda>c. if tolower c = CHR ''w'' then ''w'' else if tolower c = CHR ''~'' then ''~''
      else if tolower c = CHR ''e'' then ''e'' else []) (takeWhile (\<lambda>c. \<not> isdigit c) (rev s)))"

text \<open>The type, the address and the mode of an identifier, in the unified or in the specific form.\<close>

definition io_parts :: "string \<Rightarrow> (string \<times> string \<times> string) res" where
  "io_parts ioId = rbind (parse0 ioId 1 '':'') (\<lambda>p1.
     if p1 \<noteq> [] then
       rbind (parse_off ioId 0) (\<lambda>(atp, o1). rbind (parse_off ioId o1) (\<lambda>(ai, o2).
         rbind (parse_off ioId o2) (\<lambda>(mode, o3). Inr (atp, ai, mode))))
     else let atp = takeWhile (\<lambda>c. \<not> isdigit c) ioId in Inr (atp, drop (length atp) ioId, mode_of ioId))"

definition reg_next :: "string \<Rightarrow> int \<Rightarrow> int \<Rightarrow> int res" where
  "reg_next ai level prev = rbind (parse0 ai level '','') (\<lambda>t.
     if t \<noteq> [] then Inr (to_i32 (strtol 0 t)) else if prev = 2 ^ 31 - 1 then Inl Overflow else Inr (to_i32 (prev + 1)))"

definition io_reg :: "nat \<Rightarrow> string \<Rightarrow> 'h ndata \<Rightarrow> 'h ndata res" where
  "io_reg iIO ioId D =
     (if at ioId 0 \<noteq> CHR ''C'' \<and> at ioId 0 \<noteq> CHR ''R'' then Inr D
      else rbind (io_parts ioId) (\<lambda>(atp, ai, mode).
       rbind (parse0 atp 0 ''_'') (\<lambda>atpM. rbind (parse0 atp 1 ''_'') (\<lambda>atpSub.
       let isWr = CHR ''w'' \<in> set mode; isBackSeq = CHR ''~'' \<in> set mode; isEToggle = CHR ''e'' \<in> set mode;
           reg = to_i32 (strtol 0 ai);
           sio = (\<lambda>pos. \<lparr>s_id = iIO, s_tp = at atpSub 0, s_pos = pos, s_endian = isEToggle\<rparr>)
       in if at atpM 0 = CHR ''R'' then
            (if atpSub = ''i'' \<or> atpSub = ''i4'' \<or> atpSub = ''f'' then
               rbind (reg_next ai 1 reg) (\<lambda>reg2.
               reg_all isWr [(reg, sio (if isBackSeq then 1 else 0)), (reg2, sio (if isBackSeq then 0 else 1))] atpM D)
             else if atpSub = ''i8'' \<or> atpSub = ''d'' then
               rbind (reg_next ai 1 reg) (\<lambda>reg2. rbind (reg_next ai 2 reg2) (\<lambda>reg3. rbind (reg_next ai 3 reg3) (\<lambda>reg4.
               reg_all isWr [(reg, sio (if isBackSeq then 3 else 0)), (reg2, sio (if isBackSeq then 2 else 1)),
                             (reg3, sio (if isBackSeq then 1 else 2)), (reg4, sio (if isBackSeq then 0 else 3))] atpM D)))
             else rbind (reg_both (reg, sio 0) atpM isWr D) (\<lambda>D1.
               if atpSub = ''s'' then
                 rbind (parse0 ai 1 '','') (\<lambda>t.
                 let N0 = (if t = [] then 0 else to_i32 (min 100 (strtol 0 t))); N = (if N0 = 0 then 10 else N0)
                 in reg_both_each isWr (map (\<lambda>iR. (iR, sio (iR - reg))) [reg + 1 .. reg + N - 1]) atpM D1)
               else Inr D1))
          else if at atpM 0 = CHR ''C'' then
            reg_both (reg, \<lparr>s_id = iIO, s_tp = nul, s_pos = 0, s_endian = False\<rparr>) atpM isWr D
          else Inr D))))"

fun io_regs :: "nat \<Rightarrow> string list \<Rightarrow> 'h ndata \<Rightarrow> 'h ndata res" where
  "io_regs iIO [] D = Inr D"
| "io_regs iIO (s # ss) D = rbind (io_reg iIO s D) (io_regs (Suc iIO) ss)"

definition ndata_new :: "'h valfunc \<Rightarrow> 'h ndata" where
  "ndata_new vf = \<lparr>coilR = Map.empty, coilW = Map.empty, coilI = Map.empty, regR = Map.empty, regW = Map.empty, regI = Map.empty,
     rCoil = 0, rCoilI = 0, rReg = 0, rRegI = 0, wCoil = 0, wReg = 0, nvals = vf, outs = []\<rparr>"

section \<open>The parts of a value in its registers\<close>

definition swap16 :: "u16 \<Rightarrow> u16" where
  "swap16 v = push_bit 8 v OR drop_bit 8 v"

definition i16_LE :: "u16 \<Rightarrow> u16" where
  "i16_LE v = v"

definition i16_BE :: "u16 \<Rightarrow> u16" where
  "i16_BE v = swap16 v"

definition numEnd :: "sio \<Rightarrow> u16 \<Rightarrow> u16" where
  "numEnd r v = (if s_endian r then i16_LE v else i16_BE v)"

definition strEnd :: "sio \<Rightarrow> u16 \<Rightarrow> u16" where
  "strEnd r v = (if s_endian r then i16_BE v else i16_LE v)"

text \<open>A register of the union \<open>wl\<close> with a 64- or 32-bit value.\<close>

definition word_get :: "nat \<Rightarrow> u64 \<Rightarrow> int \<Rightarrow> u16 res" where
  "word_get n w pos = (if 0 \<le> pos \<and> pos < int n then Inr (ucast (drop_bit (16 * nat pos) w)) else Inl UndefRead)"

definition word_put :: "nat \<Rightarrow> u64 \<Rightarrow> int \<Rightarrow> u16 \<Rightarrow> u64 res" where
  "word_put n w pos v =
     (if 0 \<le> pos \<and> pos < int n
      then Inr ((w AND NOT (push_bit (16 * nat pos) 0xFFFF)) OR push_bit (16 * nat pos) (ucast v)) else Inl UndefRead)"

text \<open>Two bytes of the memory as a word and back; \<open>std::string::resize\<close> with zeroes.\<close>

definition mem16 :: "u8 \<Rightarrow> u8 \<Rightarrow> u16" where
  "mem16 a b = ucast a OR push_bit 8 (ucast b)"

definition mem_bytes :: "u16 \<Rightarrow> bytes" where
  "mem_bytes v = [ucast v, ucast (drop_bit 8 v)]"

definition sresize :: "nat \<Rightarrow> string \<Rightarrow> string" where
  "sresize n s = take n s @ replicate (n - length s) nul"

definition str_get :: "string \<Rightarrow> int \<Rightarrow> u16 res" where
  "str_get s0 pos =
     (let s = sresize (nat (max 0 ((pos + 1) * 2))) s0
      in if pos < 0 then Inl UndefRead else Inr (mem16 (byte (s ! nat (pos * 2))) (byte (s ! nat (pos * 2 + 1)))))"

definition str_put :: "string \<Rightarrow> int \<Rightarrow> u16 \<Rightarrow> string res" where
  "str_put s0 pos v =
     (let s = sresize (nat (max (int (length s0)) ((pos + 1) * 2))) s0
      in if pos < 0 then Inl OutOfRange
         else Inr (take (nat (pos * 2)) s @ map chr (mem_bytes v) @ drop (nat (pos * 2) + 2) s))"

text \<open>The cache \<open>grpVals\<close>, in the order of its keys.\<close>

type_synonym 'h grp = "(nat \<times> 'h variant) list"

fun grp_put :: "nat \<Rightarrow> 'h variant \<Rightarrow> 'h grp \<Rightarrow> 'h grp" where
  "grp_put k v [] = [(k, v)]"
| "grp_put k v ((j, w) # g) = (if k < j then (k, v) # (j, w) # g else if k = j then (k, v) # g else (j, w) # grp_put k v g)"

text \<open>The cached value of an input, or the read one, converted by the caller's type.\<close>

definition grpI :: "'h venv \<Rightarrow> 'h ndata \<Rightarrow> nat \<Rightarrow> 'h grp \<Rightarrow> int res" where
  "grpI E D k g = (case map_of g k of Some v \<Rightarrow> getI E v | None \<Rightarrow> vf_at (nvals D) k slot_getI)"

definition grpR :: "'h venv \<Rightarrow> 'h ndata \<Rightarrow> nat \<Rightarrow> 'h grp \<Rightarrow> u64 res" where
  "grpR E D k g = (case map_of g k of Some v \<Rightarrow> getR E v | None \<Rightarrow> vf_at (nvals D) k (slot_getR E))"

definition grpS :: "'h venv \<Rightarrow> 'h ndata \<Rightarrow> nat \<Rightarrow> 'h grp \<Rightarrow> string res" where
  "grpS E D k g = (case map_of g k of Some v \<Rightarrow> getS E v | None \<Rightarrow> vf_at (nvals D) k (slot_getS E))"

definition grp_keep :: "nat \<Rightarrow> 'h variant \<Rightarrow> 'h grp \<Rightarrow> 'h grp" where
  "grp_keep k v g = (case map_of g k of Some _ \<Rightarrow> g | None \<Rightarrow> grp_put k v g)"

section \<open>Reading requests\<close>

text \<open>The 16-bit number of two bytes, high byte first; the answer with an exception code.\<close>

definition be16 :: "u8 \<Rightarrow> u8 \<Rightarrow> int" where
  "be16 h l = 256 * uint h + uint l"

definition except :: "u8 \<Rightarrow> bytes \<Rightarrow> bytes" where
  "except c pdu = [(pdu ! 0) OR 0x80, c]"

definition pdu_count :: "bytes \<Rightarrow> int" where
  "pdu_count pdu = (if length pdu = 5 then be16 (pdu ! 3) (pdu ! 4) else 0)"

fun rd_coils :: "'h ndata \<Rightarrow> blk \<Rightarrow> int \<Rightarrow> nat list \<Rightarrow> bytes \<times> bool \<Rightarrow> (bytes \<times> bool) res" where
  "rd_coils D b c_addr [] s = Inr s"
| "rd_coils D b c_addr (k # ks) (pdu, isData) =
     (case b (c_addr + int k) of
        None \<Rightarrow> rd_coils D b c_addr ks (pdu, isData)
      | Some r \<Rightarrow> rbind (vf_at (nvals D) (s_id r) slot_getB) (\<lambda>v.
          rd_coils D b c_addr ks
            ((if v \<noteq> 0 then pdu[2 + k div 8 := (pdu ! (2 + k div 8)) OR push_bit (k mod 8) 1] else pdu), True)))"

text \<open>
  The count of bytes is passed to the constructor of the zero string as a signed \<open>char\<close>: from 128 on
  it is a huge number.
\<close>

definition fc_coils :: "'h ndata \<Rightarrow> bytes \<Rightarrow> (bytes \<times> 'h ndata) res" where
  "fc_coils D pdu =
     (let c_sz = pdu_count pdu; fc = pdu ! 0
      in if c_sz < 1 \<or> c_sz > 2000 then Inr (except 3 pdu, D)
         else let c_addr = be16 (pdu ! 1) (pdu ! 2);
                  n = nat (c_sz div 8 + (if c_sz mod 8 \<noteq> 0 then 1 else 0))
              in if n \<ge> 128 then Inl LengthError
                 else rbind (rd_coils D (if fc = 1 then coilR D else coilI D) c_addr [0 ..< nat c_sz]
                               ([fc, word_of_nat n] @ replicate n 0, False))
                        (\<lambda>(p, isData).
                          if \<not> isData then Inr (except 2 p, D)
                          else Inr (p, if fc = 1 then D\<lparr>rCoil := rCoil D + c_sz\<rparr> else D\<lparr>rCoilI := rCoilI D + c_sz\<rparr>)))"

text \<open>One register: its value in the order of the bytes of the memory, and the cache.\<close>

definition rd_reg :: "'h venv \<Rightarrow> 'h ndata \<Rightarrow> sio \<Rightarrow> 'h grp \<Rightarrow> (u16 \<times> 'h grp) res" where
  "rd_reg E D r g =
     (let k = s_id r
      in if s_tp r = CHR ''i'' then
           rbind (grpI E D k g) (\<lambda>i. rbind (word_get 4 (word_of_int i) (s_pos r)) (\<lambda>v.
             Inr (numEnd r v, grp_keep k (vint i) g)))
         else if s_tp r = CHR ''f'' then
           rbind (grpR E D k g) (\<lambda>x. rbind (word_get 2 (ucast (d2f x)) (s_pos r)) (\<lambda>v.
             Inr (numEnd r v, grp_keep k (vreal (f2d (d2f x))) g)))
         else if s_tp r = CHR ''d'' then
           rbind (grpR E D k g) (\<lambda>x. rbind (word_get 4 x (s_pos r)) (\<lambda>v.
             Inr (numEnd r v, grp_keep k (vreal x) g)))
         else if s_tp r = CHR ''s'' then
           rbind (grpS E D k g) (\<lambda>s. rbind (str_get s (s_pos r)) (\<lambda>v.
             Inr (strEnd r v, grp_keep k (vstr s) g)))
         else rbind (vf_at (nvals D) k slot_getI) (\<lambda>i. Inr (numEnd r (word_of_int i), g)))"

fun rd_regs :: "'h venv \<Rightarrow> 'h ndata \<Rightarrow> blk \<Rightarrow> int list \<Rightarrow> bytes \<times> bool \<times> 'h grp \<Rightarrow> (bytes \<times> bool) res" where
  "rd_regs E D b [] (pdu, isData, g) = Inr (pdu, isData)"
| "rd_regs E D b (iR # is) (pdu, isData, g) =
     (case b iR of
        None \<Rightarrow> rd_regs E D b is (pdu @ mem_bytes 0, isData, g)
      | Some r \<Rightarrow> rbind (rd_reg E D r g) (\<lambda>(v, g'). rd_regs E D b is (pdu @ mem_bytes v, True, g')))"

definition fc_regs :: "'h venv \<Rightarrow> 'h ndata \<Rightarrow> bytes \<Rightarrow> (bytes \<times> 'h ndata) res" where
  "fc_regs E D pdu =
     (let r_sz = pdu_count pdu; fc = pdu ! 0
      in if r_sz < 1 \<or> r_sz > 125 then Inr (except 3 pdu, D)
         else let r_addr = be16 (pdu ! 1) (pdu ! 2)
              in rbind (rd_regs E D (if fc = 3 then regR D else regI D) [r_addr .. r_addr + r_sz - 1]
                          ([fc, word_of_int (r_sz * 2)], False, []))
                   (\<lambda>(p, isData).
                     if \<not> isData then Inr (except 2 p, D)
                     else Inr (p, if fc = 3 then D\<lparr>rReg := rReg D + r_sz\<rparr> else D\<lparr>rRegI := rRegI D + r_sz\<rparr>)))"

section \<open>Writing requests\<close>

definition put_out :: "nat \<Rightarrow> 'h variant \<Rightarrow> 'h valfunc \<Rightarrow> 'h ndata \<Rightarrow> 'h ndata" where
  "put_out k v vf D = D\<lparr>nvals := vf, outs := outs D @ [(k, v)]\<rparr>"

definition wr_bool :: "'h venv \<Rightarrow> nat \<Rightarrow> bool \<Rightarrow> 'h ndata \<Rightarrow> 'h ndata res" where
  "wr_bool E k v D = rbind (vf_setB E k (b2i v) (nvals D)) (\<lambda>vf. Inr (put_out k (vbool (b2i v)) vf D))"

definition wr_int :: "'h venv \<Rightarrow> nat \<Rightarrow> int \<Rightarrow> 'h ndata \<Rightarrow> 'h ndata res" where
  "wr_int E k v D = rbind (vf_setI E k v (nvals D)) (\<lambda>vf. Inr (put_out k (vint v) vf D))"

definition wr_real :: "'h venv \<Rightarrow> nat \<Rightarrow> u64 \<Rightarrow> 'h ndata \<Rightarrow> 'h ndata res" where
  "wr_real E k v D = rbind (vf_setR E k v (nvals D)) (\<lambda>vf. Inr (put_out k (vreal v) vf D))"

definition wr_str :: "'h venv \<Rightarrow> nat \<Rightarrow> string \<Rightarrow> 'h ndata \<Rightarrow> 'h ndata res" where
  "wr_str E k v D = rbind (vf_setS E k v (nvals D)) (\<lambda>vf. Inr (put_out k (vstr v) vf D))"

definition fc_coil_wr :: "'h venv \<Rightarrow> 'h ndata \<Rightarrow> bytes \<Rightarrow> (bytes \<times> 'h ndata) res" where
  "fc_coil_wr E D pdu =
     (if length pdu \<noteq> 5 then Inr (except 3 pdu, D)
      else let c_addr = be16 (pdu ! 1) (pdu ! 2)
           in rbind (case coilW D c_addr of
                       None \<Rightarrow> Inr (except 2 pdu, D)
                     | Some r \<Rightarrow> rbind (wr_bool E (s_id r) (pdu ! 3 \<noteq> 0) D) (\<lambda>D'. Inr (pdu, D')))
                (\<lambda>(p, D'). Inr (p, D'\<lparr>wCoil := wCoil D' + 1\<rparr>)))"

definition wr_reg :: "'h venv \<Rightarrow> sio \<Rightarrow> u16 \<Rightarrow> 'h ndata \<Rightarrow> 'h ndata res" where
  "wr_reg E r v D =
     (let k = s_id r
      in if s_tp r = CHR ''i'' then
           rbind (vf_at (nvals D) k slot_getI) (\<lambda>i. rbind (word_put 4 (word_of_int i) (s_pos r) (numEnd r v)) (\<lambda>w.
             wr_int E k (sint w) D))
         else if s_tp r = CHR ''f'' then
           rbind (vf_at (nvals D) k (slot_getR E)) (\<lambda>x. rbind (word_put 2 (ucast (d2f x)) (s_pos r) (numEnd r v)) (\<lambda>w.
             wr_real E k (f2d (ucast w)) D))
         else if s_tp r = CHR ''d'' then
           rbind (vf_at (nvals D) k (slot_getR E)) (\<lambda>x. rbind (word_put 4 x (s_pos r) (numEnd r v)) (\<lambda>w.
             wr_real E k w D))
         else if s_tp r = CHR ''s'' then
           rbind (vf_at (nvals D) k (slot_getS E)) (\<lambda>s. rbind (str_put s (s_pos r) (strEnd r v)) (\<lambda>s'.
             wr_str E k s' D))
         else wr_int E k (uint (numEnd r v)) D)"

definition fc_reg_wr :: "'h venv \<Rightarrow> 'h ndata \<Rightarrow> bytes \<Rightarrow> (bytes \<times> 'h ndata) res" where
  "fc_reg_wr E D pdu =
     (if length pdu \<noteq> 5 then Inr (except 3 pdu, D)
      else let r_addr = be16 (pdu ! 1) (pdu ! 2)
           in rbind (case regW D r_addr of
                       None \<Rightarrow> Inr (except 2 pdu, D)
                     | Some r \<Rightarrow> rbind (wr_reg E r (mem16 (pdu ! 3) (pdu ! 4)) D) (\<lambda>D'. Inr (pdu, D')))
                (\<lambda>(p, D'). Inr (p, D'\<lparr>wReg := wReg D' + 1\<rparr>)))"

text \<open>A byte of the PDU; at its end there is the zero byte of \<open>std::string\<close>.\<close>

definition pdu_at :: "bytes \<Rightarrow> nat \<Rightarrow> u8" where
  "pdu_at pdu i = (if i < length pdu then pdu ! i else 0)"

fun wr_coils :: "'h venv \<Rightarrow> bytes \<Rightarrow> int \<Rightarrow> nat list \<Rightarrow> bool \<Rightarrow> 'h ndata \<Rightarrow> (bool \<times> 'h ndata) res" where
  "wr_coils E pdu c_aSt [] noWrReg D = Inr (noWrReg, D)"
| "wr_coils E pdu c_aSt (k # ks) noWrReg D =
     (case coilW D (c_aSt + int k) of
        None \<Rightarrow> wr_coils E pdu c_aSt ks True D
      | Some r \<Rightarrow>
          rbind (vf_setB E (s_id r) (b2i (bit (pdu_at pdu (6 + k div 8)) (k mod 8))) (nvals D)) (\<lambda>vf.
          rbind (vf_at vf (s_id r) slot_getB) (\<lambda>v.
            wr_coils E pdu c_aSt ks noWrReg ((put_out (s_id r) (vbool v) vf D)\<lparr>wCoil := wCoil D + 1\<rparr>))))"

definition fc_coils_wr :: "'h venv \<Rightarrow> 'h ndata \<Rightarrow> bytes \<Rightarrow> (bytes \<times> 'h ndata) res" where
  "fc_coils_wr E D pdu =
     (if length pdu < 6 then Inr (except 3 pdu, D)
      else let c_aSt = be16 (pdu ! 1) (pdu ! 2); c_aCnt = be16 (pdu ! 3) (pdu ! 4); bCnt = unat (pdu ! 5)
           in if length pdu \<noteq> 6 + bCnt \<or> int bCnt < c_aCnt div 8 then Inr (except 3 pdu, D)
              else rbind (wr_coils E pdu c_aSt [0 ..< nat c_aCnt] False D) (\<lambda>(noWrReg, D').
                Inr (if noWrReg then except 2 pdu else take 5 pdu, D')))"

text \<open>One register of a group: the values of several registers are collected, the others are written.\<close>

definition wr_grp_reg :: "'h venv \<Rightarrow> sio \<Rightarrow> u16 \<Rightarrow> 'h ndata \<times> 'h grp \<Rightarrow> ('h ndata \<times> 'h grp) res" where
  "wr_grp_reg E r v = (\<lambda>(D, g).
     let k = s_id r
     in if s_tp r = CHR ''i'' then
          rbind (grpI E D k g) (\<lambda>i. rbind (word_put 4 (word_of_int i) (s_pos r) (numEnd r v)) (\<lambda>w.
            Inr (D, grp_put k (vint (sint w)) g)))
        else if s_tp r = CHR ''f'' then
          rbind (grpR E D k g) (\<lambda>x. rbind (word_put 2 (ucast (d2f x)) (s_pos r) (numEnd r v)) (\<lambda>w.
            Inr (D, grp_put k (vreal (f2d (ucast w))) g)))
        else if s_tp r = CHR ''d'' then
          rbind (grpR E D k g) (\<lambda>x. rbind (word_put 4 x (s_pos r) (numEnd r v)) (\<lambda>w.
            Inr (D, grp_put k (vreal w) g)))
        else if s_tp r = CHR ''s'' then
          rbind (grpS E D k g) (\<lambda>s. rbind (str_put s (s_pos r) (strEnd r v)) (\<lambda>s'.
            Inr (D, grp_put k (vstr s') g)))
        else rbind (wr_int E k (uint (numEnd r v)) D) (\<lambda>D'. Inr (D', g)))"

fun wr_regs :: "'h venv \<Rightarrow> bytes \<Rightarrow> int \<Rightarrow> nat list \<Rightarrow> bool \<Rightarrow> 'h ndata \<times> 'h grp \<Rightarrow> (bool \<times> 'h ndata \<times> 'h grp) res" where
  "wr_regs E pdu r_aSt [] noWrReg s = Inr (noWrReg, s)"
| "wr_regs E pdu r_aSt (k # ks) noWrReg (D, g) =
     rbind (case regW D (r_aSt + int k) of
              None \<Rightarrow> Inr (True, D, g)
            | Some r \<Rightarrow> rbind (wr_grp_reg E r (mem16 (pdu ! (6 + k * 2)) (pdu ! (6 + k * 2 + 1))) (D, g)) (\<lambda>s. Inr (noWrReg, s)))
       (\<lambda>(nw, D', g'). wr_regs E pdu r_aSt ks nw (D'\<lparr>wReg := wReg D' + 1\<rparr>, g'))"

text \<open>Writing the collected values, in the order of the inputs.\<close>

fun wr_grp :: "'h venv \<Rightarrow> 'h grp \<Rightarrow> 'h ndata \<Rightarrow> 'h ndata res" where
  "wr_grp E [] D = Inr D"
| "wr_grp E ((k, v) # g) D = rbind (vf_set E k v (nvals D)) (\<lambda>vf. wr_grp E g (put_out k v vf D))"

definition fc_regs_wr :: "'h venv \<Rightarrow> 'h ndata \<Rightarrow> bytes \<Rightarrow> (bytes \<times> 'h ndata) res" where
  "fc_regs_wr E D pdu =
     (if length pdu < 6 then Inr (except 3 pdu, D)
      else let r_aSt = be16 (pdu ! 1) (pdu ! 2); r_aCnt = be16 (pdu ! 3) (pdu ! 4); bCnt = unat (pdu ! 5)
           in if length pdu \<noteq> 6 + bCnt \<or> int bCnt < r_aCnt * 2 \<or> r_aCnt > 123 then Inr (except 3 pdu, D)
              else rbind (wr_regs E pdu r_aSt [0 ..< nat r_aCnt] False (D, [])) (\<lambda>(noWrReg, D1, g).
                rbind (wr_grp E g D1) (\<lambda>D2. Inr (if noWrReg then except 2 pdu else take 5 pdu, D2))))"

section \<open>A request\<close>

definition data_req :: "'h venv \<Rightarrow> bytes \<Rightarrow> 'h ndata \<Rightarrow> (bytes \<times> 'h ndata) res" where
  "data_req E pdu D =
     (let fc = pdu ! 0
      in if fc = 0x01 \<or> fc = 0x02 then fc_coils D pdu
         else if fc = 0x03 \<or> fc = 0x04 then fc_regs E D pdu
         else if fc = 0x05 then fc_coil_wr E D pdu
         else if fc = 0x06 then fc_reg_wr E D pdu
         else if fc = 0x0F then fc_coils_wr E D pdu
         else if fc = 0x10 then fc_regs_wr E D pdu
         else Inr (except 1 pdu, D))"

text \<open>
  Through a gateway the text of the answer replaces the PDU also when the device set \<open>err\<close>; the
  exception code stays only for a thrown error.
\<close>

definition gate_req :: "(string \<Rightarrow> bytes \<Rightarrow> (bool \<times> bytes) option) \<Rightarrow> string \<Rightarrow> bytes \<Rightarrow> bytes" where
  "gate_req gate nod pdu = (case gate nod pdu of
       None \<Rightarrow> except 0xA pdu
     | Some (err, tx) \<Rightarrow> let p1 = (if err then except 0xA pdu else pdu) in tx)"

definition node_takes :: "'h node \<Rightarrow> string \<Rightarrow> string \<Rightarrow> u8 \<Rightarrow> bytes \<Rightarrow> bool" where
  "node_takes n itr iprt inode pdu \<longleftrightarrow>
     \<not> (\<not> mEn n \<or> pdu = [] \<or>
        \<not> ((cfgInTR n = ''*'' \<and> cfgMODE n \<noteq> MD_GT_NET) \<or> cfgInTR n = itr) \<or>
        \<not> (cfgADDR n = uint inode \<or> cfgMODE n = MD_GT_NET) \<or>
        \<not> (cfgPRT n = ''*'' \<or> iprt = cfgPRT n))"

definition node_req :: "'h venv \<Rightarrow> (string \<Rightarrow> bytes \<Rightarrow> (bool \<times> bytes) option) \<Rightarrow> string \<Rightarrow> string \<Rightarrow> u8 \<Rightarrow> bytes \<Rightarrow> 'h node
    \<Rightarrow> (bool \<times> bytes \<times> 'h node) res" where
  "node_req E gate itr iprt inode pdu n0 =
     (if \<not> node_takes n0 itr iprt inode pdu then Inr (False, pdu, n0)
      else let n = n0\<lparr>cntReq := cntReq n0 + 1\<rparr>
           in if cfgMODE n = MD_DATA then
                rbind (data_req E pdu (ndat n)) (\<lambda>(p, D). Inr (True, p, n\<lparr>ndat := D\<rparr>))
              else if cfgMODE n = MD_GT_ND \<or> cfgMODE n = MD_GT_NET then
                Inr (True, gate_req gate (if cfgMODE n = MD_GT_NET then i2s (uint inode) Dec else cfgTO_ADDR n) pdu, n)
              else Inr (True, pdu, n))"

end
