(* ===== verification/Modbus_Regs.thy ===== *)
theory Modbus_Regs
  imports Modbus_Node
begin

text \<open>
  What the registers of a ModBus node hold (\<open>Modbus_Node\<close>): a word of a register is written and read
  back through the value of its input, alone or in a group collected before writing; the form of the
  answers; the coil reading that throws.
\<close>

section \<open>What a register holds\<close>

lemma swap16_swap16 [simp]: "swap16 (swap16 v) = v"
  by (rule bit_word_eqI) (auto simp: swap16_def bit_simps dest: bit_imp_le_length)

lemma numEnd_numEnd [simp]: "numEnd r (numEnd r v) = v"
  by (simp add: numEnd_def i16_LE_def i16_BE_def)

lemma mem_bytes_mem16 [simp]: "mem_bytes (mem16 a b) = [a, b]"
proof -
  have "ucast (mem16 a b) = a" "ucast (drop_bit 8 (mem16 a b)) = b"
    by (auto intro!: bit_word_eqI simp: mem16_def bit_simps)
  then show ?thesis by (simp add: mem_bytes_def)
qed

lemma word_put_get:
  assumes "word_put n w p v = Inr w'" "n \<le> 4"
  shows "word_get n w' p = Inr v" "q \<noteq> p \<Longrightarrow> word_get n w' q = word_get n w q"
proof -
  have p: "0 \<le> p" "p < int n" and w': "w' = (w AND NOT (push_bit (16 * nat p) 0xFFFF)) OR push_bit (16 * nat p) (ucast v)"
    using assms(1) by (auto simp: word_put_def split: if_splits)
  have m: "(0xFFFF :: u64) = mask 16" by (simp add: mask_eq_exp_minus_1)
  define a where "a = nat p"
  have a: "a < 4" using p assms(2) by (simp add: a_def)
  have "ucast (drop_bit (16 * a) w') = v"
    by (rule bit_word_eqI) (use a in \<open>auto simp: w' a_def [symmetric] m bit_simps\<close>)
  then show "word_get n w' p = Inr v" using p by (simp add: word_get_def a_def)
  show "word_get n w' q = word_get n w q" if "q \<noteq> p"
  proof (cases "0 \<le> q \<and> q < int n")
    case True
    define b where "b = nat q"
    have b: "b < 4" "b \<noteq> a" using True that p assms(2) by (auto simp: a_def b_def)
    then have far: "b < a \<or> a < b" by linarith
    have "ucast (drop_bit (16 * b) w') = (ucast (drop_bit (16 * b) w) :: u16)"
    proof (rule bit_word_eqI)
      fix n assume "n < LENGTH(16)"
      then have n: "n < 16" by simp
      show "bit (ucast (drop_bit (16 * b) w') :: u16) n = bit (ucast (drop_bit (16 * b) w) :: u16) n"
        using n a b far bit_imp_le_length [of v "16 * b + n - 16 * a"] by (auto simp: w' a_def [symmetric] m bit_simps)
    qed
    then show ?thesis using True by (simp add: word_get_def b_def)
  qed (auto simp: word_get_def)
qed

section \<open>Writing a group of registers and reading it back\<close>

text \<open>The integer a collected or kept value holds, and the word a register of it has.\<close>

definition the_int :: "'h vstore \<Rightarrow> int" where
  "the_int st = (case st of VI i \<Rightarrow> i | _ \<Rightarrow> 0)"

definition eff :: "'h ndata \<Rightarrow> 'h grp \<Rightarrow> nat \<Rightarrow> int" where
  "eff D g k = (case map_of g k of Some v \<Rightarrow> the_int (vval v) | None \<Rightarrow> the_int (fval (mVal (nvals D) ! k)))"

definition content :: "'h ndata \<Rightarrow> 'h grp \<Rightarrow> sio \<Rightarrow> u16 res" where
  "content D g r =
     (if s_tp r = CHR ''i'' then rbind (word_get 4 (word_of_int (eff D g (s_id r))) (s_pos r)) (\<lambda>v. Inr (numEnd r v))
      else Inr (numEnd r (word_of_int (eff D g (s_id r)))))"

text \<open>A register of an integer input, as a part of it or as its low word.\<close>

definition int_slot :: "'h ndata \<Rightarrow> nat \<Rightarrow> bool" where
  "int_slot D k \<longleftrightarrow> k < length (mVal (nvals D)) \<and> tp (mVal (nvals D) ! k) = Integer \<and> (\<exists>i. fval (mVal (nvals D) ! k) = VI i)"

definition int_reg :: "'h ndata \<Rightarrow> sio \<Rightarrow> bool" where
  "int_reg D r \<longleftrightarrow> int_slot D (s_id r) \<and>
     (if s_tp r = CHR ''i'' then 0 \<le> s_pos r \<and> s_pos r < 4 else s_tp r \<notin> {CHR ''f'', CHR ''d'', CHR ''s''})"

text \<open>Two registers that share no part of a value.\<close>

definition apart :: "sio \<Rightarrow> sio \<Rightarrow> bool" where
  "apart r q \<longleftrightarrow> s_id r \<noteq> s_id q \<or> (s_tp r = CHR ''i'' \<and> s_tp q = CHR ''i'' \<and> s_pos r \<noteq> s_pos q)"

definition grp_ok :: "'h ndata \<Rightarrow> 'h grp \<Rightarrow> bool" where
  "grp_ok D g \<longleftrightarrow> sorted_wrt (<) (map fst g) \<and> (\<forall>(k, v) \<in> set g. (\<exists>i. v = vint i) \<and> int_slot D k)"

lemma map_of_grp_put [simp]: "map_of (grp_put k v g) = (map_of g)(k \<mapsto> v)"
  by (induction k v g rule: grp_put.induct) auto

lemma set_grp_put: "set (grp_put k v g) \<subseteq> insert (k, v) (set g)"
  by (induction k v g rule: grp_put.induct) auto

lemma sorted_grp_put: "sorted_wrt (<) (map fst g) \<Longrightarrow> sorted_wrt (<) (map fst (grp_put k v g))"
proof (induction k v g rule: grp_put.induct)
  case (2 k v j w g)
  then show ?case using set_grp_put [of k v g] by auto
qed simp

lemma grp_ok_put: "grp_ok D g \<Longrightarrow> int_slot D k \<Longrightarrow> grp_ok D (grp_put k (vint i) g)"
  using set_grp_put [of k "vint i" g] sorted_grp_put [of g k "vint i"] by (auto simp: grp_ok_def)

lemma the_int_simps [simp]: "the_int (VI i) = i" "vval (vint i) = VI i"
  by (simp_all add: the_int_def vint_def)

lemma int_slot_get: "int_slot D k \<Longrightarrow> vf_at (nvals D) k slot_getI = Inr (the_int (fval (mVal (nvals D) ! k)))"
  by (auto simp: int_slot_def vf_at_def slot_getI_def)

lemma grpI_eff: "grp_ok D g \<Longrightarrow> int_slot D k \<Longrightarrow> grpI E D k g = Inr (eff D g k)"
  by (auto simp: grpI_def eff_def int_slot_get grp_ok_def split: option.splits dest!: map_of_SomeD)

text \<open>Writing the integer of an input.\<close>

lemma int_write:
  assumes "int_slot D k"
  obtains vf where "vf_setI E k i (nvals D) = Inr vf" "length (mVal vf) = length (mVal (nvals D))"
    "\<And>j. int_slot (D\<lparr>nvals := vf\<rparr>) j = int_slot D j"
    "fval (mVal vf ! k) = VI i" "\<And>j. j \<noteq> k \<Longrightarrow> mVal vf ! j = mVal (nvals D) ! j"
proof -
  let ?sl = "mVal (nvals D) ! k"
  from assms obtain p where k: "k < length (mVal (nvals D))" "tp ?sl = Integer" "fval ?sl = VI p" by (auto simp: int_slot_def)
  define sl' where "sl' = (if mMdfChk (nvals D) then ?sl\<lparr>mdf := mdf ?sl \<or> i \<noteq> p, fval := VI i\<rparr> else ?sl\<lparr>fval := VI i\<rparr>)"
  have s: "slot_setI E (mMdfChk (nvals D)) i ?sl = Inr sl'"
    using k by (simp add: slot_setI_def slot_putI_def slot_put_def sl'_def)
  have f: "fval sl' = VI i" "tp sl' = Integer" using k by (simp_all add: sl'_def)
  show thesis
  proof (rule that [of "(nvals D)\<lparr>mVal := (mVal (nvals D))[k := sl']\<rparr>"])
    show "vf_setI E k i (nvals D) = Inr ((nvals D)\<lparr>mVal := (mVal (nvals D))[k := sl']\<rparr>)"
      using k s by (simp add: vf_setI_def vf_upd_def vf_at_def)
    show "int_slot (D\<lparr>nvals := (nvals D)\<lparr>mVal := (mVal (nvals D))[k := sl']\<rparr>\<rparr>) j = int_slot D j" for j
      using k f by (cases "j = k") (auto simp: int_slot_def)
  qed (use k f in simp_all)
qed

definition same :: "'h ndata \<Rightarrow> 'h ndata \<Rightarrow> bool" where
  "same D D' \<longleftrightarrow> regR D' = regR D \<and> regW D' = regW D \<and> int_slot D' = int_slot D"

lemma same_refl [simp]: "same D D"
  by (simp add: same_def)

lemma same_trans: "same A B \<Longrightarrow> same B C \<Longrightarrow> same A C"
  by (simp add: same_def)

lemma same_int_reg: "same D D' \<Longrightarrow> int_reg D' r = int_reg D r" "same D D' \<Longrightarrow> grp_ok D' g = grp_ok D g"
  by (simp_all add: same_def int_reg_def grp_ok_def)

lemma content_eff: "eff D' g' (s_id r) = eff D g (s_id r) \<Longrightarrow> content D' g' r = content D g r"
  by (simp add: content_def)

text \<open>One register of a group takes the word and no register apart from it changes.\<close>

lemma wr_grp_reg_step:
  assumes g: "grp_ok D g" and r: "int_reg D r" and n: "s_tp r \<noteq> CHR ''i'' \<Longrightarrow> map_of g (s_id r) = None"
  obtains D' g' where "wr_grp_reg E r v (D, g) = Inr (D', g')" "same D D'" "grp_ok D' g'"
    "dom (map_of g') \<subseteq> (if s_tp r = CHR ''i'' then insert (s_id r) (dom (map_of g)) else dom (map_of g))"
    "content D' g' r = Inr v" "\<And>q. apart r q \<Longrightarrow> content D' g' q = content D g q"
proof (cases "s_tp r = CHR ''i''")
  case True
  from r True have sl: "int_slot D (s_id r)" and p: "0 \<le> s_pos r" "s_pos r < 4" by (auto simp: int_reg_def)
  obtain w where w: "word_put 4 (word_of_int (eff D g (s_id r))) (s_pos r) (numEnd r v) = Inr w"
    using p by (simp add: word_put_def)
  note wpg = word_put_get [OF w]
  let ?g = "grp_put (s_id r) (vint (sint w)) g"
  have e: "eff D ?g (s_id r) = sint w" "j \<noteq> s_id r \<Longrightarrow> eff D ?g j = eff D g j" for j
    by (simp_all add: eff_def)
  show thesis
  proof (rule that)
    show "wr_grp_reg E r v (D, g) = Inr (D, ?g)"
      using True w by (simp add: wr_grp_reg_def grpI_eff [OF g sl])
    show "grp_ok D ?g" using g sl by (rule grp_ok_put)
    show "content D ?g r = Inr v" using True wpg(1) by (simp add: content_def e)
    fix q assume "apart r q"
    then show "content D ?g q = content D g q"
      using True wpg(2) by (cases "s_id q = s_id r") (auto simp: apart_def content_def e)
  qed (use True in auto)
next
  case False
  from r False have sl: "int_slot D (s_id r)" and tpr: "s_tp r \<notin> {CHR ''i'', CHR ''f'', CHR ''d'', CHR ''s''}" by (auto simp: int_reg_def)
  obtain vf where vf: "vf_setI E (s_id r) (uint (numEnd r v)) (nvals D) = Inr vf" "length (mVal vf) = length (mVal (nvals D))"
    "\<And>j. int_slot (D\<lparr>nvals := vf\<rparr>) j = int_slot D j" "fval (mVal vf ! s_id r) = VI (uint (numEnd r v))"
    "\<And>j. j \<noteq> s_id r \<Longrightarrow> mVal vf ! j = mVal (nvals D) ! j"
    using int_write [OF sl, of E "uint (numEnd r v)"] by blast
  let ?D = "put_out (s_id r) (vint (uint (numEnd r v))) vf D"
  have s: "same D ?D" using vf(3) by (auto simp: same_def put_out_def int_slot_def fun_eq_iff)
  have e: "eff ?D g (s_id r) = uint (numEnd r v)" "j \<noteq> s_id r \<Longrightarrow> eff ?D g j = eff D g j" for j
    using n [OF False] vf(4,5) by (simp_all add: eff_def put_out_def split: option.split)
  show thesis
  proof (rule that)
    show "wr_grp_reg E r v (D, g) = Inr (?D, g)"
      using tpr vf(1) by (simp add: wr_grp_reg_def wr_int_def)
    show "same D ?D" "grp_ok ?D g" using s g by (simp_all add: same_int_reg)
    show "content ?D g r = Inr v" using False by (simp add: content_def e)
    fix q assume "apart r q"
    then show "content ?D g q = content D g q"
      using False by (intro content_eff) (auto simp: apart_def e)
  qed (use False in auto)
qed

definition pdu_word :: "bytes \<Rightarrow> nat \<Rightarrow> u16" where
  "pdu_word pdu k = mem16 (pdu ! (6 + k * 2)) (pdu ! (6 + k * 2 + 1))"

lemma wr_regs_contents:
  assumes "distinct ks" "\<And>k. k \<in> set ks \<Longrightarrow> regW D (a + int k) = Some (R k) \<and> int_reg D (R k)"
    "\<And>j k. j \<in> set ks \<Longrightarrow> k \<in> set ks \<Longrightarrow> j \<noteq> k \<Longrightarrow> apart (R j) (R k)"
    "grp_ok D g" "\<And>k. k \<in> set ks \<Longrightarrow> s_tp (R k) \<noteq> CHR ''i'' \<Longrightarrow> map_of g (s_id (R k)) = None"
  shows "\<exists>D' g'. wr_regs E pdu a ks nw (D, g) = Inr (nw, D', g') \<and> same D D' \<and> grp_ok D' g'
    \<and> (\<forall>k \<in> set ks. content D' g' (R k) = Inr (pdu_word pdu k))
    \<and> (\<forall>q. (\<forall>k \<in> set ks. apart (R k) q) \<longrightarrow> content D' g' q = content D g q)"
  using assms
proof (induction ks arbitrary: D g)
  case (Cons k ks)
  have rk: "regW D (a + int k) = Some (R k)" "int_reg D (R k)" using Cons.prems(2) by auto
  obtain D1 g1 where s1: "wr_grp_reg E (R k) (pdu_word pdu k) (D, g) = Inr (D1, g1)" "same D D1" "grp_ok D1 g1"
    "dom (map_of g1) \<subseteq> (if s_tp (R k) = CHR ''i'' then insert (s_id (R k)) (dom (map_of g)) else dom (map_of g))"
    "content D1 g1 (R k) = Inr (pdu_word pdu k)" "\<And>q. apart (R k) q \<Longrightarrow> content D1 g1 q = content D g q"
    using wr_grp_reg_step [OF Cons.prems(4) rk(2), of E "pdu_word pdu k"] Cons.prems(5) [of k] by (metis list.set_intros(1))
  define D2 where "D2 = D1\<lparr>wReg := wReg D1 + 1\<rparr>"
  have s2: "same D1 D2" by (simp add: same_def D2_def int_slot_def fun_eq_iff)
  have c2: "content D2 h q = content D1 h q" for h q by (rule content_eff) (simp add: D2_def eff_def split: option.split)
  have sm: "same D D2" using s1(2) s2 by (rule same_trans)
  have no: "map_of g1 (s_id (R j)) = None" if j: "j \<in> set ks" "s_tp (R j) \<noteq> CHR ''i''" for j
  proof -
    have "apart (R k) (R j)" using Cons.prems(1,3) j(1) by auto
    then have "s_id (R j) \<noteq> s_id (R k)" using j(2) by (auto simp: apart_def)
    moreover have "map_of g (s_id (R j)) = None" using Cons.prems(5) j by simp
    ultimately show ?thesis using s1(4) by (auto split: if_splits simp: domIff)
  qed
  have "\<exists>D' g'. wr_regs E pdu a ks nw (D2, g1) = Inr (nw, D', g') \<and> same D2 D' \<and> grp_ok D' g'
    \<and> (\<forall>k \<in> set ks. content D' g' (R k) = Inr (pdu_word pdu k))
    \<and> (\<forall>q. (\<forall>k \<in> set ks. apart (R k) q) \<longrightarrow> content D' g' q = content D2 g1 q)"
  proof (rule Cons.IH)
    show "regW D2 (a + int j) = Some (R j) \<and> int_reg D2 (R j)" if "j \<in> set ks" for j
      using Cons.prems(2) [of j] that sm by (auto simp: same_int_reg) (simp add: same_def)
    show "grp_ok D2 g1" using s1(3) s2 by (simp add: same_int_reg)
  qed (use Cons.prems(1,3) no in auto)
  then obtain D' g' where r: "wr_regs E pdu a ks nw (D2, g1) = Inr (nw, D', g')" "same D2 D'" "grp_ok D' g'"
    "\<forall>k \<in> set ks. content D' g' (R k) = Inr (pdu_word pdu k)"
    "\<forall>q. (\<forall>k \<in> set ks. apart (R k) q) \<longrightarrow> content D' g' q = content D2 g1 q" by blast
  have "\<forall>j \<in> set ks. apart (R j) (R k)" using Cons.prems(1,3) by auto
  then have "content D' g' (R k) = Inr (pdu_word pdu k)" using r(5) s1(5) by (simp add: c2)
  moreover have "wr_regs E pdu a (k # ks) nw (D, g) = Inr (nw, D', g')"
    using rk(1) s1(1) r(1) by (simp add: pdu_word_def D2_def)
  ultimately show ?case using r(2-5) sm s1(6) c2 by (intro exI [of _ D'] exI [of _ g']) (auto intro: same_trans)
qed auto

text \<open>Writing the collected values leaves in the inputs what was collected.\<close>

lemma wr_grp_eff:
  "grp_ok D g \<Longrightarrow> \<exists>D'. wr_grp E g D = Inr D' \<and> same D D' \<and> (\<forall>k. eff D' [] k = eff D g k)"
proof (induction g arbitrary: D)
  case (Cons a g)
  from Cons.prems obtain k i where a: "a = (k, vint i)" "int_slot D k" by (cases a) (auto simp: grp_ok_def)
  have nk: "map_of g k = None" using Cons.prems a(1) by (force simp: grp_ok_def map_of_eq_None_iff)
  obtain vf where vf: "vf_setI E k i (nvals D) = Inr vf" "length (mVal vf) = length (mVal (nvals D))"
    "\<And>j. int_slot (D\<lparr>nvals := vf\<rparr>) j = int_slot D j" "fval (mVal vf ! k) = VI i"
    "\<And>j. j \<noteq> k \<Longrightarrow> mVal vf ! j = mVal (nvals D) ! j"
    using int_write [OF a(2), of E i] by blast
  let ?D = "put_out k (vint i) vf D"
  have s: "same D ?D" using vf(3) by (auto simp: same_def put_out_def int_slot_def fun_eq_iff)
  have "grp_ok ?D g" using Cons.prems s by (simp add: same_int_reg) (auto simp: grp_ok_def)
  from Cons.IH [OF this] obtain D' where D': "wr_grp E g ?D = Inr D'" "same ?D D'" "\<forall>j. eff D' [] j = eff ?D g j" by blast
  have v: "vf_set E k (vint i) (nvals D) = Inr vf" using a(2) vf(1) by (auto simp: vf_set_def vf_at_def int_slot_def)
  have "eff ?D g j = eff D (a # g) j" for j
    using nk vf(4,5) by (cases "j = k") (simp_all add: eff_def a(1) put_out_def split: option.split)
  then show ?case using D' s v by (auto simp: a(1) intro: same_trans)
qed simp

text \<open>Reading the registers gives what they hold.\<close>

definition cached :: "'h ndata \<Rightarrow> 'h grp \<Rightarrow> bool" where
  "cached D g \<longleftrightarrow> (\<forall>k v. map_of g k = Some v \<longrightarrow> v = vint (eff D [] k))"

lemma rd_reg_content:
  assumes "cached D g" "int_reg D r" "content D [] r = Inr v"
  obtains g' where "rd_reg E D r g = Inr (v, g')" "cached D g'"
proof (cases "s_tp r = CHR ''i''")
  case True
  from assms(2) have sl: "int_slot D (s_id r)" by (simp add: int_reg_def)
  have "grpI E D (s_id r) g = Inr (eff D [] (s_id r))"
  proof (cases "map_of g (s_id r)")
    case None then show ?thesis by (simp add: grpI_def int_slot_get [OF sl] eff_def)
  next
    case (Some v)
    then have "v = vint (eff D [] (s_id r))" using assms(1) unfolding cached_def by blast
    with Some show ?thesis by (simp add: grpI_def)
  qed
  moreover from assms(3) True obtain w where "word_get 4 (word_of_int (eff D [] (s_id r))) (s_pos r) = Inr w" "v = numEnd r w"
    by (auto simp: content_def rbind_Inr)
  ultimately have r: "rd_reg E D r g = Inr (v, grp_keep (s_id r) (vint (eff D [] (s_id r))) g)"
    using True by (simp add: rd_reg_def Let_def)
  have "cached D (grp_keep (s_id r) (vint (eff D [] (s_id r))) g)"
    using assms(1) by (auto simp: cached_def grp_keep_def split: option.split if_splits)
  with r show thesis by (rule that)
next
  case False
  from assms(2) False have sl: "int_slot D (s_id r)" "s_tp r \<notin> {CHR ''i'', CHR ''f'', CHR ''d'', CHR ''s''}"
    by (auto simp: int_reg_def)
  have "rd_reg E D r g = Inr (v, g)"
    using sl(2) assms(3) False by (simp add: rd_reg_def int_slot_get [OF sl(1)] content_def eff_def)
  then show thesis using assms(1) by (rule that)
qed

lemma rd_regs_contents:
  assumes "cached D g" "\<And>k. k \<in> set ks \<Longrightarrow> b (a + int k) = Some (R k) \<and> int_reg D (R k) \<and> content D [] (R k) = Inr (w k)"
  shows "rd_regs E D b (map (\<lambda>k. a + int k) ks) (p, d, g) = Inr (p @ concat (map (\<lambda>k. mem_bytes (w k)) ks), d \<or> ks \<noteq> [])"
  using assms
proof (induction ks arbitrary: p d g)
  case (Cons k ks)
  have k: "b (a + int k) = Some (R k)" "int_reg D (R k)" "content D [] (R k) = Inr (w k)" using Cons.prems(2) by auto
  obtain g' where g': "rd_reg E D (R k) g = Inr (w k, g')" "cached D g'"
    using rd_reg_content [OF Cons.prems(1) k(2,3), of E] by blast
  have "rd_regs E D b (map (\<lambda>k. a + int k) ks) (p @ mem_bytes (w k), True, g') =
    Inr ((p @ mem_bytes (w k)) @ concat (map (\<lambda>k. mem_bytes (w k)) ks), True \<or> ks \<noteq> [])"
    by (rule Cons.IH [OF g'(2)]) (use Cons.prems(2) in auto)
  then show ?case using k(1) g'(1) by simp
qed simp

text \<open>The registers of a range are readable and writable parts of integer inputs, no two of them the same part.\<close>

definition int_range :: "'h ndata \<Rightarrow> int \<Rightarrow> nat \<Rightarrow> bool" where
  "int_range D a n \<longleftrightarrow> (\<forall>k < n. \<exists>r. regW D (a + int k) = Some r \<and> regR D (a + int k) = Some r \<and> int_reg D r
      \<and> (\<forall>j < n. j \<noteq> k \<longrightarrow> (\<exists>q. regW D (a + int j) = Some q \<and> apart r q)))"

lemma concat_pairs: "length dat = 2 * n \<Longrightarrow> concat (map (\<lambda>k. [dat ! (k * 2), dat ! (k * 2 + 1)]) [0..<n]) = dat"
proof (induction n arbitrary: dat)
  case (Suc n)
  from Suc.prems obtain x y d where d: "dat = x # y # d" "length d = 2 * n"
    by (cases dat; cases "tl dat") auto
  have "map (\<lambda>k. [dat ! (k * 2), dat ! (k * 2 + 1)]) [0..<Suc n] = [x, y] # map (\<lambda>k. [d ! (k * 2), d ! (k * 2 + 1)]) [0..<n]"
    unfolding upt_conv_Cons [OF zero_less_Suc] map_Suc_upt [symmetric] using d(1) by simp
  with Suc.IH [OF d(2)] d(1) show ?case by simp
qed simp

text \<open>The answer to the reading of a range of registers.\<close>

lemma read_range:
  assumes "be16 ch cl = int n" "1 \<le> n" "n \<le> 125"
    "\<And>k. k < n \<Longrightarrow> regR D (be16 ah al + int k) = Some (R k) \<and> int_reg D (R k) \<and> content D [] (R k) = Inr (w k)"
  shows "data_req E [0x03, ah, al, ch, cl] D =
    Inr ([3, word_of_int (int n * 2)] @ concat (map (\<lambda>k. mem_bytes (w k)) [0..<n]), D\<lparr>rReg := rReg D + int n\<rparr>)"
proof -
  define a where "a = be16 ah al"
  have "rd_regs E D (regR D) (map (\<lambda>k. a + int k) [0..<n]) ([3, word_of_int (int n * 2)], False, []) =
    Inr ([3, word_of_int (int n * 2)] @ concat (map (\<lambda>k. mem_bytes (w k)) [0..<n]), False \<or> [0..<n] \<noteq> [])"
    by (rule rd_regs_contents) (use assms(4) in \<open>auto simp: a_def cached_def\<close>)
  moreover have "[a .. a + int n - 1] = map (\<lambda>k. a + int k) [0..<n]"
    by (rule nth_equalityI) auto
  ultimately show ?thesis
    using assms(1-3) by (simp add: data_req_def fc_regs_def pdu_count_def a_def [symmetric])
qed

text \<open>Writing a range of registers leaves in them what was written.\<close>

lemma write_range:
  assumes "length dat = 2 * n" "unat bc = 2 * n" "be16 ch cl = int n" "n \<le> 123" "int_range D (be16 ah al) n"
    "\<And>k. k < n \<Longrightarrow> regW D (be16 ah al + int k) = Some (R k)"
  shows "\<exists>D'. data_req E ([0x10, ah, al, ch, cl, bc] @ dat) D = Inr ([0x10, ah, al, ch, cl], D') \<and> same D D'
    \<and> (\<forall>k < n. content D' [] (R k) = Inr (mem16 (dat ! (k * 2)) (dat ! (k * 2 + 1))))"
proof -
  define a where "a = be16 ah al"
  let ?pdu = "[0x10, ah, al, ch, cl, bc] @ dat"
  have R: "regW D (a + int k) = Some (R k)" "int_reg D (R k)" if "k < n" for k
    using assms(5,6) that by (auto simp: int_range_def a_def [symmetric])
  have ap: "apart (R j) (R k)" if "j < n" "k < n" "j \<noteq> k" for j k
    using assms(5) that R by (fastforce simp: int_range_def a_def [symmetric])
  have "\<exists>D1 g1. wr_regs E ?pdu a [0..<n] False (D, []) = Inr (False, D1, g1) \<and> same D D1 \<and> grp_ok D1 g1
    \<and> (\<forall>k \<in> set [0..<n]. content D1 g1 (R k) = Inr (pdu_word ?pdu k))
    \<and> (\<forall>q. (\<forall>k \<in> set [0..<n]. apart (R k) q) \<longrightarrow> content D1 g1 q = content D [] q)"
    by (rule wr_regs_contents) (auto simp: R ap grp_ok_def)
  then obtain D1 g1 where w: "wr_regs E ?pdu a [0..<n] False (D, []) = Inr (False, D1, g1)" "same D D1" "grp_ok D1 g1"
    "\<And>k. k < n \<Longrightarrow> content D1 g1 (R k) = Inr (pdu_word ?pdu k)" by auto
  obtain D2 where D2: "wr_grp E g1 D1 = Inr D2" "same D1 D2" "\<And>k. eff D2 [] k = eff D1 g1 k"
    using wr_grp_eff [OF w(3), of E] by blast
  have "data_req E ?pdu D = Inr ([0x10, ah, al, ch, cl], D2)"
    using assms(1-4) w(1) D2(1) by (simp add: data_req_def fc_regs_wr_def a_def)
  moreover have "content D2 [] (R k) = Inr (mem16 (dat ! (k * 2)) (dat ! (k * 2 + 1)))" if "k < n" for k
    using w(4) [OF that] content_eff [of D2 "[]" "R k" D1 g1] D2(3) by (simp add: pdu_word_def nth_append)
  ultimately show ?thesis using same_trans [OF w(2) D2(2)] by blast
qed

text \<open>C33. What a client writes to a range of registers it reads back: when the registers are readable and
  writable parts of integer inputs, no two of them the same part, the writing request (function 16) is
  answered with its own head, and the reading request (function 3) of the range then gives the written
  bytes, however the registers are spread over the inputs.\<close>

theorem regs_write_read:
  assumes "length dat = 2 * n" "unat bc = 2 * n" "be16 ch cl = int n" "1 \<le> n" "n \<le> 123" "int_range D (be16 ah al) n"
  shows "\<exists>D' D''. data_req E ([0x10, ah, al, ch, cl, bc] @ dat) D = Inr ([0x10, ah, al, ch, cl], D')
    \<and> data_req E [0x03, ah, al, ch, cl] D' = Inr ([0x03, bc] @ dat, D'')"
proof -
  define R where "R k = the (regW D (be16 ah al + int k))" for k
  have R: "regW D (be16 ah al + int k) = Some (R k)" "regR D (be16 ah al + int k) = Some (R k)" "int_reg D (R k)" if "k < n" for k
    using assms(6) that by (auto simp: int_range_def R_def)
  obtain D' where w: "data_req E ([0x10, ah, al, ch, cl, bc] @ dat) D = Inr ([0x10, ah, al, ch, cl], D')" "same D D'"
    "\<And>k. k < n \<Longrightarrow> content D' [] (R k) = Inr (mem16 (dat ! (k * 2)) (dat ! (k * 2 + 1)))"
    using write_range [OF assms(1-3,5,6) R(1)] by blast
  have q: "regR D' (be16 ah al + int k) = Some (R k) \<and> int_reg D' (R k)" if "k < n" for k
    using R [OF that] w(2) by (simp add: same_int_reg) (simp add: same_def)
  have "data_req E [0x03, ah, al, ch, cl] D' = Inr ([3, word_of_int (int n * 2)] @
      concat (map (\<lambda>k. mem_bytes (mem16 (dat ! (k * 2)) (dat ! (k * 2 + 1)))) [0..<n]), D'\<lparr>rReg := rReg D' + int n\<rparr>)"
    by (rule read_range [where R = R]) (use assms(3-5) q w(3) in simp_all)
  moreover have "word_of_int (int n * 2) = bc"
  proof -
    have "int n * 2 = int (unat bc)" using assms(2) by simp
    then have "word_of_int (int n * 2) = (word_of_int (int (unat bc)) :: u8)" by (simp only:)
    then show ?thesis by simp
  qed
  ultimately show ?thesis using w(1) concat_pairs [OF assms(1)] by simp
qed

definition wit_node :: "nat ndata" where
  "wit_node =
     (let r = (\<lambda>p. \<lparr>s_id = 0, s_tp = CHR ''i'', s_pos = p, s_endian = False\<rparr>);
          b = (\<lambda>k. if k = 10 then Some (r 0) else if k = 11 then Some (r 1) else None)
      in (ndata_new \<lparr>mVal = [\<lparr>tp = Integer, mdf = False, fval = VI 7\<rparr>], mMdfChk = False\<rparr>)\<lparr>regR := b, regW := b\<rparr>)"

lemma regs_write_read_witness:
  "\<exists>D' D''. data_req wit_env [0x10, 0, 10, 0, 2, 4, 0x12, 0x34, 0x56, 0x78] wit_node = Inr ([0x10, 0, 10, 0, 2], D')
    \<and> data_req wit_env [0x03, 0, 10, 0, 2] D' = Inr ([0x03, 4, 0x12, 0x34, 0x56, 0x78], D'')"
proof -
  have r: "int_range wit_node 10 2"
    by (simp add: int_range_def wit_node_def Let_def ndata_new_def int_reg_def int_slot_def apart_def less_2_cases_iff)
  show ?thesis
    using regs_write_read [of "[0x12, 0x34, 0x56, 0x78]" 2 4 0 2 wit_node 0 10 wit_env] r
    by (simp add: be16_def)
qed

section \<open>The answers\<close>



lemma exceptional: "p = except c pdu \<Longrightarrow> c \<in> {1, 2, 3} \<Longrightarrow> \<exists>c \<in> {1, 2, 3}. p = except c pdu"
  by blast

definition answers :: "bytes \<Rightarrow> bytes \<Rightarrow> bool" where
  "answers pdu p \<longleftrightarrow> (\<exists>c \<in> {1, 2, 3}. p = except c pdu) \<or> (p \<noteq> [] \<and> p ! 0 = pdu ! 0 \<and> length p \<le> 252)"

lemma answers_except [simp]: "answers pdu (except 1 pdu)" "answers pdu (except 2 pdu)" "answers pdu (except 3 pdu)"
  by (auto simp: answers_def)






text \<open>More than 1016 coils in one reading: the count of bytes does not fit the signed \<open>char\<close>.\<close>

lemma coils_length_error:
  assumes "1016 < be16 ch cl" "be16 ch cl \<le> 2000"
  shows "data_req E [0x01, ah, al, ch, cl] D = Inl LengthError"
proof -
  have "128 \<le> nat (be16 ch cl div 8 + (if be16 ch cl mod 8 \<noteq> 0 then 1 else 0))"
  proof -
    define x where "x = be16 ch cl"
    have "128 \<le> x div 8 + (if x mod 8 \<noteq> 0 then 1 else 0)" using assms(1) unfolding x_def [symmetric] by presburger
    then show ?thesis unfolding x_def [symmetric] by linarith
  qed
  then show ?thesis using assms by (simp add: data_req_def fc_coils_def pdu_count_def Let_def)
qed




text \<open>The device behind a gateway set \<open>err\<close>: the answer is its text, not the exception.\<close>

lemma gateway_error_lost: "gate nod pdu = Some (True, tx) \<Longrightarrow> gate_req gate nod pdu = tx"
  by (simp add: gate_req_def)

text \<open>Nine coils with one byte: the request is taken and the ninth coil is cleared.\<close>

lemma coils_wr_missing_byte:
  "\<exists>D'. data_req wit_env [0x0F, 0, 0, 0, 9, 1, 0xFF]
      ((ndata_new \<lparr>mVal = [\<lparr>tp = Boolean, mdf = False, fval = VB 1\<rparr>], mMdfChk = False\<rparr>)
        \<lparr>coilW := (\<lambda>k. if k = 8 then Some \<lparr>s_id = 0, s_tp = nul, s_pos = 0, s_endian = False\<rparr> else None)\<rparr>) = Inr ([0x8F, 2], D')
    \<and> fval (mVal (nvals D') ! 0) = VB 0"
  by (simp add: data_req_def fc_coils_wr_def be16_def Let_def ndata_new_def except_def upt_rec pdu_at_def vf_setB_def
      vf_upd_def vf_at_def slot_setB_def slot_putB_def slot_put_def b2i_def put_out_def slot_getB_def)

text \<open>A failed writing of a coil is counted.\<close>

lemma write_counts_failures:
  "coilW D (be16 ah al) = None \<Longrightarrow> data_req E [0x05, ah, al, x, y] D = Inr ([0x85, 2], D\<lparr>wCoil := wCoil D + 1\<rparr>)"
  by (simp add: data_req_def fc_coil_wr_def except_def Let_def)

end
