(* ===== verification/Modbus_Prt.thy ===== *)
theory Modbus_Prt
  imports Modbus_Regs Xml
begin

text \<open>
  The frames of the ModBus protocol in both directions
  (\<^verbatim>\<open>src/src/moduls/daq/ModBus/modbus_prt.cpp\<close>): the output requests \<open>TProt::outMess\<close> in the
  forms TCP, RTU and ASCII with the waiting for the tail and the repetitions, the input of frames
  \<open>TProtIn::mess\<close> with the choice of the form and the processing by the nodes, and the buffer of
  the log.

  An output transport is a parameter: \<open>t_start\<close> starts it when it is not started, and
  \<open>t_io\<close> sends a request (or nothing) with a time-out and gives the bytes of one reading, no more than the
  1000 bytes of the buffer; either can throw (\<open>Inl\<close> with the text).  \<open>setTimings\<close> is not modelled.
  The translation of texts is the identity.  The records of the log are not modelled but their buffer.
\<close>

section \<open>The buffer of the log\<close>

text \<open>Taking records from the back to a length; a negative one empties the container and goes on.\<close>

definition pop_to :: "int \<Rightarrow> string list \<Rightarrow> string list res" where
  "pop_to n xs = (if n < 0 then Inl UndefRead else Inr (take (nat n) xs))"

definition setPrtLen :: "int \<Rightarrow> string list \<times> int \<Rightarrow> (string list \<times> int) res" where
  "setPrtLen vl p = rbind (pop_to vl (fst p)) (\<lambda>xs. Inr (xs, vl))"

definition pushPrtMess :: "string \<Rightarrow> string list \<times> int \<Rightarrow> (string list \<times> int) res" where
  "pushPrtMess vl p = (if snd p = 0 then Inr p else rbind (pop_to (snd p) (vl # fst p)) (\<lambda>xs. Inr (xs, snd p)))"

section \<open>Output requests\<close>

record 's trout =
  t_start :: "'s \<Rightarrow> (string + unit) \<times> 's"
  t_io :: "int \<Rightarrow> bytes option \<Rightarrow> 's \<Rightarrow> (string + bytes) \<times> 's"

abbreviation (input) MODBUS_FRM_LIM :: nat where "MODBUS_FRM_LIM \<equiv> 1000"

definition Tr_ErrResponse :: string where
  "Tr_ErrResponse = i2s 13 Dec @ '':''"

definition Tr_ErrDevice :: string where
  "Tr_ErrDevice = i2s 14 Dec @ '':''"

definition be_bytes :: "u16 \<Rightarrow> bytes" where
  "be_bytes v = [ucast (drop_bit 8 v), ucast v]"

definition tcp_frame :: "bytes \<Rightarrow> u8 \<Rightarrow> bytes \<Rightarrow> bytes" where
  "tcp_frame head4 node pdu = head4 @ be_bytes (word_of_nat (length pdu + 1)) @ [node] @ pdu"

definition rtu_frame :: "u8 \<Rightarrow> bytes \<Rightarrow> bytes" where
  "rtu_frame node pdu = (let m = node # pdu in m @ be_bytes (CRC16 m))"

definition crlf :: bytes where
  "crlf = [0x0D, 0x0A]"

definition ascii_frame :: "u8 \<Rightarrow> bytes \<Rightarrow> bytes" where
  "ascii_frame node pdu = (let m = node # pdu in [0x3A] @ DataToASCII (m @ [LRC m]) @ crlf)"

text \<open>
  Waiting for the tail of a response: until nothing comes, the limit, the end of the frame, or an
  error, which only ends the waiting.
\<close>

function wait_tail :: "'s trout \<Rightarrow> (bytes \<Rightarrow> bool) \<Rightarrow> bytes \<Rightarrow> nat \<Rightarrow> 's \<Rightarrow> bytes \<times> 's" where
  "wait_tail tr fin rez resp_len s =
     (if resp_len \<noteq> 0 \<and> length rez < MODBUS_FRM_LIM \<and> \<not> fin rez
      then (case t_io tr 0 None s of
              (Inl er, s') \<Rightarrow> (rez, s')
            | (Inr buf, s') \<Rightarrow> wait_tail tr fin (rez @ buf) (length buf) s')
      else (rez, s))"
  by pat_completeness auto

termination
  by (relation "measure (\<lambda>(tr, fin, rez, resp_len, s). if resp_len = 0 then 0 else Suc (MODBUS_FRM_LIM - length rez))")
    (auto intro!: diff_less_mono2)

declare wait_tail.simps [simp del]

text \<open>The known ends of RTU responses.\<close>

definition rtu_fin :: "bytes \<Rightarrow> bool" where
  "rtu_fin rez \<longleftrightarrow> length rez \<ge> 3 \<and>
     ((rez ! 1 AND 0x80 \<noteq> 0 \<and> length rez \<ge> 2 + 3) \<or>
      (1 \<le> rez ! 1 \<and> rez ! 1 \<le> 4 \<and> length rez \<ge> unat (rez ! 2) + 2 + 3) \<or>
      ((rez ! 1 = 5 \<or> rez ! 1 = 6 \<or> rez ! 1 = 15 \<or> rez ! 1 = 16) \<and> length rez \<ge> 5 + 3))"

definition ends_crlf :: "bytes \<Rightarrow> bool" where
  "ends_crlf rez \<longleftrightarrow> drop (length rez - 2) rez = crlf"

definition ascii_fin :: "bytes \<Rightarrow> bool" where
  "ascii_fin rez \<longleftrightarrow> length rez \<ge> 3 \<and> ends_crlf rez"

text \<open>The text of \<open>std::string::find\<close> for the repeated errors.\<close>

definition has_sub :: "string \<Rightarrow> string \<Rightarrow> bool" where
  "has_sub s t \<longleftrightarrow> sfind s t 0 \<noteq> None"

text \<open>One attempt: the error so far goes in, an error or the PDU comes out.  The length of the PDU of a response of
  two bytes wraps to \<open>npos\<close>, which takes the rest.\<close>

definition rtu_try :: "'s trout \<Rightarrow> int \<Rightarrow> bytes \<Rightarrow> string \<Rightarrow> 's \<Rightarrow> (string + bytes) \<times> 's" where
  "rtu_try tr reqTm mbap err s =
     (case t_io tr reqTm (Some mbap) s of
        (Inl er, s1) \<Rightarrow> (Inl (if err = [] then Tr_ErrDevice @ ''Device error: '' @ er
                              else if \<not> has_sub err er then err @ ''; '' @ er else err), s1)
      | (Inr buf, s1) \<Rightarrow>
          case wait_tail tr rtu_fin buf (length buf) s1 of (rez, s2) \<Rightarrow>
            (if length rez < 2 then Inl (Tr_ErrResponse @ ''Error of the response: Too short.'')
             else if length rez \<ge> MODBUS_FRM_LIM then Inl (Tr_ErrResponse @ ''Error of the response: Too large.'')
             else if \<not> rtu_crc_ok rez then Inl (Tr_ErrResponse @ ''Error of the response: CRC error.'')
             else Inr (if length rez = 2 then drop 1 rez else take (length rez - 3) (drop 1 rez)), s2))"

text \<open>
  \<open>rezEnc[rezEnc.size()-1]\<close> of an empty text is undefined.  The test of the repeated errors is the
  other way round than for RTU.
\<close>

definition ascii_try :: "'s trout \<Rightarrow> int \<Rightarrow> bytes \<Rightarrow> string \<Rightarrow> 's \<Rightarrow> ((string + bytes) \<times> 's) res" where
  "ascii_try tr reqTm mbap err s =
     (case t_io tr reqTm (Some mbap) s of
        (Inl er, s1) \<Rightarrow> Inr (Inl (if err = [] then Tr_ErrDevice @ ''Device error: '' @ er
                              else if has_sub err er then err @ ''; '' @ er else err), s1)
      | (Inr buf, s1) \<Rightarrow>
          case wait_tail tr ascii_fin buf (length buf) s1 of (rez, s2) \<Rightarrow>
            if length rez \<ge> MODBUS_FRM_LIM then Inr (Inl (Tr_ErrResponse @ ''Error of the response: Too large.''), s2)
            else if length rez < 3 \<or> rez ! 0 \<noteq> 0x3A \<or> \<not> ends_crlf rez
            then Inr (Inl (Tr_ErrResponse @ ''Error of the response: Format error.''), s2)
            else let rezEnc = ASCIIToData (take (length rez - 3) (drop 1 rez))
                 in if rezEnc = [] then Inl UndefRead
                    else if LRC (butlast rezEnc) \<noteq> last rezEnc
                    then Inr (Inl (Tr_ErrResponse @ ''Error of the response: LRC error.''), s2)
                    else Inr (Inr (butlast (drop 1 rezEnc)), s2))"

fun rtu_tries :: "nat \<Rightarrow> 's trout \<Rightarrow> int \<Rightarrow> bytes \<Rightarrow> bytes \<Rightarrow> string \<Rightarrow> 's \<Rightarrow> (string \<times> bytes) \<times> 's" where
  "rtu_tries 0 tr reqTm mbap pdu err s = ((err, pdu), s)"
| "rtu_tries (Suc n) tr reqTm mbap pdu err s =
     (case rtu_try tr reqTm mbap err s of
        (Inl err', s') \<Rightarrow> rtu_tries n tr reqTm mbap pdu err' s'
      | (Inr p, s') \<Rightarrow> (([], p), s'))"

fun ascii_tries :: "nat \<Rightarrow> 's trout \<Rightarrow> int \<Rightarrow> bytes \<Rightarrow> bytes \<Rightarrow> string \<Rightarrow> 's \<Rightarrow> ((string \<times> bytes) \<times> 's) res" where
  "ascii_tries 0 tr reqTm mbap pdu err s = Inr ((err, pdu), s)"
| "ascii_tries (Suc n) tr reqTm mbap pdu err s =
     rbind (ascii_try tr reqTm mbap err s) (\<lambda>r.
       case r of (Inl err', s') \<Rightarrow> ascii_tries n tr reqTm mbap pdu err' s'
               | (Inr p, s') \<Rightarrow> Inr (([], p), s'))"

text \<open>
  The tail of a TCP response, of the length of its head; a failed or empty reading is thrown (the
  text on the left).
\<close>

function tcp_tail :: "'s trout \<Rightarrow> int \<Rightarrow> nat \<Rightarrow> bytes \<Rightarrow> 's \<Rightarrow> (string + bytes) \<times> 's" where
  "tcp_tail tr reqTm sz rez s =
     (if length rez < sz \<and> length rez < MODBUS_FRM_LIM
      then (case t_io tr reqTm None s of
              (Inl er, s') \<Rightarrow> (Inl er, s')
            | (Inr buf, s') \<Rightarrow> if buf = [] then (Inl ''Not full response'', s') else tcp_tail tr reqTm sz (rez @ buf) s')
      else (Inr rez, s))"
  by pat_completeness auto

termination
  by (relation "measure (\<lambda>(tr, reqTm, sz, rez, s). MODBUS_FRM_LIM - length rez)") (auto simp: neq_Nil_conv)

declare tcp_tail.simps [simp del]

text \<open>A TCP exchange: a thrown error on the left, the error text and the PDU on the right.\<close>

definition tcp_io :: "'s trout \<Rightarrow> int \<Rightarrow> u16 \<Rightarrow> u8 \<Rightarrow> bytes \<Rightarrow> 's \<Rightarrow> (string + string \<times> bytes) \<times> 's" where
  "tcp_io tr reqTm tid node pdu s =
     (case t_io tr reqTm (Some (tcp_frame (mem_bytes tid @ [0, 0]) node pdu)) s of
        (Inl er, s1) \<Rightarrow> (Inl er, s1)
      | (Inr rez, s1) \<Rightarrow>
          if length rez < 7 then (Inr (Tr_ErrResponse @ ''Error of the server response'', pdu), s1)
          else if mem16 (rez ! 0) (rez ! 1) \<noteq> tid then
            (Inr (Tr_ErrResponse @ ''The response Transaction ID '' @ i2s (uint (mem16 (rez ! 0) (rez ! 1))) Dec @
                  '' is not suitable to the request one '' @ i2s (uint tid) Dec @ ''.'', pdu), s1)
          else case tcp_tail tr reqTm (nat (be16 (rez ! 4) (rez ! 5)) + 6) rez s1 of
                 (Inl er, s2) \<Rightarrow> (Inl er, s2)
               | (Inr rez2, s2) \<Rightarrow>
                   if length rez2 \<ge> MODBUS_FRM_LIM then (Inl (Tr_ErrResponse @ ''Error of the response: Too large.''), s2)
                   else (Inr ([], drop 7 rez2), s2))"

text \<open>The errors a response PDU tells; \<open>pdu[1]\<close> of a PDU of one byte is its zero end.\<close>

definition pdu_err :: "bytes \<Rightarrow> string" where
  "pdu_err pdu =
     (let err = (if length pdu < 2 then Tr_ErrResponse @ ''Error of the response'' else []); c = pdu_at pdu 1
      in if pdu_at pdu 0 AND 0x80 = 0 then err
         else if c = 0x1 then ''1:'' @ print_02X (chr (pdu_at pdu 0 AND 0x7F)) @ '':Function is not supported.''
         else if c = 0x2 then ''2:Request address is not allowed or the query range is too large.''
         else if c = 0x3 then ''3:Illegal value of the data in the request.''
         else if c = 0x4 then ''4:Server failure.''
         else if c = 0x5 then ''5:Request requires too long time for execute.''
         else if c = 0x6 then ''6:Server is busy.''
         else if c = 0x7 then ''7:Error in program function. Requested by the function 13 or 14.''
         else if c = 0xA \<or> c = 0xB then ''10:Gateway problem.''
         else ''12:'' @ print_02X (chr c) @ '':Unknown error.'')"

text \<open>The exchange in the form of the name of the request: a thrown error, or the error text and the PDU.\<close>

definition prt_io :: "'s trout \<Rightarrow> u16 \<Rightarrow> string \<Rightarrow> int \<Rightarrow> int \<Rightarrow> int \<Rightarrow> bytes \<Rightarrow> 's \<Rightarrow> ((string + string \<times> bytes) \<times> 's) res" where
  "prt_io tr tid prt reqTm node reqTry pdu s =
     (let nd = word_of_int node :: u8
      in if prt = ''TCP'' then Inr (tcp_io tr reqTm tid nd pdu s)
         else if prt = ''RTU'' then
           (case rtu_tries (nat reqTry) tr reqTm (rtu_frame nd pdu) pdu [] s of (r, s') \<Rightarrow> Inr (Inr r, s'))
         else if prt = ''ASCII'' then
           rbind (ascii_tries (nat reqTry) tr reqTm (ascii_frame nd pdu) pdu [] s) (\<lambda>(r, s'). Inr (Inr r, s'))
         else Inr (Inr (''Error of the protocol '' @ [CHR 0x27] @ prt @ [CHR 0x27] @ ''.'', pdu), s))"

definition out_result :: "xnode \<Rightarrow> string \<Rightarrow> bytes \<Rightarrow> xnode" where
  "out_result io err pdu =
     (let io1 = setText io (if err = [] then map chr pdu else []) False
      in if err \<noteq> [] then setAttr io1 ''err'' err else io1)"

definition outMess :: "'s trout \<Rightarrow> u16 \<Rightarrow> xnode \<Rightarrow> 's \<Rightarrow> (xnode \<times> 's) res" where
  "outMess tr tid io s =
     (let prt = xname io; reqTm = s2i (attr io ''reqTm''); node = s2i (attr io ''node'');
          reqTry = min 10 (max 1 (s2i (attr io ''reqTry''))); pdu = map byte (xtext io);
          dev = (\<lambda>er. Tr_ErrDevice @ ''Device error: '' @ er)
      in case t_start tr s of
           (Inl er, s1) \<Rightarrow> Inr (out_result io (dev er) pdu, s1)
         | (Inr _, s1) \<Rightarrow>
             rbind (prt_io tr tid prt reqTm node reqTry pdu s1) (\<lambda>(r, s2).
               case r of
                 Inl er \<Rightarrow> Inr (out_result io (dev er) pdu, s2)
               | Inr (err, pdu') \<Rightarrow> Inr (out_result io (if err = [] then pdu_err pdu' else err) pdu', s2)))"

section \<open>Input frames\<close>

datatype frame = FAscii u8 bytes | FRtu u8 bytes | FTcp u8 bytes | FBad | FNone

text \<open>The test of the form and the taking of a frame; \<open>serial\<close> tells a serial input transport.\<close>

definition is_ascii :: "bytes \<Rightarrow> bool" where
  "is_ascii r \<longleftrightarrow> length r > 3 \<and> r ! 0 = 0x3A \<and> ends_crlf r"

definition is_rtu :: "bytes \<Rightarrow> bool" where
  "is_rtu r \<longleftrightarrow> length r > 3 \<and> length r \<le> 256 \<and> rtu_crc_ok r"

definition is_tcp :: "bytes \<Rightarrow> bool" where
  "is_tcp r \<longleftrightarrow> length r > 7 \<and> length r \<le> 260 \<and> int (length r) = be16 (r ! 4) (r ! 5) + 6"

definition take_frame :: "bool \<Rightarrow> bytes \<Rightarrow> frame res" where
  "take_frame serial r =
     (if is_ascii r then
        let req = ASCIIToData (take (length r - 3) (drop 1 r))
        in if req = [] then Inl UndefRead
           else if LRC (butlast req) \<noteq> last req then Inr FBad
           else Inr (FAscii (hd req) (butlast (drop 1 req)))
      else if is_rtu r \<and> (\<not> is_tcp r \<or> serial) then Inr (FRtu (r ! 0) (take (length r - 3) (drop 1 r)))
      else if is_tcp r then Inr (FTcp (r ! 6) (drop 7 r))
      else Inr FNone)"

text \<open>The first node that takes the request processes it.\<close>

fun nodes_req :: "'h venv \<Rightarrow> (string \<Rightarrow> bytes \<Rightarrow> (bool \<times> bytes) option) \<Rightarrow> string \<Rightarrow> string \<Rightarrow> u8 \<Rightarrow> bytes \<Rightarrow> 'h node list
    \<Rightarrow> (bytes option \<times> 'h node list) res" where
  "nodes_req E gate itr prt node pdu [] = Inr (None, [])"
| "nodes_req E gate itr prt node pdu (n # ns) =
     rbind (node_req E gate itr prt node pdu n) (\<lambda>(done, p, n').
       if done then Inr (Some p, n' # ns)
       else rbind (nodes_req E gate itr prt node pdu ns) (\<lambda>(r, ns'). Inr (r, n' # ns')))"

record 'h prt_in =
  req_buf :: bytes
  in_nodes :: "'h node list"

text \<open>The result is whether more bytes are waited for, and the answer.\<close>

definition in_answer :: "string \<Rightarrow> bytes \<Rightarrow> u8 \<Rightarrow> bytes \<Rightarrow> bytes" where
  "in_answer prt reqst node pdu =
     (if prt = ''TCP'' then tcp_frame (take 4 reqst) node pdu
      else if prt = ''RTU'' then rtu_frame node pdu
      else if prt = ''ASCII'' then ascii_frame node pdu else [])"

definition in_serve :: "'h venv \<Rightarrow> (string \<Rightarrow> bytes \<Rightarrow> (bool \<times> bytes) option) \<Rightarrow> string \<Rightarrow> string \<Rightarrow> bytes \<Rightarrow> u8 \<Rightarrow> bytes
    \<Rightarrow> bytes \<Rightarrow> 'h prt_in \<Rightarrow> (bool \<times> bytes \<times> 'h prt_in) res" where
  "in_serve E gate itr prt reqst node pdu answer st0 =
     (let st = st0\<lparr>req_buf := []\<rparr>
      in rbind (nodes_req E gate itr prt node pdu (in_nodes st)) (\<lambda>(r, ns).
           case r of
             None \<Rightarrow> Inr (False, answer, st\<lparr>in_nodes := ns\<rparr>)
           | Some p \<Rightarrow> Inr (False, in_answer prt reqst node p, st\<lparr>in_nodes := ns\<rparr>)))"

definition in_mess :: "'h venv \<Rightarrow> (string \<Rightarrow> bytes \<Rightarrow> (bool \<times> bytes) option) \<Rightarrow> string \<Rightarrow> bool \<Rightarrow> bytes \<Rightarrow> bytes
    \<Rightarrow> 'h prt_in \<Rightarrow> (bool \<times> bytes \<times> 'h prt_in) res" where
  "in_mess E gate itr serial ireqst answer st =
     rbind (take_frame serial ireqst) (\<lambda>f1.
       let reqst = (if f1 = FNone \<and> req_buf st \<noteq> [] then req_buf st @ ireqst else ireqst)
       in rbind (if f1 = FNone \<and> req_buf st \<noteq> [] then take_frame serial reqst else Inr f1) (\<lambda>f.
         case f of
           FBad \<Rightarrow> Inr (False, answer, st)
         | FNone \<Rightarrow> Inr (True, answer, st\<lparr>req_buf := (if length reqst > 2048 then [] else reqst)\<rparr>)
         | FAscii node pdu \<Rightarrow> in_serve E gate itr ''ASCII'' reqst node pdu answer st
         | FRtu node pdu \<Rightarrow> in_serve E gate itr ''RTU'' reqst node pdu answer st
         | FTcp node pdu \<Rightarrow> in_serve E gate itr ''TCP'' reqst node pdu answer st))"

end
