(* ===== verification/Modbus_Exchange.thy ===== *)
theory Modbus_Exchange
  imports Modbus_Prt
begin

text \<open>
  A ModBus client and server together (\<open>Modbus_Prt\<close>): the frames of the three forms are taken as what
  they are, an exchange over a transport gives the client the answer of the node, and two frames that are
  taken wrongly.
\<close>

section \<open>The frames are taken as what they are\<close>

lemma be_bytes_join: "push_bit 8 (ucast (ucast (drop_bit 8 v) :: u8)) + ucast (ucast v :: u8) = (v :: u16)"
proof -
  have "push_bit 8 (ucast (ucast (drop_bit 8 v) :: u8)) + ucast (ucast v :: u8)
      = (push_bit 8 (ucast (ucast (drop_bit 8 v) :: u8)) OR ucast (ucast v :: u8) :: u16)"
    by (rule disjunctive_add) (auto simp: bit_simps)
  also have "\<dots> = v" by (rule bit_word_eqI) (auto simp: bit_simps dest: bit_imp_le_length)
  finally show ?thesis .
qed

lemma be16_join: "be16 h l = uint (push_bit 8 (ucast h) OR ucast l :: u16)"
proof -
  have "uint (push_bit 8 (ucast h) OR ucast l :: u16) = uint (push_bit 8 (ucast h) + ucast l :: u16)"
    by (rule arg_cong [where f = uint], rule sym, rule disjunctive_add) (auto simp: bit_simps)
  also have "\<dots> = (uint h * 256 + uint l) mod 65536"
    by (simp add: push_bit_eq_mult uint_word_ariths uint_up_ucast is_up mult.commute mod_add_left_eq)
  also have "\<dots> = be16 h l"
    using uint_lt2p [of h] uint_lt2p [of l] by (simp add: be16_def)
  finally show ?thesis by simp
qed

lemma be16_bytes: "be16 (ucast (drop_bit 8 (v::u16))) (ucast v) = uint v"
proof -
  have "push_bit 8 (ucast (ucast (drop_bit 8 v) :: u8)) OR ucast (ucast v :: u8) = (v :: u16)"
    by (rule bit_word_eqI) (auto simp: bit_simps dest: bit_imp_le_length)
  then show ?thesis by (simp only: be16_join)
qed

lemma be16_length: "n < 65536 \<Longrightarrow> be16 (ucast (drop_bit 8 (word_of_nat n :: u16))) (ucast (word_of_nat n :: u16)) = int n"
  by (simp add: be16_bytes uint_nat unat_of_nat)

lemma rtu_frame_ok: "rtu_crc_ok (rtu_frame nd p)" "take (length (rtu_frame nd p) - 3) (drop 1 (rtu_frame nd p)) = p"
  "length (rtu_frame nd p) = length p + 3" "rtu_frame nd p ! 0 = nd"
proof -
  show "rtu_crc_ok (rtu_frame nd p)"
    by (simp add: rtu_crc_ok_def rtu_frame_def Let_def be_bytes_def nth_append be_bytes_join)
qed (simp_all add: rtu_frame_def Let_def be_bytes_def)

lemma tcp_frame_ok:
  assumes "length h = 4" "length p < 65535"
  shows "length (tcp_frame h nd p) = length p + 7" "drop 7 (tcp_frame h nd p) = p" "tcp_frame h nd p ! 6 = nd"
    "be16 (tcp_frame h nd p ! 4) (tcp_frame h nd p ! 5) = int (length p) + 1" "take 4 (tcp_frame h nd p) = h"
  using assms be16_length [of "length p + 1"] by (simp_all add: tcp_frame_def be_bytes_def nth_append)

lemma ascii_frame_ok:
  fixes nd :: u8 and p :: bytes
  defines "f \<equiv> ascii_frame nd p"
  shows "length f = 2 * length p + 7" "f ! 0 = 0x3A" "ends_crlf f"
    "ASCIIToData (take (length f - 3) (drop 1 f)) = nd # p @ [LRC (nd # p)]"
proof -
  have f: "f = 0x3A # DataToASCII (nd # p @ [LRC (nd # p)]) @ crlf" by (simp add: f_def ascii_frame_def Let_def)
  have c: "length crlf = 2" by (simp add: crlf_def)
  show l: "length f = 2 * length p + 7" unfolding f by (simp add: c del: DataToASCII.simps)
  show "f ! 0 = 0x3A" unfolding f by simp
  show "ends_crlf f" unfolding ends_crlf_def f by (simp add: c del: DataToASCII.simps)
  have "take (length f - 3) (drop 1 f) = DataToASCII (nd # p @ [LRC (nd # p)])"
    unfolding l unfolding f by (simp del: DataToASCII.simps)
  then show "ASCIIToData (take (length f - 3) (drop 1 f)) = nd # p @ [LRC (nd # p)]" by (simp only: hex_roundtrip)
qed

text \<open>The request in the form of the name, and the conditions to tell it from the other forms.\<close>

definition out_frame :: "string \<Rightarrow> u16 \<Rightarrow> u8 \<Rightarrow> bytes \<Rightarrow> bytes" where
  "out_frame prt tid nd pdu =
     (if prt = ''TCP'' then tcp_frame (mem_bytes tid @ [0, 0]) nd pdu
      else if prt = ''RTU'' then rtu_frame nd pdu else ascii_frame nd pdu)"

definition own_form :: "bool \<Rightarrow> string \<Rightarrow> bytes \<Rightarrow> bool" where
  "own_form serial prt f \<longleftrightarrow>
     (prt = ''TCP'' \<and> \<not> serial \<and> \<not> is_ascii f) \<or>
     (prt = ''RTU'' \<and> (serial \<or> \<not> is_tcp f) \<and> \<not> is_ascii f) \<or> prt = ''ASCII''"

definition frame_of :: "string \<Rightarrow> u8 \<Rightarrow> bytes \<Rightarrow> frame" where
  "frame_of prt nd pdu = (if prt = ''TCP'' then FTcp nd pdu else if prt = ''RTU'' then FRtu nd pdu else FAscii nd pdu)"

lemma take_own:
  assumes "own_form serial prt (out_frame prt tid nd pdu)" "1 \<le> length pdu" "length pdu \<le> 253"
  shows "take_frame serial (out_frame prt tid nd pdu) = Inr (frame_of prt nd pdu)"
proof -
  let ?h = "mem_bytes tid @ [0, 0]"
  have h: "length ?h = 4" by (simp add: mem_bytes_def)
  have l: "length pdu < 65535" using assms(3) by simp
  note T = tcp_frame_ok [OF h l, of nd]
  consider "prt = ''TCP''" | "prt = ''RTU''" | "prt = ''ASCII''" using assms(1) by (auto simp: own_form_def)
  then show ?thesis
  proof cases
    case 1
    have "is_tcp (tcp_frame ?h nd pdu)" using T(1,4) assms(2,3) by (auto simp: is_tcp_def)
    with 1 assms(1) T(2,3) show ?thesis by (simp add: take_frame_def out_frame_def own_form_def frame_of_def)
  next
    case 2
    have "is_rtu (rtu_frame nd pdu)" using rtu_frame_ok(1,3) [of nd pdu] assms(2,3) by (auto simp: is_rtu_def)
    with 2 assms(1) rtu_frame_ok(2,4) [of nd pdu] show ?thesis
      by (auto simp: take_frame_def out_frame_def own_form_def frame_of_def)
  next
    case 3
    have "is_ascii (ascii_frame nd pdu)" using ascii_frame_ok(1-3) [of nd pdu] by (simp add: is_ascii_def)
    with 3 ascii_frame_ok(4) [of nd pdu] show ?thesis
      by (simp add: take_frame_def out_frame_def frame_of_def Let_def butlast_append)
  qed
qed

section \<open>A client and a server\<close>

text \<open>An output transport connected to the input protocol of a server.\<close>

definition link :: "'h venv \<Rightarrow> (string \<Rightarrow> bytes \<Rightarrow> (bool \<times> bytes) option) \<Rightarrow> string \<Rightarrow> bool \<Rightarrow> 'h prt_in trout" where
  "link E gate itr serial =
     \<lparr>t_start = (\<lambda>s. (Inr (), s)),
      t_io = (\<lambda>tm r s. case r of
          None \<Rightarrow> (Inr [], s)
        | Some q \<Rightarrow> (case in_mess E gate itr serial q [] s of
                       Inl e \<Rightarrow> (Inl ''No response'', s) | Inr (waits, a, s') \<Rightarrow> (Inr a, s')))\<rparr>"

lemma server_answer:
  assumes "own_form serial prt (out_frame prt tid nd pdu)" "1 \<le> length pdu" "length pdu \<le> 253"
    "nodes_req E gate itr prt nd pdu (in_nodes st) = Inr (Some p, ns)"
  shows "t_io (link E gate itr serial) tm (Some (out_frame prt tid nd pdu)) st =
    (Inr (out_frame prt tid nd p), \<lparr>req_buf = [], in_nodes = ns\<rparr>)"
proof -
  have "take 4 (tcp_frame (mem_bytes tid @ [0, 0]) nd pdu) = mem_bytes tid @ [0, 0]"
    by (simp add: tcp_frame_def mem_bytes_def)
  note k = this
  have "in_mess E gate itr serial (out_frame prt tid nd pdu) [] st =
      Inr (False, out_frame prt tid nd p, \<lparr>req_buf = [], in_nodes = ns\<rparr>)"
  proof -
    consider "prt = ''TCP''" | "prt = ''RTU''" | "prt = ''ASCII''" using assms(1) by (auto simp: own_form_def)
    then show ?thesis
      using take_own [OF assms(1-3)] assms(4) k
      by cases (simp_all add: in_mess_def frame_of_def in_serve_def in_answer_def out_frame_def)
  qed
  then show ?thesis by (simp add: link_def)
qed

lemma link_none: "t_io (link E gate itr serial) tm None st = (Inr [], st)"
  by (simp add: link_def)

text \<open>Waiting for more on the link ends with the response as it is.\<close>

lemma link_wait: "wait_tail (link E gate itr serial) fin rez n st = (rez, st)"
  by (subst wait_tail.simps) (simp add: link_none wait_tail.simps)

lemma response_pdu: "pdu_err p = [] \<longleftrightarrow> 2 \<le> length p \<and> p ! 0 AND 0x80 = 0"
  by (auto simp: pdu_err_def pdu_at_def Let_def)

lemma client_gets:
  assumes "own_form serial prt (out_frame prt tid (word_of_int node) pdu)" "1 \<le> length pdu" "length pdu \<le> 253"
    "nodes_req E gate itr prt (word_of_int node) pdu (in_nodes st) = Inr (Some p, ns)" "length p \<le> 253" "1 \<le> reqTry"
  shows "prt_io (link E gate itr serial) tid prt reqTm node reqTry pdu st = Inr (Inr ([], p), \<lparr>req_buf = [], in_nodes = ns\<rparr>)"
proof -
  let ?nd = "word_of_int node :: u8" and ?h = "mem_bytes tid @ [0, 0]"
  obtain n where n: "nat reqTry = Suc n" using assms(6) by (cases "nat reqTry") auto
  note S = server_answer [OF assms(1-4), of reqTm]
  have h: "length ?h = 4" by (simp add: mem_bytes_def)
  have l: "length p < 65535" using assms(5) by simp
  note T = tcp_frame_ok [OF h l, of ?nd]
  consider "prt = ''TCP''" | "prt = ''RTU''" | "prt = ''ASCII''" using assms(1) by (auto simp: own_form_def)
  then show ?thesis
  proof cases
    case 1
    have t: "mem16 (tcp_frame ?h ?nd p ! 0) (tcp_frame ?h ?nd p ! 1) = tid"
      by (simp add: tcp_frame_def mem_bytes_def mem16_def) (rule bit_word_eqI, auto simp: bit_simps dest: bit_imp_le_length)
    have w: "tcp_tail (link E gate itr serial) reqTm (nat (int (length p) + 1) + 6) (tcp_frame ?h ?nd p) s = (Inr (tcp_frame ?h ?nd p), s)" for s
    proof -
      have "nat (int (length p) + 1) + 6 = length (tcp_frame ?h ?nd p)" using T(1) by simp
      then show ?thesis by (simp add: tcp_tail.simps)
    qed
    from 1 S t w T assms(5) show ?thesis
      by (simp add: prt_io_def out_frame_def tcp_io_def Let_def)
  next
    case 2
    note R = rtu_frame_ok [of ?nd p]
    have "rtu_try (link E gate itr serial) reqTm (rtu_frame ?nd pdu) [] st = (Inr p, \<lparr>req_buf = [], in_nodes = ns\<rparr>)"
      using 2 S R assms(5) by (simp add: rtu_try_def out_frame_def link_wait del: drop_Suc)
    with 2 n show ?thesis by (simp add: prt_io_def)
  next
    case 3
    note A = ascii_frame_ok [of ?nd p]
    have "ascii_try (link E gate itr serial) reqTm (ascii_frame ?nd pdu) [] st = Inr (Inr p, \<lparr>req_buf = [], in_nodes = ns\<rparr>)"
      using 3 S A assms(5) by (simp add: ascii_try_def out_frame_def link_wait Let_def butlast_append)
    with 3 n show ?thesis by (simp add: prt_io_def)
  qed
qed

text \<open>What the client makes of an answer: its text, or the text of the error for an exception or too short an answer.\<close>

definition client_result :: "xnode \<Rightarrow> bytes \<Rightarrow> xnode" where
  "client_result io p =
     (if 2 \<le> length p \<and> p ! 0 AND 0x80 = 0 then setText io (map chr p) False
      else setAttr (setText io [] False) ''err'' (pdu_err p))"

lemma exchange_ok:
  defines "pdu \<equiv> \<lambda>io. map byte (xtext io)" and "node \<equiv> \<lambda>io. s2i (attr io ''node'')"
  assumes "own_form serial (xname io) (out_frame (xname io) tid (word_of_int (node io)) (pdu io))"
    "1 \<le> length (xtext io)" "length (xtext io) \<le> 253"
    "nodes_req E gate itr (xname io) (word_of_int (node io)) (pdu io) (in_nodes st) = Inr (Some p, ns)"
    "length p \<le> 253"
  shows "outMess (link E gate itr serial) tid io st = Inr (client_result io p, \<lparr>req_buf = [], in_nodes = ns\<rparr>)"
proof -
  have "prt_io (link E gate itr serial) tid (xname io) (s2i (attr io ''reqTm'')) (node io)
      (min 10 (max 1 (s2i (attr io ''reqTry'')))) (pdu io) st = Inr (Inr ([], p), \<lparr>req_buf = [], in_nodes = ns\<rparr>)"
    by (rule client_gets) (use assms(3-7) in \<open>simp_all add: pdu_def\<close>)
  moreover have "t_start (link E gate itr serial) st = (Inr (), st)" by (simp add: link_def)
  ultimately show ?thesis
    using response_pdu [of p] by (auto simp: outMess_def Let_def pdu_def node_def out_result_def client_result_def)
qed

text \<open>C35. A request a client sends over a transport to a server is processed by the first node of the server
  that takes it, and its answer is what the client gets: for the forms TCP, RTU and ASCII, for every PDU of up
  to 253 bytes whose frame does not look like one of the other forms.  An answer is the text of the result; an
  exception, or an answer of one byte or none, empties it and its error is told in the attribute \<open>err\<close>, which is
  not empty.\<close>

theorem modbus_exchange:
  defines "pdu \<equiv> \<lambda>io. map byte (xtext io)" and "node \<equiv> \<lambda>io. s2i (attr io ''node'')"
  assumes "own_form serial (xname io) (out_frame (xname io) tid (word_of_int (node io)) (pdu io))"
    "1 \<le> length (xtext io)" "length (xtext io) \<le> 253"
    "nodes_req E gate itr (xname io) (word_of_int (node io)) (pdu io) (in_nodes st) = Inr (Some p, ns)"
    "length p \<le> 253"
  shows "outMess (link E gate itr serial) tid io st = Inr (
      if 2 \<le> length p \<and> p ! 0 AND 0x80 = 0 then setText io (map chr p) False
      else setAttr (setText io [] False) ''err'' (pdu_err p), \<lparr>req_buf = [], in_nodes = ns\<rparr>)
    \<and> (pdu_err p = [] \<longleftrightarrow> 2 \<le> length p \<and> p ! 0 AND 0x80 = 0)"
  using exchange_ok [OF assms(3-7) [unfolded pdu_def node_def]] response_pdu [of p] unfolding client_result_def by blast

definition wit_server :: "nat prt_in" where
  "wit_server = \<lparr>req_buf = [], in_nodes = [\<lparr>mEn = True, cfgInTR = ''*'', cfgADDR = 1, cfgPRT = ''*'', cfgMODE = 0, cfgTO_ADDR = [],
     cntReq = 0, ndat = wit_node\<rparr>]\<rparr>"

definition wit_io :: xnode where
  "wit_io = XNode ''TCP'' (map chr [0x03, 0, 10, 0, 1]) [(''node'', ''1'')] []"

lemma modbus_exchange_witness:
  "\<exists>st. outMess (link wit_env (\<lambda>_ _. None) ''Sockets.in'' False) 7 wit_io wit_server =
     Inr (setText wit_io (map chr [0x03, 2, 0, 7]) False, st)"
proof -
  have nd: "s2i (attr wit_io ''node'') = 1" by code_simp
  have pdu: "map byte (xtext wit_io) = [0x03, 0, 10, 0, 1]" "xname wit_io = ''TCP''" "length (xtext wit_io) = 5"
    by (simp_all add: wit_io_def)
  have w: "drop_bit 0 (7::u64) = 7" "(ucast (7::u64) :: u16) = 7" by simp_all
  have sw: "swap16 7 = 0x0700" by (simp add: swap16_def)
  have r: "\<exists>ns. nodes_req wit_env (\<lambda>_ _. None) ''Sockets.in'' ''TCP'' 1 [0x03, 0, 10, 0, 1] (in_nodes wit_server) =
      Inr (Some [0x03, 2, 0, 7], ns)"
    by (simp add: wit_server_def node_req_def node_takes_def data_req_def fc_regs_def pdu_count_def be16_def Let_def
        wit_node_def ndata_new_def rd_reg_def grpI_def vf_at_def slot_getI_def word_get_def numEnd_def i16_BE_def sw mem_bytes_def)
  then obtain ns where ns: "nodes_req wit_env (\<lambda>_ _. None) ''Sockets.in'' ''TCP'' 1 [0x03, 0, 10, 0, 1] (in_nodes wit_server) =
      Inr (Some [0x03, 2, 0, 7], ns)" by blast
  have a: "\<not> is_ascii (tcp_frame (mem_bytes 7 @ [0, 0]) 1 [0x03, 0, 10, 0, 1])"
    by (simp add: is_ascii_def tcp_frame_def mem_bytes_def)
  show ?thesis
    using modbus_exchange [of False wit_io 7 wit_env "\<lambda>_ _. None" "''Sockets.in''" wit_server "[0x03, 2, 0, 7]" ns] ns nd pdu a
    by (auto simp: own_form_def out_frame_def)
qed

text \<open>Two faults: an ASCII frame without data, and a TCP request taken for an ASCII one.\<close>

lemma ascii_empty_fault: "take_frame serial [0x3A, x, 0x0D, 0x0A] = Inl UndefRead"
  by (simp add: take_frame_def is_ascii_def ends_crlf_def crlf_def numeral_eq_Suc)

lemma tcp_as_ascii:
  "take_frame False (tcp_frame (mem_bytes 0x003A @ [0, 0]) 1 [0x06, 0, 10, 0x0D, 0x0A]) = Inr (FAscii 0 [0, 0])"
  by code_simp

text \<open>An RTU request for two registers over a transport that is not serial is always taken for a TCP frame.\<close>

lemma rtu_two_as_tcp:
  "take_frame False (rtu_frame nd [fc, ah, al, 0, 2]) = Inr (FTcp (drop 6 (rtu_frame nd [fc, ah, al, 0, 2]) ! 0) (drop 7 (rtu_frame nd [fc, ah, al, 0, 2])))
   \<or> is_ascii (rtu_frame nd [fc, ah, al, 0, 2])"
proof -
  note R = rtu_frame_ok(1,3) [of nd "[fc, ah, al, 0, 2]"]
  have "rtu_frame nd [fc, ah, al, 0, 2] ! 4 = 0" "rtu_frame nd [fc, ah, al, 0, 2] ! 5 = 2"
    by (simp_all add: rtu_frame_def Let_def)
  then have "is_tcp (rtu_frame nd [fc, ah, al, 0, 2])" using R(2) by (simp add: is_tcp_def be16_def)
  then show ?thesis by (simp add: take_frame_def R(2))
qed

end
