(* ===== verification/Modbus_Daq.thy ===== *)
theory Modbus_Daq
  imports Modbus_Prt Cpp_Map
begin

text \<open>
  The controller of the ModBus data source (\<^verbatim>\<open>src/src/moduls/daq/ModBus/modbus_daq.cpp\<close>, class
  \<open>TMdContr\<close>): the blocks of acquisition and their registering, the cycle of requests of \<open>Task\<close>, the
  reading and writing of values by their addresses, and the queue of asynchronous writings.

  A request is passed to \<open>outMess\<close> (\<open>Modbus_Prt\<close>) with the state of its transport; the transaction
  identifier is given for each state.  The conversion of the charset of texts is a parameter.  An alarm is
  kept in a list.  \<open>tmDelay\<close>, a \<open>float\<close>, takes whole numbers in the operations here.  The processing of the
  parameters (\<open>upValStd\<close>, \<open>upValLog\<close>), the redundancy and the waiting of the task are not modelled.
\<close>

section \<open>The blocks of acquisition\<close>

record dblk =
  off :: int
  bval :: bytes
  berr :: string

definition new_blk :: "int \<Rightarrow> nat \<Rightarrow> dblk" where
  "new_blk ioff v_rez = \<lparr>off = ioff, bval = replicate v_rez 0, berr = ''11:No value received.''\<rparr>"

definition bsize :: "dblk \<Rightarrow> int" where
  "bsize b = int (length (bval b))"

definition bend :: "dblk \<Rightarrow> int" where
  "bend b = off b + bsize b"

text \<open>
  The loop of \<open>regVal\<close> over the blocks: \<open>a\<close> is the first byte of the register (of \<open>u = 2\<close> bytes) or
  the coil (\<open>u = 1\<close>), \<open>L\<close> the limit of a block, \<open>sep\<close> is given for registers only.
\<close>

definition reg_before :: "bool \<Rightarrow> int \<Rightarrow> nat \<Rightarrow> int \<Rightarrow> dblk \<Rightarrow> dblk list" where
  "reg_before mrg L u a b =
     (if (mrg \<or> a + int u \<ge> off b) \<and> to_i32 (bsize b + off b - a) < L
      then [b\<lparr>off := a, bval := replicate (nat (off b - a)) 0 @ bval b\<rparr>]
      else [new_blk a u, b])"

text \<open>Enlarging a block to the register, and taking the next block in when they meet.\<close>

definition reg_extend :: "bool \<Rightarrow> nat \<Rightarrow> int \<Rightarrow> dblk \<Rightarrow> dblk list \<Rightarrow> dblk list res" where
  "reg_extend mrg u a b bs =
     (let b' = b\<lparr>bval := bval b @ replicate (nat (a + int u - bend b)) 0\<rparr>
      in case bs of
           [] \<Rightarrow> Inr [b']
         | n # bs' \<Rightarrow>
             if \<not> mrg \<and> bend b' \<ge> off n then
               (let p = bend b' - off n
                in if p > bsize n then Inl OutOfRange
                   else Inr (b'\<lparr>bval := bval b' @ drop (nat p) (bval n)\<rparr> # bs'))
             else Inr (b' # bs))"

fun reg_blk :: "bool \<Rightarrow> int \<Rightarrow> bool \<Rightarrow> nat \<Rightarrow> int \<Rightarrow> dblk list \<Rightarrow> dblk list res" where
  "reg_blk mrg L sep u a [] = Inr [new_blk a u]"
| "reg_blk mrg L sep u a (b # bs) =
     (if a < off b then Inr (reg_before mrg L u a b @ bs)
      else if a + int u > bend b then
        (if \<not> sep \<and> (mrg \<or> a \<le> bend b) \<and> a + int u - off b < L then reg_extend mrg u a b bs
         else rbind (reg_blk mrg L sep u a bs) (\<lambda>r. Inr (b # r)))
      else Inr (b # bs))"

section \<open>The controller\<close>

record 's mdcontr =
  mNode :: int
  blkMaxSz :: int
  mPrt :: string
  mMerge :: bool
  mMltWr :: bool
  mAsynchWr :: bool
  mOmitRdCyclForWr :: int
  mReqTm :: int
  restTm :: int
  connTry :: int
  mdDebugCat :: string
  mdId :: string
  endrunReq :: bool
  alSt :: int
  acqBlks :: "dblk list"
  acqBlksIn :: "dblk list"
  acqBlksCoil :: "dblk list"
  acqBlksCoilIn :: "dblk list"
  asynchWrs :: "(string \<times> string) list"
  omitRdCycl :: "(string \<times> int) list"
  tmDelay :: int
  numRReg :: u32
  numRRegIn :: u32
  numRCoil :: u32
  numRCoilIn :: u32
  numWReg :: u32
  numWCoil :: u32
  numErrCon :: u32
  numErrResp :: u32
  alarms :: "(string \<times> int) list"
  trst :: 's

record 's mdenv =
  md_tr :: "'s trout"
  md_tid :: "'s \<Rightarrow> u16"
  codeConvIn :: "string \<Rightarrow> string \<Rightarrow> string"
  codeConvOut :: "string \<Rightarrow> string \<Rightarrow> string"
  devConfigured :: bool

definition regVal :: "int \<Rightarrow> string \<Rightarrow> bool \<Rightarrow> 's mdcontr \<Rightarrow> 's mdcontr res" where
  "regVal reg dt separate C =
     (if reg < 0 then Inr C
      else if dt = ''R'' \<or> dt = ''RI'' then
        (if reg * 2 + 2 > 2147483647 then Inl Overflow
         else if dt = ''RI'' then
           rbind (reg_blk (mMerge C) (blkMaxSz C) separate 2 (reg * 2) (acqBlksIn C)) (\<lambda>r. Inr (C\<lparr>acqBlksIn := r\<rparr>))
         else rbind (reg_blk (mMerge C) (blkMaxSz C) separate 2 (reg * 2) (acqBlks C)) (\<lambda>r. Inr (C\<lparr>acqBlks := r\<rparr>)))
      else if dt = ''C'' \<or> dt = ''CI'' then
        (if reg + 1 > 2147483647 then Inl Overflow
         else if dt = ''CI'' then
           rbind (reg_blk (mMerge C) (blkMaxSz C * 8) False 1 reg (acqBlksCoilIn C)) (\<lambda>r. Inr (C\<lparr>acqBlksCoilIn := r\<rparr>))
         else rbind (reg_blk (mMerge C) (blkMaxSz C * 8) False 1 reg (acqBlksCoil C)) (\<lambda>r. Inr (C\<lparr>acqBlksCoil := r\<rparr>)))
      else Inr C)"

section \<open>Requests\<close>

text \<open>The result is the error text; without an error the PDU becomes that of the response.\<close>

definition modBusReq :: "'s mdenv \<Rightarrow> bytes \<Rightarrow> 's mdcontr \<Rightarrow> (string \<times> bytes \<times> 's mdcontr) res" where
  "modBusReq M pdu C =
     (let req = setText (setAttr (setAttr (setAttr (setAttr (setAttr (new_node (mPrt C))
                  ''id'' (mdId C)) ''reqTm'' (i2s (mReqTm C) Dec)) ''node'' (i2s (mNode C) Dec))
                  ''reqTry'' (i2s (connTry C) Dec)) ''debugCat'' (mdDebugCat C)) (map chr pdu) False
      in rbind (outMess (md_tr M) (md_tid M (trst C)) req (trst C)) (\<lambda>(rq, s).
           let C' = C\<lparr>trst := s\<rparr>; err = attr rq ''err''
           in if err \<noteq> [] then
                Inr (err, pdu, if s2i err = 14 then C'\<lparr>numErrCon := numErrCon C' + 1\<rparr> else C'\<lparr>numErrResp := numErrResp C' + 1\<rparr>)
              else Inr ([], map byte (xtext rq), C')))"

definition setCntrDelay :: "'s mdenv \<Rightarrow> string \<Rightarrow> 's mdcontr \<Rightarrow> 's mdcontr" where
  "setCntrDelay M err C =
     (let alLev = (if endrunReq C \<or> \<not> devConfigured M then 3 else - 5)
      in C\<lparr>alSt := (if alSt C \<le> 0 then 1 else alSt C),
           alarms := alarms C @ [(''Connection to the data source: '' @ map (\<lambda>c. if c = CHR '':'' then CHR ''='' else c) err @ ''.'', alLev)],
           tmDelay := restTm C\<rparr>)"

text \<open>The head of a request: the function, an address and a count.\<close>

definition req_head :: "u8 \<Rightarrow> int \<Rightarrow> int \<Rightarrow> bytes" where
  "req_head fc a n = [fc] @ be_bytes (word_of_int a) @ be_bytes (word_of_int n)"

text \<open>Filling a block of coils or of registers from the response.\<close>

definition fill_coils :: "bytes \<Rightarrow> dblk \<Rightarrow> dblk option" where
  "fill_coils pdu b =
     (let n = length (bval b)
      in if n div 8 + (if n mod 8 \<noteq> 0 then 1 else 0) \<noteq> length pdu - 2 then None
         else Some (b\<lparr>bval := map (\<lambda>i. if bit (pdu ! (2 + i div 8)) (i mod 8) then 1 else 0) [0..<n]\<rparr>))"

definition fill_regs :: "bytes \<Rightarrow> dblk \<Rightarrow> dblk option" where
  "fill_regs pdu b = (if length (bval b) \<noteq> length pdu - 2 then None else Some (b\<lparr>bval := drop 2 pdu\<rparr>))"

text \<open>
  One kind of blocks: \<open>u\<close> bytes of a block are one item, \<open>cnt\<close> counts the items read.  A device error
  delays the controller and ends the loop.
\<close>

fun acq_blks :: "'s mdenv \<Rightarrow> u8 \<Rightarrow> int \<Rightarrow> (bytes \<Rightarrow> dblk \<Rightarrow> dblk option) \<Rightarrow> (u32 \<Rightarrow> 's mdcontr \<Rightarrow> 's mdcontr)
    \<Rightarrow> dblk list \<Rightarrow> 's mdcontr \<Rightarrow> (dblk list \<times> 's mdcontr) res" where
  "acq_blks M fc u fill cnt [] C = Inr ([], C)"
| "acq_blks M fc u fill cnt (b # bs) C =
     (if endrunReq C then Inr (b # bs, C)
      else rbind (modBusReq M (req_head fc (tdiv (off b) u) (bsize b div u)) C) (\<lambda>(err, pdu, C1).
        if err = [] then
          (case fill pdu (b\<lparr>berr := []\<rparr>) of
             None \<Rightarrow> rbind (acq_blks M fc u fill cnt bs C1) (\<lambda>(bs', C2).
                       Inr (b\<lparr>berr := ''15:Error in size of response PDU.''\<rparr> # bs', C2))
           | Some b' \<Rightarrow> rbind (acq_blks M fc u fill cnt bs (cnt (word_of_int (bsize b div u)) C1)) (\<lambda>(bs', C2).
                       Inr (b' # bs', C2)))
        else if s2i err = 14 then Inr (b\<lparr>berr := err\<rparr> # bs, setCntrDelay M err C1)
        else rbind (acq_blks M fc u fill cnt bs C1) (\<lambda>(bs', C2). Inr (b\<lparr>berr := err\<rparr> # bs', C2))))"

text \<open>The cycle of requests of the task, when the controller is not delayed, started or stopped.\<close>

definition acq_cycle :: "'s mdenv \<Rightarrow> 's mdcontr \<Rightarrow> 's mdcontr res" where
  "acq_cycle M C0 =
     (if tmDelay C0 > 0 then Inr C0
      else rbind (acq_blks M 1 1 fill_coils (\<lambda>n C. C\<lparr>numRCoil := numRCoil C + n\<rparr>) (acqBlksCoil C0) C0) (\<lambda>(b1, C1'). let C1 = C1'\<lparr>acqBlksCoil := b1\<rparr> in
      if tmDelay C1 > 0 then Inr C1
      else rbind (acq_blks M 2 1 fill_coils (\<lambda>n C. C\<lparr>numRCoilIn := numRCoilIn C + n\<rparr>) (acqBlksCoilIn C1) C1) (\<lambda>(b2, C2'). let C2 = C2'\<lparr>acqBlksCoilIn := b2\<rparr> in
      if tmDelay C2 > 0 then Inr C2
      else rbind (acq_blks M 3 2 fill_regs (\<lambda>n C. C\<lparr>numRReg := numRReg C + n\<rparr>) (acqBlks C2) C2) (\<lambda>(b3, C3'). let C3 = C3'\<lparr>acqBlks := b3\<rparr> in
      if tmDelay C3 > 0 then Inr C3
      else rbind (acq_blks M 4 2 fill_regs (\<lambda>n C. C\<lparr>numRRegIn := numRRegIn C + n\<rparr>) (acqBlksIn C3) C3) (\<lambda>(b4, C4').
        Inr (C4'\<lparr>acqBlksIn := b4\<rparr>))))))"

text \<open>The sign that the connection is good again, at the end of a cycle.\<close>

definition acq_done :: "'s mdcontr \<Rightarrow> 's mdcontr" where
  "acq_done C =
     (if tmDelay C \<le> 0 \<and> \<not> endrunReq C then
        (let C1 = (if alSt C \<noteq> 0 then C\<lparr>alSt := 0, alarms := alarms C @ [(''Connection to the data source: OK.'', 1)]\<rparr> else C)
         in C1\<lparr>tmDelay := tmDelay C1 - 1\<rparr>)
      else C)"

section \<open>Reading\<close>

text \<open>The first error is kept.\<close>

definition err_first :: "string \<Rightarrow> string \<Rightarrow> string" where
  "err_first err terr = (if err = [] then terr else err)"

definition covers :: "int \<Rightarrow> int \<Rightarrow> dblk \<Rightarrow> bool" where
  "covers a u b \<longleftrightarrow> a \<ge> off b \<and> a + u \<le> bend b"

definition blk_word :: "dblk \<Rightarrow> int \<Rightarrow> bool \<Rightarrow> u16" where
  "blk_word b addr isLE =
     (let i = nat (addr * 2 - off b); v = mem16 (bval b ! i) (bval b ! (i + 1))
      in if isLE then i16_LE v else i16_BE v)"

definition getValR :: "int \<Rightarrow> bool \<Rightarrow> bool \<Rightarrow> 's mdcontr \<Rightarrow> string \<Rightarrow> int \<times> string" where
  "getValR addr isIn isLE C err =
     (case List.find (covers (addr * 2) 2) (if isIn then acqBlksIn C else acqBlks C) of
        None \<Rightarrow> (EVAL_INT, err)
      | Some b \<Rightarrow> if berr b = [] then (uint (blk_word b addr isLE), err) else (EVAL_INT, err_first err (berr b)))"

definition getValC :: "int \<Rightarrow> bool \<Rightarrow> 's mdcontr \<Rightarrow> string \<Rightarrow> int \<times> string" where
  "getValC addr isIn C err =
     (case List.find (covers addr 1) (if isIn then acqBlksCoilIn C else acqBlksCoil C) of
        None \<Rightarrow> (EVAL_BOOL, err)
      | Some b \<Rightarrow> if berr b = [] then (sint (bval b ! nat (addr - off b)), err) else (EVAL_BOOL, err_first err (berr b)))"

text \<open>The registers with the numbers in the places 1, 2, ... of the list of an address.\<close>

definition reg_num :: "string \<Rightarrow> int \<Rightarrow> int res" where
  "reg_num aids k = rbind (parse0 aids k '','') (\<lambda>t. Inr (to_i32 (strtol 0 t)))"

fun getRegs :: "string \<Rightarrow> int list \<Rightarrow> bool \<Rightarrow> bool \<Rightarrow> 's mdcontr \<Rightarrow> string \<Rightarrow> (int list \<times> string) res" where
  "getRegs aids [] isIn isLE C err = Inr ([], err)"
| "getRegs aids (k # ks) isIn isLE C err =
     rbind (reg_num aids k) (\<lambda>r. case getValR r isIn isLE C err of (v, err') \<Rightarrow>
       rbind (getRegs aids ks isIn isLE C err') (\<lambda>(vs, e). Inr (v # vs, e)))"

text \<open>The words of a value, the lowest first, as one number.\<close>

definition join_words :: "int list \<Rightarrow> u64" where
  "join_words vs = foldr (\<lambda>v w. push_bit 16 w OR (word_of_int v AND 0xFFFF)) vs 0"

text \<open>The symbols of a text value, until a register without a value.\<close>

fun getText :: "int list \<Rightarrow> bool \<Rightarrow> bool \<Rightarrow> 's mdcontr \<Rightarrow> string \<Rightarrow> string \<Rightarrow> string option \<times> string" where
  "getText [] isIn isLE C rez err = (Some rez, err)"
| "getText (iR # is) isIn isLE C rez err =
     (case getValR iR isIn isLE C err of (v, err') \<Rightarrow>
        if v = EVAL_INT then (None, err')
        else getText is isIn isLE C (rez @ map chr (mem_bytes (word_of_int v))) err')"

text \<open>An address: the type, the list of registers and the mode.\<close>

definition addr_parts :: "string \<Rightarrow> (string \<times> string \<times> string) res" where
  "addr_parts addr = rbind (parse_off addr 0) (\<lambda>(tpn, o1). rbind (parse_off addr o1) (\<lambda>(aids, o2).
     rbind (parse_off addr o2) (\<lambda>(mode, o3). Inr (tpn, aids, mode))))"

definition getVal :: "'s mdenv \<Rightarrow> string \<Rightarrow> 's mdcontr \<Rightarrow> string \<Rightarrow> ('h variant \<times> string) res" where
  "getVal M addr C err =
     (if tmDelay C > 0 then Inr (vreal EVAL_REAL, err_first err ''10:Error of connection or no response.'')
      else rbind (addr_parts addr) (\<lambda>(tpn, aids, mode). rbind (parse0 tpn 1 ''_'') (\<lambda>sub0.
      let isIn = (at tpn 1 = CHR ''I''); aid = to_i32 (strtol 0 aids);
          c0 = at sub0 0; c1 = at sub0 1; isLE = (CHR ''e'' \<in> set mode)
      in if tpn = [] \<or> \<not> (CHR ''r'' \<in> set mode \<or> CHR ''w'' \<notin> set mode) then Inr (vint EVAL_INT, err)
         else if at tpn 0 = CHR ''C'' then (case getValC aid isIn C err of (v, e) \<Rightarrow> Inr (vbool v, e))
         else if at tpn 0 \<noteq> CHR ''R'' then Inr (vint EVAL_INT, err)
         else case getValR aid isIn isLE C err of (vl, e1) \<Rightarrow>
           if c0 = CHR ''b'' then
             (if vl = EVAL_INT then Inr (vbool EVAL_BOOL, e1)
              else let n = s2i (tl sub0) in if n < 0 \<or> n > 63 then Inl Overflow else Inr (vbool (b2i (bit vl (nat n))), e1))
           else if c0 = CHR ''f'' then
             rbind (getRegs aids [1] isIn isLE C e1) (\<lambda>(vs, e).
               Inr (if EVAL_INT \<in> set (vl # vs) then vreal EVAL_REAL else vreal (f2d (ucast (join_words (vl # vs)))), e))
           else if c0 = CHR ''d'' then
             rbind (getRegs aids [1, 2, 3] isIn isLE C e1) (\<lambda>(vs, e).
               Inr (if EVAL_INT \<in> set (vl # vs) then vreal EVAL_REAL else vreal (join_words (vl # vs)), e))
           else if c0 = CHR ''i'' then
             (if c1 = CHR ''2'' then Inr (vint (if vl = EVAL_INT then EVAL_INT else sint (word_of_int vl :: u16)), e1)
              else if c1 = CHR ''4'' then
                rbind (getRegs aids [1] isIn isLE C e1) (\<lambda>(vs, e).
                  Inr (vint (if EVAL_INT \<in> set (vl # vs) then EVAL_INT else sint (ucast (join_words (vl # vs)) :: u32)), e))
              else if c1 = CHR ''8'' then
                rbind (getRegs aids [1, 2, 3] isIn isLE C e1) (\<lambda>(vs, e).
                  Inr (vint (if EVAL_INT \<in> set (vl # vs) then EVAL_INT else sint (join_words (vl # vs))), e))
              else Inr (vint EVAL_INT, e1))
           else if c0 = CHR ''u'' then
             (if c1 = CHR ''2'' then Inr (vint vl, e1)
              else if c1 = CHR ''4'' then
                rbind (getRegs aids [1] isIn isLE C e1) (\<lambda>(vs, e).
                  Inr (vint (if EVAL_INT \<in> set (vl # vs) then EVAL_INT else uint (ucast (join_words (vl # vs)) :: u32)), e))
              else Inr (vint EVAL_INT, e1))
           else if c0 = CHR ''s'' then
             rbind (reg_num aids 1) (\<lambda>rSz.
               case getText [aid .. aid + rSz - 1] isIn (\<not> isLE) C [] e1 of
                 (None, e) \<Rightarrow> Inr (vstr EVAL_STR, e)
               | (Some t, e) \<Rightarrow> Inr (vstr (codeConvIn M (sresize (max 1 (length sub0 - 1)) (tl sub0)) t), e))
           else Inr (vint vl, e1))))"

section \<open>Writing\<close>

text \<open>The written register in the first block that has it.\<close>

fun blk_store :: "int \<Rightarrow> bytes \<Rightarrow> dblk list \<Rightarrow> dblk list" where
  "blk_store a vs [] = []"
| "blk_store a vs (b # bs) =
     (if covers a (int (length vs)) b
      then b\<lparr>bval := (let i = nat (a - off b) in take i (bval b) @ vs @ drop (i + length vs) (bval b))\<rparr> # bs
      else b # blk_store a vs bs)"

definition endian :: "bool \<Rightarrow> u16 \<Rightarrow> u16" where
  "endian isLE v = (if isLE then i16_LE v else i16_BE v)"

definition setValR :: "'s mdenv \<Rightarrow> u16 \<Rightarrow> int \<Rightarrow> bool \<Rightarrow> 's mdcontr \<Rightarrow> string \<Rightarrow> (bool \<times> string \<times> 's mdcontr) res" where
  "setValR M val0 addr isLE C err =
     (let val = endian isLE val0;
          pdu = (if \<not> mMltWr C then [0x06] @ be_bytes (word_of_int addr) @ mem_bytes val
                 else [0x10] @ be_bytes (word_of_int addr) @ [0, 1, 2] @ mem_bytes val)
      in rbind (modBusReq M pdu C) (\<lambda>(terr, p, C1).
           if terr = [] then
             Inr (True, err, C1\<lparr>numWReg := numWReg C1 + 1, acqBlks := blk_store (addr * 2) (mem_bytes val) (acqBlks C1)\<rparr>)
           else Inr (False, err_first err terr, C1)))"

text \<open>Writing by single registers.\<close>

fun setValRs1 :: "'s mdenv \<Rightarrow> (int \<times> u16) list \<Rightarrow> bool \<Rightarrow> 's mdcontr \<Rightarrow> string \<Rightarrow> (bool \<times> string \<times> 's mdcontr) res" where
  "setValRs1 M [] isLE C err = Inr (True, err, C)"
| "setValRs1 M ((a, v) # rs) isLE C err =
     rbind (setValR M v a isLE C err) (\<lambda>(done, err', C'). if done then setValRs1 M rs isLE C' err' else Inr (False, err', C'))"

text \<open>Sending the collected group: the count and the length are put into the head.\<close>

definition send_group :: "'s mdenv \<Rightarrow> bytes \<Rightarrow> int \<Rightarrow> int \<Rightarrow> 's mdcontr \<Rightarrow> string \<Rightarrow> (bool \<times> string \<times> 's mdcontr) res" where
  "send_group M pdu start prev C err =
     rbind (modBusReq M (pdu[3 := 0, 4 := word_of_int (prev - start + 1), 5 := word_of_int ((prev - start + 1) * 2)]) C)
       (\<lambda>(terr, p, C1).
         if terr = [] then Inr (True, err, C1\<lparr>numWReg := numWReg C1 + word_of_int (prev - start + 1)\<rparr>)
         else Inr (False, err_first err terr, C1))"

text \<open>Adding a register to the group, which may be the first one of it.\<close>

definition add_group :: "bool \<Rightarrow> int \<Rightarrow> u16 \<Rightarrow> bytes \<times> int \<Rightarrow> 's mdcontr \<Rightarrow> (bytes \<times> int) \<times> 's mdcontr" where
  "add_group isLE a v g C =
     (let vreg = endian isLE v;
          (pdu, start) = (if fst g = [] then ([0x10] @ be_bytes (word_of_int a) @ [0, 1, 2], a) else g)
      in ((pdu @ mem_bytes vreg, start), C\<lparr>acqBlks := blk_store (a * 2) (mem_bytes vreg) (acqBlks C)\<rparr>))"

fun setValRsN :: "'s mdenv \<Rightarrow> (int \<times> u16) list \<Rightarrow> bool \<Rightarrow> bytes \<times> int \<Rightarrow> int \<Rightarrow> 's mdcontr \<Rightarrow> string
    \<Rightarrow> (bool \<times> string \<times> 's mdcontr) res" where
  "setValRsN M [] isLE (pdu, start) prev C err = (if pdu = [] then Inr (True, err, C) else send_group M pdu start prev C err)"
| "setValRsN M ((a, v) # rs) isLE (pdu, start) prev C err =
     (if pdu \<noteq> [] \<and> (a - prev > 1 \<or> prev - start > 122) then
        rbind (send_group M pdu start prev C err) (\<lambda>(done, err', C1).
          if done then (case add_group isLE a v ([], start) C1 of (g, C2) \<Rightarrow> setValRsN M rs isLE g a C2 err')
          else Inr (False, err', C1))
      else (case add_group isLE a v (pdu, start) C of (g, C2) \<Rightarrow> setValRsN M rs isLE g a C2 err))"

definition setValRs :: "'s mdenv \<Rightarrow> (int \<times> u16) list \<Rightarrow> bool \<Rightarrow> 's mdcontr \<Rightarrow> string \<Rightarrow> (bool \<times> string \<times> 's mdcontr) res" where
  "setValRs M regs isLE C err =
     (if \<not> mMltWr C then setValRs1 M regs isLE C err else setValRsN M regs isLE ([], 0) 0 C err)"

definition setValC :: "'s mdenv \<Rightarrow> int \<Rightarrow> int \<Rightarrow> 's mdcontr \<Rightarrow> string \<Rightarrow> (bool \<times> string \<times> 's mdcontr) res" where
  "setValC M val addr C err =
     (let pdu = (if \<not> mMltWr C then [0x05] @ be_bytes (word_of_int addr) @ [if val \<noteq> 0 then 0xFF else 0, 0]
                 else [0x0F] @ be_bytes (word_of_int addr) @ [0, 1, 1, if val \<noteq> 0 then 1 else 0])
      in rbind (modBusReq M pdu C) (\<lambda>(terr, p, C1).
           if terr = [] then
             Inr (True, err, C1\<lparr>numWCoil := numWCoil C1 + 1, acqBlksCoil := blk_store addr [word_of_int val] (acqBlksCoil C1)\<rparr>)
           else Inr (False, err_first err terr, C1)))"

text \<open>The registers of a value: the first one, then those of the places 1, 2, ... of the address.\<close>

definition word_at :: "u64 \<Rightarrow> nat \<Rightarrow> u16" where
  "word_at w k = ucast (drop_bit (16 * k) w)"

definition sep_num :: "string \<Rightarrow> int \<Rightarrow> int res" where
  "sep_num aids k = rbind (strSepParse aids k (CHR '','') None) (\<lambda>(t, e). Inr (to_i32 (strtol 0 t)))"

fun put_regs :: "(int \<Rightarrow> int res) \<Rightarrow> u64 \<Rightarrow> nat list \<Rightarrow> (int \<times> u16) list \<Rightarrow> (int \<times> u16) list res" where
  "put_regs num w [] regs = Inr regs"
| "put_regs num w (k # ks) regs = rbind (num (int k)) (\<lambda>r. put_regs num w ks (kv_put r (word_at w k) regs))"

definition text_regs :: "int \<Rightarrow> string \<Rightarrow> (int \<times> u16) list" where
  "text_regs aid vl = map (\<lambda>k. (aid + int k, mem16 (byte (vl ! (2 * k))) (byte (vl ! (2 * k + 1))))) [0 ..< length vl div 2]"

text \<open>The queue of the asynchronous writings and the cycles to omit.\<close>

definition setVal_queue :: "'h venv \<Rightarrow> 'h variant \<Rightarrow> string \<Rightarrow> 's mdcontr \<Rightarrow> (bool \<times> 's mdcontr) res" where
  "setVal_queue E val addr C =
     (let C1 = (if mOmitRdCyclForWr C \<noteq> 0 then C\<lparr>omitRdCycl := kv_put addr (to_i32 (mOmitRdCyclForWr C)) (omitRdCycl C)\<rparr> else C)
      in if mAsynchWr C1 then rbind (getS E val) (\<lambda>t. Inr (True, C1\<lparr>asynchWrs := kv_put addr t (asynchWrs C1)\<rparr>))
         else Inr (False, C1))"

definition setVal_now :: "'h venv \<Rightarrow> 's mdenv \<Rightarrow> 'h variant \<Rightarrow> string \<Rightarrow> string \<Rightarrow> string \<Rightarrow> 's mdcontr \<Rightarrow> string
    \<Rightarrow> (bool \<times> string \<times> 's mdcontr) res" where
  "setVal_now E M val tpn aids mode C err =
     rbind (parse0 tpn 1 ''_'') (\<lambda>sub0.
     let aid = to_i32 (strtol 0 aids); c0 = at sub0 0; c1 = at sub0 1; isLE = (CHR ''e'' \<in> set mode);
         num = reg_num aids; snum = sep_num aids
     in if tpn = [] \<or> at tpn 1 = CHR ''I'' then Inr (True, err, C)
        else if at tpn 0 = CHR ''C'' then rbind (getB E val) (\<lambda>b. setValC M b aid C err)
        else if at tpn 0 \<noteq> CHR ''R'' then Inr (False, err, C)
        else if c0 = CHR ''b'' then
          (case getValR aid False isLE C err of (vl, e1) \<Rightarrow>
             if vl \<noteq> EVAL_INT then
               rbind (getB E val) (\<lambda>b. let n = s2i (tl sub0)
                 in if n < 0 \<or> n > 30 then Inl Overflow
                    else setValR M (word_of_int (if b \<noteq> 0 then vl OR 2 ^ nat n else vl AND NOT (2 ^ nat n))) aid isLE C e1)
             else Inr (tmDelay C = 0, e1, C))
        else if c0 = CHR ''f'' then
          rbind (getR E val) (\<lambda>x. let w = ucast (d2f x) in
          rbind (put_regs num w [1] [(aid, word_at w 0)]) (\<lambda>regs. setValRs M regs isLE C err))
        else if c0 = CHR ''d'' then
          rbind (getR E val) (\<lambda>w.
          rbind (put_regs num w [1, 2, 3] [(aid, word_at w 0)]) (\<lambda>regs. setValRs M regs isLE C err))
        else if c0 = CHR ''i'' \<or> c0 = CHR ''u'' then
          (if c1 = CHR ''2'' then rbind (getI E val) (\<lambda>i. setValR M (word_of_int i) aid isLE C err)
           else if c1 = CHR ''4'' then
             rbind (getI E val) (\<lambda>i. let w = word_of_int i in
             rbind (put_regs snum w [1] [(aid, word_at w 0)]) (\<lambda>regs. setValRs M regs isLE C err))
           else if c1 = CHR ''8'' then
             rbind (getI E val) (\<lambda>i. let w = word_of_int i in
             rbind (put_regs snum w [1, 2, 3] [(aid, word_at w 0)]) (\<lambda>regs. setValRs M regs isLE C err))
           else Inr (False, err, C))
        else if c0 = CHR ''s'' then
          rbind (getS E val) (\<lambda>t. rbind (snum 1) (\<lambda>n.
            if n < 0 then Inl LengthError
            else setValRs M (text_regs aid (sresize (nat (n * 2)) (codeConvOut M (sresize (max 1 (length sub0 - 1)) (tl sub0)) t)))
                   (\<not> isLE) C err))
        else rbind (getI E val) (\<lambda>i. setValR M (word_of_int i) aid isLE C err))"

definition setVal :: "'h venv \<Rightarrow> 's mdenv \<Rightarrow> 'h variant \<Rightarrow> string \<Rightarrow> bool \<Rightarrow> 's mdcontr \<Rightarrow> string
    \<Rightarrow> (bool \<times> string \<times> 's mdcontr) res" where
  "setVal E M val addr isGeneric C err =
     rbind (addr_parts addr) (\<lambda>(tpn, aids, mode).
     rbind (if isGeneric then setVal_queue E val addr C else Inr (False, C)) (\<lambda>(queued, C1).
       if queued then Inr (True, err, C1)
       else if tmDelay C1 > 0 then Inr (False, err_first err ''10:Error of connection or no response.'', C1)
       else setVal_now E M val tpn aids mode C1 err))"

text \<open>Whether the read value of an address is passed over; a cycle to omit is counted.\<close>

definition inWr :: "string \<Rightarrow> 's mdcontr \<Rightarrow> bool \<times> 's mdcontr" where
  "inWr addr C =
     (if map_of (asynchWrs C) addr \<noteq> None then (True, C)
      else case map_of (omitRdCycl C) addr of
             None \<Rightarrow> (False, C)
           | Some n \<Rightarrow> (True, C\<lparr>omitRdCycl := (if n - 1 \<le> 0 then kv_del addr (omitRdCycl C) else kv_put addr (n - 1) (omitRdCycl C))\<rparr>))"

text \<open>
  Writing the queue at the end of a cycle.  After an error the following writings go back to the queue
  unless there are newer ones; the failed one does not.
\<close>

fun wr_queue :: "'h venv \<Rightarrow> 's mdenv \<Rightarrow> (string \<times> string) list \<Rightarrow> 's mdcontr \<Rightarrow> string \<Rightarrow> 's mdcontr res" where
  "wr_queue E M [] C asWrErr = Inr C"
| "wr_queue E M ((addr, v) # ws) C asWrErr =
     (if asWrErr \<noteq> [] then
        wr_queue E M ws (if map_of (asynchWrs C) addr = None then C\<lparr>asynchWrs := kv_put addr v (asynchWrs C)\<rparr> else C) asWrErr
      else rbind (setVal E M (vstr v) addr False C asWrErr) (\<lambda>(done, e, C1).
             wr_queue E M ws (if done then C1 else setCntrDelay M e C1) e))"

definition wr_asynch :: "'h venv \<Rightarrow> 's mdenv \<Rightarrow> bool \<Rightarrow> 's mdcontr \<Rightarrow> 's mdcontr res" where
  "wr_asynch E M isStop C =
     (let aWrs = asynchWrs C; C1 = C\<lparr>asynchWrs := []\<rparr>
      in if mAsynchWr C1 \<and> \<not> isStop then wr_queue E M aWrs C1 [] else Inr C1)"

end
