(* ===== verification/Modbus_Blocks.thy ===== *)
theory Modbus_Blocks
  imports Modbus_Daq
begin

text \<open>
  The blocks of acquisition of the ModBus data source (\<open>Modbus_Daq\<close>): without merging of the fragments,
  registering keeps the blocks apart, in order and of whole items, and what the blocks hold is what was
  registered.  Then the faults of the merging and of the sizes.
\<close>

section \<open>The controller at its creation\<close>

definition new_contr :: "string \<Rightarrow> 's \<Rightarrow> 's mdcontr" where
  "new_contr name_c tr = \<lparr>mNode = 1, blkMaxSz = 200, mPrt = ''TCP'', mMerge = False, mMltWr = False, mAsynchWr = False,
     mOmitRdCyclForWr = 0, mReqTm = 0, restTm = 30, connTry = 1, mdDebugCat = [], mdId = name_c, endrunReq = False,
     alSt = -1, acqBlks = [], acqBlksIn = [], acqBlksCoil = [], acqBlksCoilIn = [], asynchWrs = [], omitRdCycl = [],
     tmDelay = 0, numRReg = 0, numRRegIn = 0, numRCoil = 0, numRCoilIn = 0, numWReg = 0, numWCoil = 0,
     numErrCon = 0, numErrResp = 0, alarms = [], trst = tr\<rparr>"

text \<open>Starting without the creation of the task, and disabling; the end of the task is that of the request.\<close>

definition start_contr :: "'s mdcontr \<Rightarrow> 's mdcontr" where
  "start_contr C = C\<lparr>numRReg := 0, numRRegIn := 0, numRCoil := 0, numRCoilIn := 0, numWReg := 0, numWCoil := 0,
     numErrCon := 0, numErrResp := 0, tmDelay := 0\<rparr>"

definition disable_contr :: "'s mdcontr \<Rightarrow> 's mdcontr" where
  "disable_contr C = C\<lparr>asynchWrs := [], acqBlks := [], acqBlksIn := [], acqBlksCoil := [], acqBlksCoilIn := []\<rparr>"

section \<open>Blocks as ranges of items\<close>

definition blk_ok :: "nat \<Rightarrow> dblk \<Rightarrow> bool" where
  "blk_ok u b \<longleftrightarrow> 0 \<le> off b \<and> int u dvd off b \<and> u dvd length (bval b) \<and> bval b \<noteq> []"

fun blks_ok :: "nat \<Rightarrow> dblk list \<Rightarrow> bool" where
  "blks_ok u [] = True"
| "blks_ok u (b # bs) = (blk_ok u b \<and> (\<forall>c \<in> set bs. bend b \<le> off c) \<and> blks_ok u bs)"

definition has_item :: "nat \<Rightarrow> dblk list \<Rightarrow> int \<Rightarrow> bool" where
  "has_item u bs k \<longleftrightarrow> (\<exists>b \<in> set bs. covers (k * int u) (int u) b)"

text \<open>A block as the range of its items.\<close>

definition spans :: "nat \<Rightarrow> dblk \<Rightarrow> int \<Rightarrow> int \<Rightarrow> bool" where
  "spans u b m n \<longleftrightarrow> off b = m * int u \<and> bend b = n * int u \<and> 0 \<le> m \<and> m < n"

lemma has_item_simps [simp]: "\<not> has_item u [] k"
  "has_item u (b # bs) k \<longleftrightarrow> covers (k * int u) (int u) b \<or> has_item u bs k"
  by (auto simp: has_item_def)

lemma spans_ok: "0 < u \<Longrightarrow> spans u b m n \<Longrightarrow> blk_ok u b"
proof -
  assume u: "0 < u" and s: "spans u b m n"
  have "int (length (bval b)) = (n - m) * int u" using s by (simp add: spans_def bend_def bsize_def algebra_simps)
  then have "int u dvd int (length (bval b))" "int (length (bval b)) > 0" using s u by (auto simp: spans_def)
  then show "blk_ok u b" using s by (auto simp: blk_ok_def spans_def int_dvd_int_iff)
qed

lemma ok_spans: "0 < u \<Longrightarrow> blk_ok u b \<Longrightarrow> \<exists>m n. spans u b m n"
proof -
  assume u: "0 < u" and b: "blk_ok u b"
  obtain m l where ml: "off b = int u * m" "length (bval b) = u * l" using b by (auto simp: blk_ok_def elim!: dvdE)
  have "0 < l" using b ml by (cases l) (auto simp: blk_ok_def)
  moreover have "0 \<le> m" using b ml u by (auto simp: blk_ok_def zero_le_mult_iff)
  ultimately have "spans u b m (m + int l)" using ml by (simp add: spans_def bend_def bsize_def algebra_simps)
  then show ?thesis by blast
qed

lemma spans_covers: "0 < u \<Longrightarrow> spans u b m n \<Longrightarrow> covers (k * int u) (int u) b \<longleftrightarrow> m \<le> k \<and> k < n"
proof -
  assume u: "0 < u" and s: "spans u b m n"
  have "k * int u + int u = (k + 1) * int u" by (simp add: algebra_simps)
  then show ?thesis using u s by (auto simp: covers_def spans_def)
qed

lemma spans_new: "0 \<le> k \<Longrightarrow> spans u (new_blk (k * int u) u) k (k + 1)"
  by (simp add: spans_def new_blk_def bend_def bsize_def algebra_simps)

lemma new_blk_ends: "off (new_blk a u) = a" "bend (new_blk a u) = a + int u"
  by (simp_all add: new_blk_def bend_def bsize_def)

lemma reg_before_ok:
  assumes "0 < u" "spans u b m n" "0 \<le> k" "k < m"
  shows "(\<exists>b'. reg_before False L u (k * int u) b = [b'] \<and> spans u b' k n \<and> m = k + 1)
       \<or> reg_before False L u (k * int u) b = [new_blk (k * int u) u, b]"
proof -
  have "m = k + 1" if "m * int u \<le> k * int u + int u"
  proof -
    have "m * int u \<le> (k + 1) * int u" using that by (simp add: algebra_simps)
    then show ?thesis using assms(1,4) by simp
  qed
  moreover have "k * int u \<le> m * int u" using assms by simp
  ultimately show ?thesis
    using assms by (auto simp: reg_before_def spans_def bend_def bsize_def)
qed

lemma reg_extend_ok:
  assumes "0 < u" "spans u b m k" "blks_ok u bs" "\<forall>c \<in> set bs. bend b \<le> off c"
  shows "\<exists>b' bs' n. reg_extend False u (k * int u) b bs = Inr (b' # bs') \<and> spans u b' m n \<and> k < n
    \<and> set bs' \<subseteq> set bs \<and> blks_ok u bs' \<and> (\<forall>c \<in> set bs'. n * int u \<le> off c)
    \<and> (\<forall>j. (m \<le> j \<and> j < n) \<or> has_item u bs' j \<longleftrightarrow> j = k \<or> (m \<le> j \<and> j < k) \<or> has_item u bs j)"
proof -
  define b1 where "b1 = b\<lparr>bval := bval b @ replicate u 0\<rparr>"
  have k: "bend b = k * int u" using assms(2) by (simp add: spans_def)
  have s1: "spans u b1 m (k + 1)" using assms(2) by (simp add: spans_def b1_def bend_def bsize_def algebra_simps)
  have r: "reg_extend False u (k * int u) b bs =
      (case bs of [] \<Rightarrow> Inr [b1]
       | n # bs' \<Rightarrow> if bend b1 \<ge> off n then
               (let p = bend b1 - off n in if p > bsize n then Inl OutOfRange
                   else Inr (b1\<lparr>bval := bval b1 @ drop (nat p) (bval n)\<rparr> # bs')) else Inr (b1 # bs))"
    by (simp add: reg_extend_def k b1_def Let_def split: list.split)
  show ?thesis
  proof (cases bs)
    case Nil
    then show ?thesis using r s1 assms(2) by (auto simp: spans_def)
  next
    case (Cons c cs)
    obtain m' n' where c: "spans u c m' n'" using ok_spans [OF assms(1), of c] assms(3) Cons by auto
    have mk: "k \<le> m'" using assms(1,4) Cons c k by (simp add: spans_def)
    note cv = spans_covers [OF assms(1) c]
    show ?thesis
    proof (cases "m' \<le> k + 1")
      case True
      define p where "p = bend b1 - off c"
      have p: "0 \<le> p" "p \<le> bsize c"
      proof -
        have e: "p = (k + 1 - m') * int u" "bsize c = (n' - m') * int u"
          using s1 c by (simp_all add: p_def spans_def bend_def bsize_def algebra_simps)
        have "k + 1 - m' \<le> n' - m'" using c mk by (simp add: spans_def)
        then show "0 \<le> p" "p \<le> bsize c" unfolding e using True assms(1) by (simp_all add: mult_right_mono)
      qed
      define b' where "b' = b1\<lparr>bval := bval b1 @ drop (nat p) (bval c)\<rparr>"
      have "int (length (drop (nat p) (bval c))) = bsize c - p" using p by (simp add: bsize_def)
      then have "bend b' = bend c" using p_def by (simp add: b'_def bend_def bsize_def)
      then have s: "spans u b' m n'" using s1 c mk by (simp add: spans_def b'_def)
      have "off c \<le> bend b1" using p(1) by (simp add: p_def)
      then have e: "reg_extend False u (k * int u) b bs = Inr (b' # cs)" using r p(2) Cons by (simp add: b'_def p_def)
      have "\<forall>d \<in> set cs. n' * int u \<le> off d" using assms(3) Cons c by (simp add: spans_def)
      moreover have "k < n'" "m < k + 1" using mk c s1 by (simp_all add: spans_def)
      ultimately show ?thesis
        using e s assms(3) Cons True mk by (intro exI [of _ b'] exI [of _ cs] exI [of _ n']) (auto simp: cv)
    next
      case False
      then have "(k + 1) * int u < m' * int u" using assms(1) by simp
      then have e: "reg_extend False u (k * int u) b bs = Inr (b1 # bs)" and o1: "(k + 1) * int u \<le> off c"
        using r s1 c Cons by (simp_all add: spans_def)
      have "off c \<le> bend c" using c assms(1) by (simp add: spans_def)
      then have "\<forall>d \<in> set bs. (k + 1) * int u \<le> off d" using o1 assms(3) Cons by auto
      then show ?thesis using e s1 assms(3) by (intro exI [of _ b1] exI [of _ bs] exI [of _ "k + 1"]) (auto simp: spans_def)
    qed
  qed
qed

text \<open>What registering the item \<open>k\<close> makes of the blocks.\<close>

definition registered :: "nat \<Rightarrow> int \<Rightarrow> dblk list \<Rightarrow> dblk list \<Rightarrow> bool" where
  "registered u k bs bs' \<longleftrightarrow> blks_ok u bs' \<and> (\<forall>j. has_item u bs' j \<longleftrightarrow> j = k \<or> has_item u bs j)
     \<and> (\<forall>lo. lo \<le> k * int u \<longrightarrow> (\<forall>c \<in> set bs. lo \<le> off c) \<longrightarrow> (\<forall>c \<in> set bs'. lo \<le> off c))"

lemma reg_before_registered:
  assumes "0 < u" "spans u b m n" "0 \<le> k" "k < m" "blks_ok u (b # bs)"
  shows "registered u k (b # bs) (reg_before False L u (k * int u) b @ bs)"
  using reg_before_ok [OF assms(1-4), of L]
proof (elim disjE exE conjE)
  fix b' assume r: "reg_before False L u (k * int u) b = [b']" "spans u b' k n" "m = k + 1"
  have e: "bend b' = bend b" "off b' = k * int u" "k * int u \<le> off b" using r(2,3) assms(1,2) by (simp_all add: spans_def)
  show ?thesis
    using assms(5) e r(1) spans_ok [OF assms(1) r(2)]
      spans_covers [OF assms(1) r(2)] spans_covers [OF assms(1,2)] r(3) assms(2)
    by (fastforce simp: registered_def spans_def)
next
  assume r: "reg_before False L u (k * int u) b = [new_blk (k * int u) u, b]"
  note n = spans_new [OF assms(3), of u]
  have "(k + 1) * int u \<le> off b" "off b \<le> bend b" using assms(1,2,4) by (simp_all add: spans_def)
  then show ?thesis
    using r assms(5) spans_ok [OF assms(1) n] spans_covers [OF assms(1) n] by (auto simp: new_blk_ends registered_def algebra_simps)
qed

lemma reg_extend_registered:
  assumes "0 < u" "spans u b m k" "blks_ok u (b # bs)"
  shows "\<exists>bs'. reg_extend False u (k * int u) b bs = Inr bs' \<and> registered u k (b # bs) bs'"
proof -
  obtain b' bs' n where
    e: "reg_extend False u (k * int u) b bs = Inr (b' # bs')" "spans u b' m n" "k < n" "set bs' \<subseteq> set bs" "blks_ok u bs'"
      "\<forall>c \<in> set bs'. n * int u \<le> off c"
      "\<forall>j. (m \<le> j \<and> j < n) \<or> has_item u bs' j \<longleftrightarrow> j = k \<or> (m \<le> j \<and> j < k) \<or> has_item u bs j"
    using reg_extend_ok [OF assms(1,2), of bs] assms(3) by auto
  have "off b' = off b" "bend b' = n * int u" using e(2) assms(2) by (simp_all add: spans_def)
  then have "registered u k (b # bs) (b' # bs')"
    using e(4-7) assms(3) spans_ok [OF assms(1) e(2)] spans_covers [OF assms(1) e(2)] spans_covers [OF assms(1,2)]
    by (auto simp: registered_def)
  then show ?thesis using e(1) by blast
qed

lemma reg_blk_registered:
  assumes "0 < u" "0 \<le> k" "blks_ok u bs"
  shows "\<exists>bs'. reg_blk False L sep u (k * int u) bs = Inr bs' \<and> registered u k bs bs'"
  using assms(3)
proof (induction bs)
  case Nil
  have n: "spans u (new_blk (k * int u) u) k (k + 1)" using assms(2) by (rule spans_new)
  show ?case using spans_ok [OF assms(1) n] spans_covers [OF assms(1) n] by (auto simp: registered_def new_blk_ends)
next
  case (Cons b bs)
  obtain m n where b: "spans u b m n" using ok_spans [OF assms(1), of b] Cons.prems by auto
  have ku: "k * int u + int u = (k + 1) * int u" by (simp add: algebra_simps)
  have cmp: "k * int u < off b \<longleftrightarrow> k < m" "bend b < k * int u + int u \<longleftrightarrow> n \<le> k" "k * int u \<le> bend b \<longleftrightarrow> k \<le> n"
    using b assms(1) unfolding ku by (auto simp: spans_def)
  consider "k < m" | "m \<le> k" "k < n" | "m < k" "n \<le> k" using b by (auto simp: spans_def not_le [symmetric])
  then show ?case
  proof cases
    case 1
    then show ?thesis using reg_before_registered [OF assms(1) b assms(2) 1 Cons.prems, of L] by (simp add: cmp)
  next
    case 2
    then show ?thesis using Cons.prems spans_covers [OF assms(1) b] by (auto simp: cmp registered_def)
  next
    case 3
    show ?thesis
    proof (cases "\<not> sep \<and> k = n \<and> k * int u + int u - off b < L")
      case True
      then have "reg_blk False L sep u (k * int u) (b # bs) = reg_extend False u (k * int u) b bs"
      proof -
        have "\<not> k * int u < off b" "bend b < k * int u + int u" "k * int u \<le> bend b" unfolding cmp using 3 True by simp_all
        then show ?thesis using True [THEN conjunct1] True [THEN conjunct2, THEN conjunct2] by simp
      qed
      moreover have "spans u b m k" using b True by simp
      ultimately show ?thesis using reg_extend_registered [OF assms(1) _ Cons.prems] by simp
    next
      case False
      obtain bs' where i: "reg_blk False L sep u (k * int u) bs = Inr bs'" "registered u k bs bs'"
        using Cons by auto
      have "reg_blk False L sep u (k * int u) (b # bs) = Inr (b # bs')" using 3 False i(1) by (auto simp: cmp)
      moreover have "bend b \<le> k * int u" using 3 b assms(1) by (simp add: spans_def)
      ultimately show ?thesis using i(2) Cons.prems by (auto simp: registered_def)
    qed
  qed
qed

section \<open>Sequences of registrations\<close>

fun regVals :: "(int \<times> string \<times> bool) list \<Rightarrow> 's mdcontr \<Rightarrow> 's mdcontr res" where
  "regVals [] C = Inr C"
| "regVals ((reg, dt, sep) # rs) C = rbind (regVal reg dt sep C) (regVals rs)"

definition blocks_ok :: "'s mdcontr \<Rightarrow> bool" where
  "blocks_ok C \<longleftrightarrow> blks_ok 2 (acqBlks C) \<and> blks_ok 2 (acqBlksIn C) \<and> blks_ok 1 (acqBlksCoil C) \<and> blks_ok 1 (acqBlksCoilIn C)"

definition acquired :: "'s mdcontr \<Rightarrow> string \<Rightarrow> int \<Rightarrow> bool" where
  "acquired C dt k \<longleftrightarrow>
     (if dt = ''R'' then has_item 2 (acqBlks C) k else if dt = ''RI'' then has_item 2 (acqBlksIn C) k
      else if dt = ''C'' then has_item 1 (acqBlksCoil C) k else dt = ''CI'' \<and> has_item 1 (acqBlksCoilIn C) k)"

text \<open>An address whose first byte is an \<open>int\<close>.\<close>

definition reg_valid :: "int \<times> string \<times> bool \<Rightarrow> bool" where
  "reg_valid r \<longleftrightarrow> 0 \<le> fst r \<and>
     (if fst (snd r) \<in> {''R'', ''RI''} then fst r * 2 + 2 \<le> 2147483647
      else fst (snd r) \<in> {''C'', ''CI''} \<and> fst r + 1 \<le> 2147483647)"

lemma regVal_registered:
  assumes "\<not> mMerge C" "blocks_ok C" "reg_valid (reg, dt, sep)"
  shows "\<exists>C'. regVal reg dt sep C = Inr C' \<and> \<not> mMerge C' \<and> blocks_ok C'
    \<and> (\<forall>t j. acquired C' t j \<longleftrightarrow> (t = dt \<and> j = reg) \<or> acquired C t j)"
proof -
  have r: "\<exists>bs'. reg_blk False L s u (reg * int u) bs = Inr bs' \<and> registered u reg bs bs'"
    if "0 < u" "blks_ok u bs" for L s u bs
    using reg_blk_registered [of u reg bs L s] that assms(3) by (simp add: reg_valid_def)
  consider "dt = ''R''" | "dt = ''RI''" | "dt = ''C''" | "dt = ''CI''" using assms(3) by (auto simp: reg_valid_def split: if_splits)
  then show ?thesis
  proof cases
    case 1
    then show ?thesis using r [of 2 "acqBlks C" "blkMaxSz C" sep] assms
      by (auto simp: regVal_def reg_valid_def blocks_ok_def acquired_def registered_def)
  next
    case 2
    then show ?thesis using r [of 2 "acqBlksIn C" "blkMaxSz C" sep] assms
      by (auto simp: regVal_def reg_valid_def blocks_ok_def acquired_def registered_def)
  next
    case 3
    then show ?thesis using r [of 1 "acqBlksCoil C" "blkMaxSz C * 8" False] assms
      by (auto simp: regVal_def reg_valid_def blocks_ok_def acquired_def registered_def)
  next
    case 4
    then show ?thesis using r [of 1 "acqBlksCoilIn C" "blkMaxSz C * 8" False] assms
      by (auto simp: regVal_def reg_valid_def blocks_ok_def acquired_def registered_def)
  qed
qed

text \<open>Any registering keeps the blocks, or the address overflows.\<close>

definition regs_kept :: "'s mdcontr \<Rightarrow> 's mdcontr res \<Rightarrow> bool" where
  "regs_kept C r \<longleftrightarrow> r = Inl Overflow \<or> (\<exists>C'. r = Inr C' \<and> \<not> mMerge C' \<and> blocks_ok C' \<and> (\<forall>t j. acquired C t j \<longrightarrow> acquired C' t j))"

lemma regVal_kept:
  assumes "\<not> mMerge C" "blocks_ok C"
  shows "regs_kept C (regVal reg dt sep C)"
proof (cases "reg_valid (reg, dt, sep)")
  case True
  then show ?thesis using regVal_registered [OF assms True] by (auto simp: regs_kept_def)
next
  case False
  then have "regVal reg dt sep C = Inl Overflow \<or> regVal reg dt sep C = Inr C"
    by (auto simp: reg_valid_def regVal_def split: if_splits)
  then show ?thesis using assms by (auto simp: regs_kept_def)
qed

text \<open>C37. Registering any registers and coils of any kinds, in any order and with any signs of separation,
  succeeds when the merging of fragments is off; the blocks of every kind stay in order, apart, of whole items
  and non-empty, and they hold exactly the items held before and the registered ones.\<close>

theorem regVal_blocks:
  assumes "\<not> mMerge C" "blocks_ok C" "\<forall>r \<in> set rs. reg_valid r"
  shows "\<exists>C'. regVals rs C = Inr C' \<and> blocks_ok C'
    \<and> (\<forall>dt k. acquired C' dt k \<longleftrightarrow> (\<exists>sep. (k, dt, sep) \<in> set rs) \<or> acquired C dt k)"
  using assms
proof (induction rs arbitrary: C)
  case (Cons r rs)
  obtain reg dt sep where r: "r = (reg, dt, sep)" by (cases r)
  obtain C1 where c: "regVal reg dt sep C = Inr C1" "\<not> mMerge C1" "blocks_ok C1"
      "\<forall>t j. acquired C1 t j \<longleftrightarrow> (t = dt \<and> j = reg) \<or> acquired C t j"
    using regVal_registered [OF Cons.prems(1,2), of reg dt sep] Cons.prems(3) r by (auto simp: ball_simps)
  obtain C2 where "regVals rs C1 = Inr C2" "blocks_ok C2"
      "\<forall>dt k. acquired C2 dt k \<longleftrightarrow> (\<exists>sep. (k, dt, sep) \<in> set rs) \<or> acquired C1 dt k"
    using Cons.IH [OF c(2,3)] Cons.prems(3) by auto
  then show ?case using c(1,4) r by (intro exI [of _ C2]) auto
qed auto

lemma regVal_blocks_witness:
  "\<exists>C. regVals [(5, ''R'', False), (4, ''R'', False), (7, ''R'', False), (6, ''R'', True), (2, ''C'', False)] (new_contr ''c'' ()) = Inr C
     \<and> blocks_ok C \<and> acquired C ''R'' 6 \<and> acquired C ''C'' 2 \<and> \<not> acquired C ''RI'' 5"
proof -
  have n: "\<not> mMerge (new_contr ''c'' ())" "blocks_ok (new_contr ''c'' ())" "\<not> acquired (new_contr ''c'' ()) dt k" for dt k
    by (simp_all add: new_contr_def blocks_ok_def acquired_def)
  show ?thesis
    using regVal_blocks [OF n(1,2), of "[(5, ''R'', False), (4, ''R'', False), (7, ''R'', False), (6, ''R'', True), (2, ''C'', False)]"] n(3)
    by (fastforce simp: reg_valid_def)
qed

section \<open>Faults\<close>

text \<open>Merging into the next block exceeds the limit: of 250 bytes here to 252, 126 registers, which a node refuses.\<close>

lemma blk_over_limit:
  "\<exists>b. reg_blk False 250 False 2 124 [(new_blk 0 2)\<lparr>bval := replicate 124 0\<rparr>, (new_blk 126 2)\<lparr>bval := replicate 126 0\<rparr>] = Inr [b]
     \<and> bsize b = 252"
  by (simp add: reg_extend_def bend_def bsize_def new_blk_def numeral_eq_Suc)

text \<open>With the merging of the fragments a block is enlarged over the following one: the register asked to be read
  separately is then in two blocks.\<close>

lemma merged_blocks_overlap:
  "\<exists>C b c. regVals [(0, ''R'', False), (2, ''R'', True), (4, ''R'', False)] ((new_contr ''c'' ())\<lparr>mMerge := True\<rparr>) = Inr C
     \<and> acqBlks C = [b, c] \<and> covers 4 2 b \<and> covers 4 2 c"
  by (simp add: regVal_def reg_extend_def bend_def bsize_def new_blk_def new_contr_def covers_def to_i32_def numeral_eq_Suc)

end
