(* ===== verification/Tvalue.thy ===== *)
theory Tvalue
  imports Tfunction
begin

text \<open>
  The attribute of a parameter of data acquisition, \<open>TVal\<close> (\<^verbatim>\<open>src/src/tvalue.cpp\<close>): the value with
  its type, flags and limits, the reading with the request to the owner and to the archive, and the writing
  with its conversions, the limits, the notice to the owner and the storing to the archive.

  The owner (\<open>vlGet\<close>, \<open>vlSet\<close>), the connected archive and the clock are parameters that pass a state
  \<open>'w\<close> of their own, and so are the reading and the writing of the field of the configuration an attribute
  can be bound to (\<open>mCfg\<close>).  The selection by names and the creation of an archive are not modelled.  The lock of the texts and the objects is not
  modelled: the operations are the critical sections.
\<close>

section \<open>The attribute\<close>

abbreviation (input) Selectable :: u32 where "Selectable \<equiv> 0x01"
abbreviation (input) NoWrite :: u32 where "NoWrite \<equiv> 0x04"
abbreviation (input) DirRead :: u32 where "DirRead \<equiv> 0x100"
abbreviation (input) DirWrite :: u32 where "DirWrite \<equiv> 0x200"
abbreviation (input) Dynamic :: u32 where "Dynamic \<equiv> 0x400"
abbreviation (input) Arch_Val_OldBufVl :: int where "Arch_Val_OldBufVl \<equiv> 30"

text \<open>\<open>a_arch\<close> has the period of the connected archive and whether its source is the attribute.\<close>

record 'h tval =
  a_id :: string
  a_tp :: vtype
  a_flg :: u32
  a_def :: string
  a_limI :: "int \<times> int"
  a_limR :: "u64 \<times> u64"
  a_descr :: string
  a_res :: string
  a_val :: "'h vstore"
  a_time :: int
  a_req :: bool
  a_cfg :: bool
  a_arch :: "(int \<times> bool) option"

definition has_flg :: "'h tval \<Rightarrow> u32 \<Rightarrow> bool" where
  "has_flg a f \<longleftrightarrow> a_flg a AND f \<noteq> 0"

text \<open>The value at the setting of the field.\<close>

definition fld_val :: "'h venv \<Rightarrow> vtype \<Rightarrow> string \<Rightarrow> 'h vstore" where
  "fld_val E t def = (case t of
       String \<Rightarrow> VStd (if def = [] then EVAL_STR else def)
     | Integer \<Rightarrow> VI (if def = [] then EVAL_INT else s2i def)
     | Real \<Rightarrow> VR (if def = [] then EVAL_REAL else s2r E def)
     | Boolean \<Rightarrow> VB (if def = [] then EVAL_BOOL else to_i8 (s2i def))
     | Object \<Rightarrow> VO (Some (newEVal E))
     | Null \<Rightarrow> VNone)"

definition av_setFld :: "'h venv \<Rightarrow> 'h tval \<Rightarrow> 'h tval" where
  "av_setFld E a = a\<lparr>a_val := fld_val E (a_tp a) (a_def a), a_cfg := False\<rparr>"

section \<open>The surroundings\<close>

record ('h, 'w) avenv =
  vlGet :: "'h tval \<Rightarrow> 'w \<Rightarrow> ('h tval \<times> 'w) res"
  vlSet :: "'h tval \<Rightarrow> 'h variant \<Rightarrow> 'h variant \<Rightarrow> 'w \<Rightarrow> ('h tval \<times> 'w) res"
  arch_get :: "int \<Rightarrow> 'w \<Rightarrow> ('h variant \<times> int \<times> 'w) res"
  arch_put :: "'h variant \<Rightarrow> int \<Rightarrow> 'w \<Rightarrow> int option \<times> 'w"
  arch_clear :: "'w \<Rightarrow> 'w"
  cfg_get :: "'h tval \<Rightarrow> 'w \<Rightarrow> 'h variant"
  cfg_set :: "'h tval \<Rightarrow> 'h variant \<Rightarrow> 'w \<Rightarrow> 'w"
  av_curTime :: "'w \<Rightarrow> int"

text \<open>The variants of the values handed around; a text is placed as by \<open>TVariant::setS\<close>.\<close>

definition vobj :: "'h option \<Rightarrow> 'h variant" where
  "vobj h = new_variant\<lparr>mType := Object, vval := VO h\<rparr>"

definition as_variant :: "vtype \<Rightarrow> 'h vstore \<Rightarrow> 'h variant" where
  "as_variant t st = new_variant\<lparr>mType := t, vval := (case st of VStd s \<Rightarrow> if length s < 8 then VMini s else VStd s | _ \<Rightarrow> st)\<rparr>"

section \<open>Reading\<close>

text \<open>
  The value of the own type: the time, when given and not zero, is asked of the archive if it is before
  the last period.  Without an archive or for the last period it is that of the configuration or the
  current value, which the owner brings up to date.
\<close>

definition own_now :: "('h, 'w) avenv \<Rightarrow> int option \<Rightarrow> bool \<Rightarrow> 'h tval \<Rightarrow> 'w \<Rightarrow> ('h variant \<times> int option \<times> 'h tval \<times> 'w) res" where
  "own_now A tm sys a w =
     (if a_cfg a then Inr (cfg_get A a w, map_option (\<lambda>_. av_curTime A w) tm, a, w)
      else rbind (if has_flg a DirRead \<and> \<not> sys then vlGet A a w else Inr (a, w)) (\<lambda>(a1, w1).
       Inr (as_variant (a_tp a) (a_val a1), map_option (\<lambda>_. a_time a1) tm, a1, w1)))"

definition own_get :: "('h, 'w) avenv \<Rightarrow> int option \<Rightarrow> bool \<Rightarrow> 'h tval \<Rightarrow> 'w \<Rightarrow> ('h variant \<times> int option \<times> 'h tval \<times> 'w) res" where
  "own_get A tm sys a0 w =
     (let a = a0\<lparr>a_req := True\<rparr>
      in case (tm, a_arch a) of
           (Some t, Some (per, src)) \<Rightarrow>
             if t = 0 then own_now A tm sys a w
             else if per = 0 then Inl DivZero
             else if tdiv t per < tdiv (a_time a) per
             then rbind (arch_get A t w) (\<lambda>(v, t', w1). Inr (v, Some t', a, w1))
             else own_now A tm sys a w
         | _ \<Rightarrow> own_now A tm sys a w)"

definition av_getO :: "'h venv \<Rightarrow> ('h, 'w) avenv \<Rightarrow> int option \<Rightarrow> bool \<Rightarrow> 'h tval \<Rightarrow> 'w
    \<Rightarrow> ('h option \<times> int option \<times> 'h tval \<times> 'w) res" where
  "av_getO E A tm sys a w =
     (if a_tp a \<noteq> Object then Inr (Some (newEVal E), tm, a, w)
      else if a_cfg a then Inr (Some (newEVal E), tm, a\<lparr>a_req := True\<rparr>, w)
      else rbind (own_now A tm sys (a\<lparr>a_req := True\<rparr>) w) (\<lambda>(v, tm', a', w').
        rbind (own_o (vval v)) (\<lambda>h. Inr (h, tm', a', w'))))"

text \<open>An object is asked for its class without the time and not by the system; what is read of it afterwards is
  \<open>f\<close>.  The text is that of a second reading.\<close>

definition obj_get :: "'h venv \<Rightarrow> ('h, 'w) avenv \<Rightarrow> int option \<Rightarrow> 'h tval \<Rightarrow> 'w \<Rightarrow> 'x
    \<Rightarrow> ('h tval \<Rightarrow> 'w \<Rightarrow> ('x \<times> 'h tval \<times> 'w) res) \<Rightarrow> ('x \<times> int option \<times> 'h tval \<times> 'w) res" where
  "obj_get E A tm a w ev f =
     rbind (av_getO E A None False a w) (\<lambda>(h, tm', a', w'). rbind (handle_at h) (\<lambda>x.
       if isEValObj E x then Inr (ev, tm, a', w')
       else rbind (f a' w') (\<lambda>(r, a'', w''). Inr (r, tm, a'', w''))))"

definition obj_text :: "'h venv \<Rightarrow> ('h, 'w) avenv \<Rightarrow> 'h tval \<Rightarrow> 'w \<Rightarrow> (string \<times> 'h tval \<times> 'w) res" where
  "obj_text E A a w = rbind (av_getO E A None False a w) (\<lambda>(h, tm', a', w'). rbind (handle_at h) (\<lambda>x.
     Inr (getStrXML E x, a', w')))"

definition get_by :: "(('h variant \<times> int option \<times> 'h tval \<times> 'w) res) \<Rightarrow> ('h variant \<Rightarrow> 'x res)
    \<Rightarrow> ('x \<times> int option \<times> 'h tval \<times> 'w) res" where
  "get_by r f = rbind r (\<lambda>(v, tm', a', w'). rbind (f v) (\<lambda>x. Inr (x, tm', a', w')))"

definition av_getS :: "'h venv \<Rightarrow> ('h, 'w) avenv \<Rightarrow> int option \<Rightarrow> bool \<Rightarrow> 'h tval \<Rightarrow> 'w
    \<Rightarrow> (string \<times> int option \<times> 'h tval \<times> 'w) res" where
  "av_getS E A tm sys a w = (case a_tp a of
       Integer \<Rightarrow> get_by (own_get A tm sys a w) (\<lambda>v. rbind (getI E v) (\<lambda>t. Inr (if t \<noteq> EVAL_INT then int_str t else EVAL_STR)))
     | Real \<Rightarrow> get_by (own_get A tm sys a w) (\<lambda>v. rbind (getR E v) (\<lambda>t. Inr (if \<not> feq t EVAL_REAL then r2s E t else EVAL_STR)))
     | Boolean \<Rightarrow> get_by (own_get A tm sys a w) (\<lambda>v. rbind (getB E v) (\<lambda>t. Inr (if t \<noteq> EVAL_BOOL then i2s (b2i (t \<noteq> 0)) Dec else EVAL_STR)))
     | Object \<Rightarrow> obj_get E A tm a w EVAL_STR (obj_text E A)
     | String \<Rightarrow> get_by (own_get A tm sys a w) (getS E)
     | Null \<Rightarrow> Inr (EVAL_STR, tm, a, w))"

definition av_getI :: "'h venv \<Rightarrow> ('h, 'w) avenv \<Rightarrow> int option \<Rightarrow> bool \<Rightarrow> 'h tval \<Rightarrow> 'w
    \<Rightarrow> (int \<times> int option \<times> 'h tval \<times> 'w) res" where
  "av_getI E A tm sys a w = (case a_tp a of
       String \<Rightarrow> get_by (own_get A tm sys a w) (\<lambda>v. rbind (getS E v) (\<lambda>t. Inr (if t \<noteq> EVAL_STR then s2ll t else EVAL_INT)))
     | Real \<Rightarrow> get_by (own_get A tm sys a w) (\<lambda>v. rbind (getR E v) (\<lambda>t. if \<not> feq t EVAL_REAL then r2i t else Inr EVAL_INT))
     | Boolean \<Rightarrow> get_by (own_get A tm sys a w) (\<lambda>v. rbind (getB E v) (\<lambda>t. Inr (if t \<noteq> EVAL_BOOL then b2i (t \<noteq> 0) else EVAL_INT)))
     | Object \<Rightarrow> obj_get E A tm a w EVAL_INT (\<lambda>a' w'. Inr (1, a', w'))
     | Integer \<Rightarrow> get_by (own_get A tm sys a w) (getI E)
     | Null \<Rightarrow> Inr (EVAL_INT, tm, a, w))"

definition av_getR :: "'h venv \<Rightarrow> ('h, 'w) avenv \<Rightarrow> int option \<Rightarrow> bool \<Rightarrow> 'h tval \<Rightarrow> 'w
    \<Rightarrow> (u64 \<times> int option \<times> 'h tval \<times> 'w) res" where
  "av_getR E A tm sys a w = (case a_tp a of
       String \<Rightarrow> get_by (own_get A tm sys a w) (\<lambda>v. rbind (getS E v) (\<lambda>t. Inr (if t \<noteq> EVAL_STR then s2r E t else EVAL_REAL)))
     | Integer \<Rightarrow> get_by (own_get A tm sys a w) (\<lambda>v. rbind (getI E v) (\<lambda>t. Inr (if t \<noteq> EVAL_INT then i2r t else EVAL_REAL)))
     | Boolean \<Rightarrow> get_by (own_get A tm sys a w) (\<lambda>v. rbind (getB E v) (\<lambda>t. Inr (if t \<noteq> EVAL_BOOL then i2r (b2i (t \<noteq> 0)) else EVAL_REAL)))
     | Object \<Rightarrow> obj_get E A tm a w EVAL_REAL (\<lambda>a' w'. Inr (i2r 1, a', w'))
     | Real \<Rightarrow> get_by (own_get A tm sys a w) (getR E)
     | Null \<Rightarrow> Inr (EVAL_REAL, tm, a, w))"

definition av_getB :: "'h venv \<Rightarrow> ('h, 'w) avenv \<Rightarrow> int option \<Rightarrow> bool \<Rightarrow> 'h tval \<Rightarrow> 'w
    \<Rightarrow> (int \<times> int option \<times> 'h tval \<times> 'w) res" where
  "av_getB E A tm sys a w = (case a_tp a of
       String \<Rightarrow> get_by (own_get A tm sys a w) (\<lambda>v. rbind (getS E v) (\<lambda>t. Inr (if t \<noteq> EVAL_STR then b2i (s2i t \<noteq> 0) else EVAL_BOOL)))
     | Integer \<Rightarrow> get_by (own_get A tm sys a w) (\<lambda>v. rbind (getI E v) (\<lambda>t. Inr (if t \<noteq> EVAL_INT then b2i (t \<noteq> 0) else EVAL_BOOL)))
     | Real \<Rightarrow> get_by (own_get A tm sys a w) (\<lambda>v. rbind (getR E v) (\<lambda>t. Inr (if \<not> feq t EVAL_REAL then b2i (fbool t) else EVAL_BOOL)))
     | Object \<Rightarrow> obj_get E A tm a w EVAL_BOOL (\<lambda>a' w'. Inr (1, a', w'))
     | Boolean \<Rightarrow> get_by (own_get A tm sys a w) (getB E)
     | Null \<Rightarrow> Inr (EVAL_BOOL, tm, a, w))"

text \<open>The value of the own type as a variant.\<close>

definition av_get :: "'h venv \<Rightarrow> ('h, 'w) avenv \<Rightarrow> int option \<Rightarrow> bool \<Rightarrow> 'h tval \<Rightarrow> 'w
    \<Rightarrow> ('h variant \<times> int option \<times> 'h tval \<times> 'w) res" where
  "av_get E A tm sys a w = (case a_tp a of
       Integer \<Rightarrow> rbind (av_getI E A tm sys a w) (\<lambda>(t, r). rbind (setI t new_variant) (\<lambda>v. Inr (v, r)))
     | Real \<Rightarrow> rbind (av_getR E A tm sys a w) (\<lambda>(t, r). rbind (setR E t new_variant) (\<lambda>v. Inr (v, r)))
     | Boolean \<Rightarrow> rbind (av_getB E A tm sys a w) (\<lambda>(t, r). rbind (setB t new_variant) (\<lambda>v. Inr (v, r)))
     | String \<Rightarrow> rbind (av_getS E A tm sys a w) (\<lambda>(t, r). rbind (setS E t new_variant) (\<lambda>v. Inr (v, r)))
     | Object \<Rightarrow> rbind (av_getO E A tm sys a w) (\<lambda>(t, r). rbind (setO t new_variant) (\<lambda>v. Inr (v, r)))
     | Null \<Rightarrow> rbind (setS E EVAL_STR new_variant) (\<lambda>v. Inr (v, tm, a, w)))"

section \<open>Writing\<close>

text \<open>The storing to the connected archive; too old a value clears its buffer.\<close>

definition to_arch :: "('h, 'w) avenv \<Rightarrow> 'h variant \<Rightarrow> 'h tval \<Rightarrow> 'w \<Rightarrow> 'w" where
  "to_arch A v a w = (case a_arch a of
       Some (per, True) \<Rightarrow> (case arch_put A v (a_time a) w of
           (Some cod, w1) \<Rightarrow> if cod = Arch_Val_OldBufVl then arch_clear A w1 else w1
         | (None, w1) \<Rightarrow> w1)
     | _ \<Rightarrow> w)"

text \<open>
  Writing the own type: the value \<open>st\<close> is already within the limits, \<open>pvl\<close> is what the owner gets as
  the previous value.
\<close>

definition av_put :: "('h, 'w) avenv \<Rightarrow> 'h vstore \<Rightarrow> 'h variant \<Rightarrow> int \<Rightarrow> bool \<Rightarrow> 'h tval \<Rightarrow> 'w \<Rightarrow> ('h tval \<times> 'w) res" where
  "av_put A st pvl tm sys a w =
     (let a1 = a\<lparr>a_val := st, a_time := (if tm = 0 then av_curTime A w else tm)\<rparr>; v = as_variant (a_tp a) st
      in rbind (if has_flg a DirWrite \<and> \<not> sys then vlSet A a1 v pvl w else Inr (a1, w)) (\<lambda>(a2, w2).
           Inr (a2, if a_tp a = Object then w2 else to_arch A v a2 w2)))"

text \<open>A bound attribute writes the configuration; one that is not writable is left as it is.\<close>

definition guarded :: "('h, 'w) avenv \<Rightarrow> 'h vstore \<Rightarrow> bool \<Rightarrow> 'h tval \<Rightarrow> 'w \<Rightarrow> ('h tval \<times> 'w) res \<Rightarrow> ('h tval \<times> 'w) res" where
  "guarded A st sys a w r =
     (if a_cfg a then Inr (a, cfg_set A a (as_variant (a_tp a) st) w)
      else if \<not> sys \<and> has_flg a NoWrite then Inr (a, w) else r)"

definition lim_int :: "'h tval \<Rightarrow> int \<Rightarrow> int" where
  "lim_int a v =
     (let lo = fst (a_limI a); hi = snd (a_limI a); m = (if lo > v then lo else v)
      in if \<not> has_flg a Selectable \<and> hi > lo \<and> v \<noteq> EVAL_INT then (if hi < m then hi else m) else v)"

definition lim_real :: "'h tval \<Rightarrow> u64 \<Rightarrow> u64" where
  "lim_real a v =
     (let lo = fst (a_limR a); hi = snd (a_limR a); m = (if flt v lo then lo else v)
      in if \<not> has_flg a Selectable \<and> flt lo hi \<and> \<not> feq v EVAL_REAL then (if flt hi m then hi else m) else v)"

text \<open>The previous integer is kept in an \<open>int\<close>.\<close>

definition av_putI :: "('h, 'w) avenv \<Rightarrow> int \<Rightarrow> int \<Rightarrow> bool \<Rightarrow> 'h tval \<Rightarrow> 'w \<Rightarrow> ('h tval \<times> 'w) res" where
  "av_putI A v tm sys a w = guarded A (VI v) sys a w (rbind (own_i (a_val a)) (\<lambda>p.
     av_put A (VI (lim_int a v)) (as_variant Integer (VI (to_i32 p))) tm sys a w))"

definition av_putR :: "('h, 'w) avenv \<Rightarrow> u64 \<Rightarrow> int \<Rightarrow> bool \<Rightarrow> 'h tval \<Rightarrow> 'w \<Rightarrow> ('h tval \<times> 'w) res" where
  "av_putR A v0 tm sys a w =
     (let v = (if is_nan v0 then EVAL_REAL else v0)
      in guarded A (VR v) sys a w (rbind (own_r (a_val a)) (\<lambda>p. av_put A (VR (lim_real a v)) (as_variant Real (VR p)) tm sys a w)))"

definition av_putB :: "('h, 'w) avenv \<Rightarrow> int \<Rightarrow> int \<Rightarrow> bool \<Rightarrow> 'h tval \<Rightarrow> 'w \<Rightarrow> ('h tval \<times> 'w) res" where
  "av_putB A v tm sys a w = guarded A (VB v) sys a w (rbind (own_b (a_val a)) (\<lambda>p.
     av_put A (VB v) (as_variant Boolean (VB p)) tm sys a w))"

definition av_putS :: "('h, 'w) avenv \<Rightarrow> string \<Rightarrow> int \<Rightarrow> bool \<Rightarrow> 'h tval \<Rightarrow> 'w \<Rightarrow> ('h tval \<times> 'w) res" where
  "av_putS A v tm sys a w = guarded A (VStd v) sys a w (rbind (own_s (a_val a)) (\<lambda>p.
     av_put A (VStd v) (as_variant String (VStd p)) tm sys a w))"

definition av_setO :: "('h, 'w) avenv \<Rightarrow> 'h option \<Rightarrow> int \<Rightarrow> bool \<Rightarrow> 'h tval \<Rightarrow> 'w \<Rightarrow> ('h tval \<times> 'w) res" where
  "av_setO A v tm sys a w =
     (if a_cfg a \<or> a_tp a \<noteq> Object then Inr (a, w)
      else if \<not> sys \<and> has_flg a NoWrite then Inr (a, w)
      else rbind (own_o (a_val a)) (\<lambda>p. av_put A (VO v) (vobj p) tm sys a w))"

definition av_setB :: "'h venv \<Rightarrow> ('h, 'w) avenv \<Rightarrow> int \<Rightarrow> int \<Rightarrow> bool \<Rightarrow> 'h tval \<Rightarrow> 'w \<Rightarrow> ('h tval \<times> 'w) res" where
  "av_setB E A v tm sys a w = (case a_tp a of
       String \<Rightarrow> av_putS A (if v \<noteq> EVAL_BOOL then i2s (b2i (v \<noteq> 0)) Dec else EVAL_STR) tm sys a w
     | Integer \<Rightarrow> av_putI A (if v \<noteq> EVAL_BOOL then b2i (v \<noteq> 0) else EVAL_INT) tm sys a w
     | Real \<Rightarrow> av_putR A (if v \<noteq> EVAL_BOOL then i2r (b2i (v \<noteq> 0)) else EVAL_REAL) tm sys a w
     | Object \<Rightarrow> if v = EVAL_BOOL then av_setO A (Some (newEVal E)) tm sys a w else Inr (a, w)
     | Boolean \<Rightarrow> av_putB A v tm sys a w
     | Null \<Rightarrow> Inr (a, w))"

definition av_setI :: "'h venv \<Rightarrow> ('h, 'w) avenv \<Rightarrow> int \<Rightarrow> int \<Rightarrow> bool \<Rightarrow> 'h tval \<Rightarrow> 'w \<Rightarrow> ('h tval \<times> 'w) res" where
  "av_setI E A v tm sys a w = (case a_tp a of
       String \<Rightarrow> av_putS A (if v \<noteq> EVAL_INT then int_str v else EVAL_STR) tm sys a w
     | Real \<Rightarrow> av_putR A (if v \<noteq> EVAL_INT then i2r v else EVAL_REAL) tm sys a w
     | Boolean \<Rightarrow> av_putB A (if v \<noteq> EVAL_INT then b2i (v \<noteq> 0) else EVAL_BOOL) tm sys a w
     | Object \<Rightarrow> if v = EVAL_INT then av_setO A (Some (newEVal E)) tm sys a w else Inr (a, w)
     | Integer \<Rightarrow> av_putI A v tm sys a w
     | Null \<Rightarrow> Inr (a, w))"

definition av_setR :: "'h venv \<Rightarrow> ('h, 'w) avenv \<Rightarrow> u64 \<Rightarrow> int \<Rightarrow> bool \<Rightarrow> 'h tval \<Rightarrow> 'w \<Rightarrow> ('h tval \<times> 'w) res" where
  "av_setR E A v tm sys a w = (case a_tp a of
       String \<Rightarrow> av_putS A (if \<not> feq v EVAL_REAL then r2s E v else EVAL_STR) tm sys a w
     | Integer \<Rightarrow> rbind (if \<not> feq v EVAL_REAL then r2i v else Inr EVAL_INT) (\<lambda>i. av_putI A i tm sys a w)
     | Boolean \<Rightarrow> av_putB A (if \<not> feq v EVAL_REAL then b2i (fbool v) else EVAL_BOOL) tm sys a w
     | Object \<Rightarrow> if feq v EVAL_REAL then av_setO A (Some (newEVal E)) tm sys a w else Inr (a, w)
     | Real \<Rightarrow> av_putR A v tm sys a w
     | Null \<Rightarrow> Inr (a, w))"

definition av_setS :: "'h venv \<Rightarrow> ('h, 'w) avenv \<Rightarrow> string \<Rightarrow> int \<Rightarrow> bool \<Rightarrow> 'h tval \<Rightarrow> 'w \<Rightarrow> ('h tval \<times> 'w) res" where
  "av_setS E A v tm sys a w = (case a_tp a of
       Integer \<Rightarrow> av_putI A (if v \<noteq> EVAL_STR then s2ll v else EVAL_INT) tm sys a w
     | Real \<Rightarrow> av_putR A (if v \<noteq> EVAL_STR then s2r E v else EVAL_REAL) tm sys a w
     | Boolean \<Rightarrow> av_putB A (if v \<noteq> EVAL_STR then b2i (s2i v \<noteq> 0) else EVAL_BOOL) tm sys a w
     | Object \<Rightarrow> if v \<noteq> EVAL_STR
         then rbind (av_getO E A None True a w) (\<lambda>(h, tm', a', w'). av_setO A (parseStrXML E v h) tm sys a' w')
         else av_setO A (Some (newEVal E)) tm sys a w
     | String \<Rightarrow> av_putS A v tm sys a w
     | Null \<Rightarrow> Inr (a, w))"

definition av_set :: "'h venv \<Rightarrow> ('h, 'w) avenv \<Rightarrow> 'h variant \<Rightarrow> int \<Rightarrow> bool \<Rightarrow> 'h tval \<Rightarrow> 'w \<Rightarrow> ('h tval \<times> 'w) res" where
  "av_set E A v tm sys a w = (case a_tp a of
       Integer \<Rightarrow> rbind (getI E v) (\<lambda>t. av_setI E A t tm sys a w)
     | Real \<Rightarrow> rbind (getR E v) (\<lambda>t. av_setR E A t tm sys a w)
     | Boolean \<Rightarrow> rbind (getB E v) (\<lambda>t. av_setB E A t tm sys a w)
     | String \<Rightarrow> rbind (getS E v) (\<lambda>t. av_setS E A t tm sys a w)
     | Object \<Rightarrow> rbind (getO E v) (\<lambda>t. av_setO A (Some t) tm sys a w)
     | Null \<Rightarrow> Inr (a, w))"

section \<open>The limits and the types are kept\<close>

definition in_limI :: "'h tval \<Rightarrow> int \<Rightarrow> bool" where
  "in_limI a i \<longleftrightarrow> (\<not> has_flg a Selectable \<and> fst (a_limI a) < snd (a_limI a) \<longrightarrow>
     i = EVAL_INT \<or> fst (a_limI a) \<le> i \<and> i \<le> snd (a_limI a))"

definition in_limR :: "'h tval \<Rightarrow> u64 \<Rightarrow> bool" where
  "in_limR a r \<longleftrightarrow> \<not> is_nan r \<and> (\<not> has_flg a Selectable \<and> flt (fst (a_limR a)) (snd (a_limR a)) \<longrightarrow>
     feq r EVAL_REAL \<or> \<not> flt r (fst (a_limR a)) \<and> \<not> flt (snd (a_limR a)) r)"

definition attr_ok :: "'h tval \<Rightarrow> bool" where
  "attr_ok a \<longleftrightarrow> (case a_tp a of
       Integer \<Rightarrow> (\<exists>i. a_val a = VI i \<and> in_limI a i)
     | Real \<Rightarrow> (\<exists>r. a_val a = VR r \<and> in_limR a r)
     | Boolean \<Rightarrow> (\<exists>b. a_val a = VB b)
     | String \<Rightarrow> (\<exists>s. a_val a = VStd s)
     | Object \<Rightarrow> (\<exists>h. a_val a = VO h)
     | Null \<Rightarrow> True)"

text \<open>The field of an attribute does not change with its value.\<close>

definition same_fld :: "'h tval \<Rightarrow> 'h tval \<Rightarrow> bool" where
  "same_fld a b \<longleftrightarrow> a_id b = a_id a \<and> a_tp b = a_tp a \<and> a_flg b = a_flg a \<and> a_limI b = a_limI a \<and> a_limR b = a_limR a"

lemma same_fld_refl [simp]: "same_fld a a"
  by (simp add: same_fld_def)

lemma same_fld_trans: "same_fld a b \<Longrightarrow> same_fld b c \<Longrightarrow> same_fld a c"
  by (simp add: same_fld_def)

text \<open>An owner that returns and leaves the attribute one of its field.\<close>

definition owner_ok :: "('h, 'w) avenv \<Rightarrow> bool" where
  "owner_ok A \<longleftrightarrow> (\<forall>a v p w. attr_ok a \<longrightarrow> (\<exists>a' w'. vlSet A a v p w = Inr (a', w') \<and> attr_ok a' \<and> same_fld a a'))"

definition writes_ok :: "'h tval \<Rightarrow> ('h tval \<times> 'w) res \<Rightarrow> bool" where
  "writes_ok a r \<longleftrightarrow> (\<exists>a' w'. r = Inr (a', w') \<and> attr_ok a' \<and> same_fld a a')"

lemma writes_ok_self [simp]: "attr_ok a \<Longrightarrow> writes_ok a (Inr (a, w))"
  by (simp add: writes_ok_def)

lemma lim_int_ok: "in_limI a (lim_int a v)"
  by (simp add: in_limI_def lim_int_def Let_def)

lemma lim_real_ok: "\<not> is_nan v \<Longrightarrow> in_limR a (lim_real a v)"
  by (auto simp: in_limR_def lim_real_def Let_def flt_def)

lemma put_ok:
  assumes "owner_ok A" "attr_ok (a\<lparr>a_val := st, a_time := (if tm = 0 then av_curTime A w else tm)\<rparr>)"
  shows "writes_ok a (av_put A st pvl tm sys a w)"
proof -
  define a1 where "a1 = a\<lparr>a_val := st, a_time := (if tm = 0 then av_curTime A w else tm)\<rparr>"
  have s: "same_fld a a1" by (simp add: a1_def same_fld_def)
  obtain a2 w2 where v: "vlSet A a1 (as_variant (a_tp a) st) pvl w = Inr (a2, w2)" "attr_ok a2" "same_fld a1 a2"
    using assms unfolding owner_ok_def a1_def [symmetric] by blast
  have "a_time a1 = (if tm = 0 then av_curTime A w else tm)" by (simp add: a1_def)
  then show ?thesis
    using v assms(2) s same_fld_trans [OF s v(3)]
    by (simp add: av_put_def Let_def a1_def [symmetric] writes_ok_def)
qed

lemma guarded_ok: "attr_ok a \<Longrightarrow> writes_ok a r \<Longrightarrow> writes_ok a (guarded A st sys a w r)"
  by (simp add: guarded_def)

lemma puts_ok:
  assumes "owner_ok A" "attr_ok a"
  shows "a_tp a = Integer \<Longrightarrow> writes_ok a (av_putI A i tm sys a w)" "a_tp a = Real \<Longrightarrow> writes_ok a (av_putR A r tm sys a w)"
    "a_tp a = Boolean \<Longrightarrow> writes_ok a (av_putB A b tm sys a w)" "a_tp a = String \<Longrightarrow> writes_ok a (av_putS A s tm sys a w)"
    "a_tp a = Object \<Longrightarrow> writes_ok a (av_setO A h tm sys a w)"
proof -
  have n: "\<not> is_nan (if is_nan r then EVAL_REAL else r)" by (simp add: is_nan_def fexp_def ffrac_def EVAL_REAL_def)
  have i: "in_limI (a\<lparr>a_val := st, a_time := t\<rparr>) = in_limI a" "in_limR (a\<lparr>a_val := st, a_time := t\<rparr>) = in_limR a" for st t
    by (simp_all add: in_limI_def in_limR_def has_flg_def fun_eq_iff)
  note P = put_ok [OF assms(1)] guarded_ok [OF assms(2)]
  show "writes_ok a (av_putI A i tm sys a w)" if "a_tp a = Integer"
    using that assms(2) unfolding av_putI_def by (intro P) (auto simp: attr_ok_def i intro!: put_ok assms(1) lim_int_ok)
  show "writes_ok a (av_putR A r tm sys a w)" if "a_tp a = Real"
    using that assms(2) lim_real_ok [OF n] unfolding av_putR_def Let_def
    by (intro P) (auto simp: attr_ok_def i intro!: put_ok assms(1))
  show "writes_ok a (av_putB A b tm sys a w)" if "a_tp a = Boolean"
    using that assms(2) unfolding av_putB_def by (intro P) (auto simp: attr_ok_def intro!: put_ok assms(1))
  show "writes_ok a (av_putS A s tm sys a w)" if "a_tp a = String"
    using that assms(2) unfolding av_putS_def by (intro P) (auto simp: attr_ok_def intro!: put_ok assms(1))
  show "writes_ok a (av_setO A h tm sys a w)" if "a_tp a = Object"
    using that assms(2) by (auto simp: attr_ok_def av_setO_def intro!: put_ok assms(1))
qed

text \<open>A sequence of writes of values.\<close>

datatype 'h awrite = WB int | WI int | WR u64 | WS string | WO "'h option"

definition av_write :: "'h venv \<Rightarrow> ('h, 'w) avenv \<Rightarrow> 'h awrite \<Rightarrow> int \<Rightarrow> bool \<Rightarrow> 'h tval \<Rightarrow> 'w \<Rightarrow> ('h tval \<times> 'w) res" where
  "av_write E A op tm sys a w = (case op of
       WB v \<Rightarrow> av_setB E A v tm sys a w
     | WI v \<Rightarrow> av_setI E A v tm sys a w
     | WR v \<Rightarrow> av_setR E A v tm sys a w
     | WS v \<Rightarrow> av_setS E A v tm sys a w
     | WO v \<Rightarrow> av_setO A v tm sys a w)"

fun av_writes :: "'h venv \<Rightarrow> ('h, 'w) avenv \<Rightarrow> ('h awrite \<times> int \<times> bool) list \<Rightarrow> 'h tval \<Rightarrow> 'w \<Rightarrow> ('h tval \<times> 'w) res" where
  "av_writes E A [] a w = Inr (a, w)"
| "av_writes E A ((op, tm, sys) # ops) a w = rbind (av_write E A op tm sys a w) (\<lambda>(a', w'). av_writes E A ops a' w')"

text \<open>The conversion of the double is defined.\<close>

fun write_defined :: "vtype \<Rightarrow> 'h awrite \<Rightarrow> bool" where
  "write_defined Integer (WR r) = (feq r EVAL_REAL \<or> (\<exists>i. r2i r = Inr i))"
| "write_defined _ _ = True"

lemma write_ok:
  assumes "owner_ok A" "attr_ok a" "write_defined (a_tp a) op"
  shows "writes_ok a (av_write E A op tm sys a w)"
proof -
  note P = puts_ok [OF assms(1,2)]
  have o: "writes_ok a (av_setS E A s tm sys a w)" if ob: "a_tp a = Object" for s
  proof -
    define a1 where "a1 = a\<lparr>a_req := True\<rparr>"
    obtain h where h: "a_val a = VO h" using ob assms(2) by (auto simp: attr_ok_def)
    have g: "\<exists>x. av_getO E A None True a w = Inr (x, None, a1, w)"
      using ob h by (simp add: av_getO_def own_now_def as_variant_def a1_def)
    have "attr_ok a1" "a_tp a1 = Object" "same_fld a a1" using ob h by (simp_all add: attr_ok_def same_fld_def a1_def)
    then have "writes_ok a (av_setO A x tm sys a1 w)" for x
      using puts_ok(5) [OF assms(1), of a1 x tm sys w] by (auto simp: writes_ok_def dest: same_fld_trans)
    then show ?thesis using ob g P(5) by (auto simp: av_setS_def)
  qed
  show ?thesis
  proof (cases op)
    case (WR r)
    then show ?thesis using P assms(2,3)
      by (cases "a_tp a") (auto simp: av_write_def av_setR_def)
  next
    case (WS s)
    then show ?thesis using P o assms(2) by (cases "a_tp a") (simp_all add: av_write_def av_setS_def)
  qed (use P assms(2) in \<open>cases "a_tp a"; simp add: av_write_def av_setB_def av_setI_def av_setO_def\<close>)+
qed

text \<open>C36. However an attribute is written, by the system or by a user, with values of any type: the writes end,
  the attribute keeps a value of its type, an integer or a real with limits is within them or is the reserved
  value, and a real is never NaN. The doubles written to an integer attribute are those with a defined
  conversion, and the owner returns and respects the field.\<close>

theorem attr_writes_ok:
  assumes "owner_ok A" "attr_ok a" "\<forall>(op, tm, sys) \<in> set ops. write_defined (a_tp a) op"
  shows "\<exists>a' w'. av_writes E A ops a w = Inr (a', w') \<and> attr_ok a' \<and> same_fld a a'"
  using assms(2,3)
proof (induction ops arbitrary: a w)
  case (Cons x ops)
  obtain op tm sys where x: "x = (op, tm, sys)" by (cases x)
  obtain a1 w1 where w: "av_write E A op tm sys a w = Inr (a1, w1)" "attr_ok a1" "same_fld a a1"
    using write_ok [OF assms(1) Cons.prems(1), of op E tm sys w] Cons.prems(2) x by (auto simp: writes_ok_def)
  have "a_tp a1 = a_tp a" using w(3) by (simp add: same_fld_def)
  then obtain a2 w2 where "av_writes E A ops a1 w1 = Inr (a2, w2)" "attr_ok a2" "same_fld a1 a2"
    using Cons.IH [OF w(2), of w1] Cons.prems(2) by auto
  then show ?case using w x same_fld_trans [OF w(3)] by auto
qed simp

definition wit_attr :: "nat tval" where
  "wit_attr = \<lparr>a_id = ''a'', a_tp = Integer, a_flg = DirWrite, a_def = [], a_limI = (0, 100), a_limR = (0, 0), a_descr = [], a_res = [],
     a_val = VI EVAL_INT, a_time = 0, a_req = False, a_cfg = False, a_arch = None\<rparr>"

definition wit_owner :: "(nat, int) avenv" where
  "wit_owner = \<lparr>vlGet = (\<lambda>a w. Inr (a, w)), vlSet = (\<lambda>a v p w. Inr (a, w + 1)), arch_get = (\<lambda>t w. Inr (new_variant, t, w)),
     arch_put = (\<lambda>v t w. (None, w)), arch_clear = (\<lambda>w. w), cfg_get = (\<lambda>a w. new_variant), cfg_set = (\<lambda>a v w. w), av_curTime = (\<lambda>w. 5)\<rparr>"

lemma attr_writes_ok_witness:
  "\<exists>a' w'. av_writes wit_env wit_owner [(WI 200, 0, False), (WS ''7'', 0, True), (WB EVAL_BOOL, 3, False)] wit_attr 0 = Inr (a', w')
     \<and> attr_ok a' \<and> same_fld wit_attr a'"
  by (rule attr_writes_ok)
    (auto simp: owner_ok_def wit_owner_def wit_attr_def attr_ok_def in_limI_def)

end
