(* ===== verification/Modbus_Param.thy ===== *)
theory Modbus_Param
  imports Modbus_Blocks Tvalue
begin

text \<open>
  The standard parameter of the ModBus data source (\<open>TMdPrm\<close> of
  \<^verbatim>\<open>src/src/moduls/daq/ModBus/modbus_daq.cpp\<close>): the attributes made of the lines of its
  configuration with the registering of their registers, the update of the attributes from the blocks of
  acquisition, and the reading and writing of an attribute by a user (\<open>vlGet\<close>, \<open>vlSet\<close>), which meets the
  attributes of \<open>Tvalue\<close> and the controller of \<open>Modbus_Daq\<close>.

  The parameters by templates (\<open>isLogic\<close>), the redundancy, the node tree and the storage are not modelled; the
  deletion of an attribute that is no longer configured succeeds.  The text of \<open>getStatus\<close>, the archives
  and the clock are parameters.
\<close>

section \<open>The parameter\<close>

text \<open>\<open>prm_base\<close> has the attributes of every parameter, besides the configured ones.\<close>

record 'h mdprm =
  prm_en :: bool
  attrLs :: string
  prm_base :: "string list"
  pEl :: "'h tval list"
  acqErr :: string

definition fldPresent :: "string \<Rightarrow> 'h tval list \<Rightarrow> bool" where
  "fldPresent i el \<longleftrightarrow> i \<in> a_id ` set el"

definition new_attr :: "'h venv \<Rightarrow> string \<Rightarrow> vtype \<Rightarrow> 'h tval" where
  "new_attr E i t = av_setFld E \<lparr>a_id = i, a_tp = t, a_flg = 0, a_def = [], a_limI = (0, 0), a_limR = (0, 0),
     a_descr = [], a_res = [], a_val = VNone, a_time = 0, a_req = False, a_cfg = False, a_arch = None\<rparr>"

text \<open>A new field, or one of another type, goes to the end.\<close>

definition fld_take :: "'h venv \<Rightarrow> string \<Rightarrow> vtype \<Rightarrow> 'h tval list \<Rightarrow> 'h tval list" where
  "fld_take E i t el =
     (case List.find (\<lambda>a. a_id a = i) el of
        Some a \<Rightarrow> if a_tp a = t then el else filter (\<lambda>b. a_id b \<noteq> i) el @ [new_attr E i t]
      | None \<Rightarrow> el @ [new_attr E i t])"

definition fld_upd :: "string \<Rightarrow> ('h tval \<Rightarrow> 'h tval) \<Rightarrow> 'h tval list \<Rightarrow> 'h tval list" where
  "fld_upd i f el = map (\<lambda>a. if a_id a = i then f a else a) el"

section \<open>The lines of the configuration\<close>

text \<open>The next line begins after the one before.\<close>

lemma strLine_next:
  assumes "strLine s 0 (Some (int i)) = (sel, e)" "sel \<noteq> [] \<or> (case e of Some x \<Rightarrow> x | None \<Rightarrow> int i) < size_of s"
  shows "int i < (case e of Some x \<Rightarrow> x | None \<Rightarrow> int i) \<and> int i < size_of s"
proof -
  have i: "int i < size_of s" using assms by (auto simp: strLine_def Let_def split: if_splits)
  then have "i < length s" by (simp add: size_of_def)
  then have "i < snd (line_loop s 0 i 0)" by (auto simp: line_loop.simps [of s 0 i 0] Let_def)
  then show ?thesis using i assms(1) by (auto simp: strLine_def Let_def split: prod.splits)
qed

text \<open>The loop over the lines of a text.\<close>

function attr_lines :: "string \<Rightarrow> nat \<Rightarrow> string list" where
  "attr_lines s ioff =
     (case strLine s 0 (Some (int ioff)) of
        (sel, e) \<Rightarrow> let off' = (case e of Some x \<Rightarrow> x | None \<Rightarrow> int ioff)
                    in if sel \<noteq> [] \<or> off' < size_of s then sel # attr_lines s (nat off') else [])"
  by pat_completeness auto
termination
  by (relation "measure (\<lambda>(s, ioff). nat (size_of s - int ioff))") (auto dest!: strLine_next [OF sym])

declare attr_lines.simps [simp del]

text \<open>The parts of a line: the type, the address, the flags, the identifier and the name.\<close>

definition line_parts :: "string \<Rightarrow> (string \<times> string \<times> string \<times> string \<times> string) res" where
  "line_parts sel =
     rbind (parse_off sel 0) (\<lambda>(atp, o1). rbind (parse_off sel o1) (\<lambda>(ai, o2). rbind (parse_off sel o2) (\<lambda>(aflg, o3).
     rbind (parse_off sel o3) (\<lambda>(aid0, o4). rbind (ssubstr sel o4 (-1)) (\<lambda>anm0.
       let aid = (if aid0 = [] then ai else aid0)
       in Inr (if atp = [] then ''R'' else atp, ai, aflg, aid, if anm0 = [] then aid else anm0))))))"

definition line_type :: "string \<Rightarrow> string \<Rightarrow> vtype" where
  "line_type atp atp_sub =
     (if at atp 0 = CHR ''C'' \<or> at atp_sub 0 = CHR ''b'' then Boolean
      else if atp_sub = ''f'' \<or> atp_sub = ''d'' then Real
      else if at atp_sub 0 = CHR ''s'' then String
      else Integer)"

definition line_flg :: "string \<Rightarrow> string \<Rightarrow> u32" where
  "line_flg atp aflg =
     (let r = CHR ''r'' \<in> set aflg; w = CHR ''w'' \<in> set aflg;
          flg = (if r \<and> w then DirWrite OR DirRead else if w then DirWrite else NoWrite OR DirRead)
      in if at atp 1 = CHR ''I'' then (flg AND NOT DirWrite) OR NoWrite else flg)"

text \<open>Registering when the attribute is read.\<close>

fun regVals_if :: "bool \<Rightarrow> int list \<Rightarrow> string \<Rightarrow> 's mdcontr \<Rightarrow> 's mdcontr res" where
  "regVals_if rd [] dt C = Inr C"
| "regVals_if rd (r # rs) dt C = (if rd then rbind (regVal r dt False C) (regVals_if rd rs dt) else Inr C)"

definition nums :: "int list \<Rightarrow> string" where
  "nums rs = (case rs of [] \<Rightarrow> [] | r # qs \<Rightarrow> int_str r @ concat (map (\<lambda>q. '','' @ int_str q) qs))"

definition nums_dir :: "string \<Rightarrow> int list \<Rightarrow> string" where
  "nums_dir aflg rs = nums (if CHR ''~'' \<notin> set aflg then rs else rev rs)"

text \<open>The registers of an attribute: the type and the address of its reserve, and the registering.\<close>

definition line_regs :: "string \<Rightarrow> string \<Rightarrow> string \<Rightarrow> string \<Rightarrow> string \<Rightarrow> bool \<Rightarrow> 's mdcontr \<Rightarrow> (string \<times> string \<times> 's mdcontr) res" where
  "line_regs atp atp_m atp_sub ai aflg rd C =
     (let reg = to_i32 (strtol 0 ai)
      in rbind (if rd then regVal reg atp_m (CHR ''s'' \<in> set aflg) C else Inr C) (\<lambda>C1.
         if at atp 0 \<noteq> CHR ''R'' then Inr (atp, ai, C1)
         else if atp_sub = ''b'' then
           rbind (parse0 ai 1 ''.'') (\<lambda>b. rbind (parse0 ai 0 ''.'') (\<lambda>ai'. Inr (atp @ b, ai', C1)))
         else if atp_sub = ''i4'' \<or> atp_sub = ''u4'' \<or> atp_sub = ''f'' then
           rbind (reg_next ai 1 reg) (\<lambda>reg2.
           rbind (regVals_if rd [reg2] atp_m C1) (\<lambda>C2. Inr (atp, nums_dir aflg [reg, reg2], C2)))
         else if atp_sub = ''i8'' \<or> atp_sub = ''d'' then
           rbind (reg_next ai 1 reg) (\<lambda>reg2. rbind (reg_next ai 2 reg2) (\<lambda>reg3. rbind (reg_next ai 3 reg3) (\<lambda>reg4.
           rbind (regVals_if rd [reg2, reg3, reg4] atp_m C1) (\<lambda>C2. Inr (atp, nums_dir aflg [reg, reg2, reg3, reg4], C2)))))
         else if atp_sub = ''s'' then
           rbind (parse0 ai 1 '','') (\<lambda>t.
           let rN0 = max 0 (min 100 (strtol 0 t)); rN = (if rN0 = 0 then 10 else rN0)
           in rbind (regVals_if rd [reg + 1 .. reg + rN - 1] atp_m C1) (\<lambda>C2. Inr (atp, nums [reg, rN], C2)))
         else Inr (atp, ai, C1)))"

text \<open>One line: \<open>als\<close> has the identifiers of the lines before.\<close>

definition attr_line :: "'h venv \<Rightarrow> string list \<Rightarrow> string \<Rightarrow> string list \<times> 'h tval list \<times> 's mdcontr
    \<Rightarrow> (string list \<times> 'h tval list \<times> 's mdcontr) res" where
  "attr_line E base sel = (\<lambda>(als, el, C).
     if sel = [] \<or> at sel 0 = CHR ''#'' then Inr (als, el, C)
     else rbind (line_parts sel) (\<lambda>(atp, ai, aflg, aid, anm).
          rbind (parse0 atp 0 ''_'') (\<lambda>atp_m. rbind (parse0 atp 1 ''_'') (\<lambda>atp_sub.
     if aid = [] \<or> (aid \<in> set base \<and> \<not> fldPresent aid el) \<or> aid \<in> set als then Inr (als, el, C)
     else let flg = line_flg atp aflg;
              el1 = fld_upd aid (\<lambda>a. a\<lparr>a_flg := flg, a_descr := anm\<rparr>) (fld_take E aid (line_type atp atp_sub) el)
          in rbind (if flg AND (DirRead OR DirWrite) \<noteq> 0 then line_regs atp atp_m atp_sub ai aflg (flg AND DirRead \<noteq> 0) C
                    else Inr (atp, ai, C)) (\<lambda>(atp', ai', C1).
             Inr (aid # als, fld_upd aid (\<lambda>a. a\<lparr>a_res := atp' @ '':'' @ ai' @ '':'' @ aflg\<rparr>) el1, C1))))))"

fun attr_each :: "'h venv \<Rightarrow> string list \<Rightarrow> string list \<Rightarrow> string list \<times> 'h tval list \<times> 's mdcontr
    \<Rightarrow> (string list \<times> 'h tval list \<times> 's mdcontr) res" where
  "attr_each E base [] st = Inr st"
| "attr_each E base (l # ls) st = rbind (attr_line E base l st) (attr_each E base ls)"

text \<open>The attributes that are no longer configured go away.\<close>

definition prm_drop :: "string list \<Rightarrow> 'h tval list \<Rightarrow> 'h tval list" where
  "prm_drop als el = filter (\<lambda>a. a_id a \<in> set als) el"

definition loadDATA :: "'h venv \<Rightarrow> 'h mdprm \<Rightarrow> 's mdcontr \<Rightarrow> ('h mdprm \<times> 's mdcontr) res" where
  "loadDATA E P C =
     rbind (attr_each E (prm_base P) (attr_lines (attrLs P) 0) ([], pEl P, C)) (\<lambda>(als, el, C1).
       Inr (P\<lparr>pEl := prm_drop als el\<rparr>, C1))"

definition prm_enable :: "'h venv \<Rightarrow> 'h mdprm \<Rightarrow> 's mdcontr \<Rightarrow> ('h mdprm \<times> 's mdcontr) res" where
  "prm_enable E P C = (if prm_en P then Inr (P, C) else loadDATA E (P\<lparr>prm_en := True\<rparr>) C)"

section \<open>The owner of the attributes\<close>

text \<open>No attribute is bound to the configuration.  The archives and the clock over a state of their own; the state of an owner is it with the controller and \<open>acqErr\<close>.\<close>

record ('h, 'q) archenv =
  ar_get :: "int \<Rightarrow> 'q \<Rightarrow> ('h variant \<times> int \<times> 'q) res"
  ar_put :: "'h variant \<Rightarrow> int \<Rightarrow> 'q \<Rightarrow> int option \<times> 'q"
  ar_clear :: "'q \<Rightarrow> 'q"
  ar_now :: "'q \<Rightarrow> int"

type_synonym ('s, 'q) owner = "'q \<times> 's mdcontr \<times> string"

definition owner_env :: "('h, 'q) archenv \<Rightarrow> ('h tval \<Rightarrow> ('s, 'q) owner \<Rightarrow> ('h tval \<times> ('s, 'q) owner) res)
    \<Rightarrow> ('h tval \<Rightarrow> 'h variant \<Rightarrow> 'h variant \<Rightarrow> ('s, 'q) owner \<Rightarrow> ('h tval \<times> ('s, 'q) owner) res)
    \<Rightarrow> ('h, ('s, 'q) owner) avenv" where
  "owner_env R g s =
     \<lparr>vlGet = g, vlSet = s,
      arch_get = (\<lambda>t (q, r). rbind (ar_get R t q) (\<lambda>(v, t', q'). Inr (v, t', q', r))),
      arch_put = (\<lambda>v t (q, r). case ar_put R v t q of (x, q') \<Rightarrow> (x, q', r)),
      arch_clear = (\<lambda>(q, r). (ar_clear R q, r)),
      cfg_get = (\<lambda>a w. new_variant), cfg_set = (\<lambda>a v w. w),
      av_curTime = (\<lambda>(q, r). ar_now R q)\<rparr>"

text \<open>Writing by the system asks the owner for nothing.\<close>

definition sys_env :: "('h, 'q) archenv \<Rightarrow> ('h, ('s, 'q) owner) avenv" where
  "sys_env R = owner_env R (\<lambda>a w. Inr (a, w)) (\<lambda>a v p w. Inr (a, w))"

definition sys_setS :: "'h venv \<Rightarrow> ('h, 'q) archenv \<Rightarrow> string \<Rightarrow> 'h tval \<Rightarrow> ('s, 'q) owner \<Rightarrow> ('h tval \<times> ('s, 'q) owner) res" where
  "sys_setS E R v a w = av_setS E (sys_env R) v 0 True a w"

definition prm_vlGet :: "'h venv \<Rightarrow> ('h, 'q) archenv \<Rightarrow> ('s mdcontr \<Rightarrow> string) \<Rightarrow> bool \<Rightarrow> bool
    \<Rightarrow> 'h tval \<Rightarrow> ('s, 'q) owner \<Rightarrow> ('h tval \<times> ('s, 'q) owner) res" where
  "prm_vlGet E R status en run val w =
     (case w of (q, C, err) \<Rightarrow>
        if \<not> en \<or> \<not> run then
          sys_setS E R (if a_id val = ''err'' then (if \<not> en then ''1:Parameter disabled.'' else ''2:Acquisition stopped.'')
                        else EVAL_STR) val w
        else if a_id val = ''err'' then
          sys_setS E R (if tmDelay C > - 1 then status C else if err \<noteq> [] then err else ''0'') val w
        else Inr (val, w))"

definition prm_vlSet :: "'h venv \<Rightarrow> ('h, 'q) archenv \<Rightarrow> 's mdenv \<Rightarrow> bool \<Rightarrow> bool
    \<Rightarrow> 'h tval \<Rightarrow> 'h variant \<Rightarrow> 'h variant \<Rightarrow> ('s, 'q) owner \<Rightarrow> ('h tval \<times> ('s, 'q) owner) res" where
  "prm_vlSet E R M en run vo vl pvl w =
     (if \<not> en \<or> \<not> run then sys_setS E R EVAL_STR vo w
      else rbind (isEVal E vl) (\<lambda>ev. rbind (if ev then Inr True else veq E vl pvl) (\<lambda>skip.
        if skip then Inr (vo, w)
        else case w of (q, C, err) \<Rightarrow>
          rbind (setVal E M vl (a_res vo) True C err) (\<lambda>(done, err', C').
            if done then Inr (vo, q, C', err') else sys_setS E R EVAL_STR vo (q, C', err')))))"

definition prm_env :: "'h venv \<Rightarrow> ('h, 'q) archenv \<Rightarrow> 's mdenv \<Rightarrow> ('s mdcontr \<Rightarrow> string) \<Rightarrow> bool \<Rightarrow> bool
    \<Rightarrow> ('h, ('s, 'q) owner) avenv" where
  "prm_env E R M status en run = owner_env R (prm_vlGet E R status en run) (prm_vlSet E R M en run)"

section \<open>The update of the attributes\<close>

fun upVals :: "'h venv \<Rightarrow> ('h, 'q) archenv \<Rightarrow> 's mdenv \<Rightarrow> 'h tval list \<Rightarrow> ('s, 'q) owner \<Rightarrow> ('h tval list \<times> ('s, 'q) owner) res" where
  "upVals E R M [] w = Inr ([], w)"
| "upVals E R M (a # el) (q, C, werr) =
     (if \<not> has_flg a DirRead \<or> has_flg a Dynamic
      then rbind (upVals E R M el (q, C, werr)) (\<lambda>(el', w). Inr (a # el', w))
      else case inWr (a_res a) C of (pass, C1) \<Rightarrow>
        if pass then rbind (upVals E R M el (q, C1, werr)) (\<lambda>(el', w). Inr (a # el', w))
        else rbind (getVal M (a_res a) C1 werr) (\<lambda>(v, werr').
             rbind (av_set E (sys_env R) v 0 True a (q, C1, werr')) (\<lambda>(a', w1).
             rbind (upVals E R M el w1) (\<lambda>(el', w). Inr (a' # el', w)))))"

definition upValStd :: "'h venv \<Rightarrow> ('h, 'q) archenv \<Rightarrow> 's mdenv \<Rightarrow> 'h mdprm \<Rightarrow> 'q \<Rightarrow> 's mdcontr \<Rightarrow> ('h mdprm \<times> 'q \<times> 's mdcontr) res" where
  "upValStd E R M P q C =
     rbind (upVals E R M (pEl P) (q, C, [])) (\<lambda>(el, q', C', werr). Inr (P\<lparr>pEl := el, acqErr := werr\<rparr>, q', C'))"

text \<open>Disabling gives the attributes the reserved value.\<close>

fun set_evals :: "'h venv \<Rightarrow> ('h, 'q) archenv \<Rightarrow> 'h tval list \<Rightarrow> ('s, 'q) owner \<Rightarrow> ('h tval list \<times> ('s, 'q) owner) res" where
  "set_evals E R [] w = Inr ([], w)"
| "set_evals E R (a # el) w = rbind (sys_setS E R EVAL_STR a w) (\<lambda>(a', w1). rbind (set_evals E R el w1) (\<lambda>(el', w2). Inr (a' # el', w2)))"

definition prm_disable :: "'h venv \<Rightarrow> ('h, 'q) archenv \<Rightarrow> 'h mdprm \<Rightarrow> 'q \<Rightarrow> 's mdcontr \<Rightarrow> ('h mdprm \<times> 'q \<times> 's mdcontr) res" where
  "prm_disable E R P q C =
     (if \<not> prm_en P then Inr (P, q, C)
      else rbind (set_evals E R (pEl P) (q, C, acqErr P)) (\<lambda>(el, q', C', e). Inr (P\<lparr>prm_en := False, pEl := el\<rparr>, q', C')))"

end
