(* ===== verification/Modbus_Acquire.thy ===== *)
theory Modbus_Acquire
  imports Modbus_Blocks Modbus_Exchange
begin

text \<open>
  The data source and the server of ModBus together: a cycle of acquisition (\<open>Modbus_Daq\<close>) over a
  transport connected to the input protocol (\<open>Modbus_Exchange\<close>) brings to the blocks what the registers of
  the node hold (\<open>Modbus_Regs\<close>).
\<close>

section \<open>A request of the data source over a connected transport\<close>

text \<open>The form of the connection: the ones that a reading request cannot be taken for.\<close>

definition form_ok :: "bool \<Rightarrow> string \<Rightarrow> u8 \<Rightarrow> bool" where
  "form_ok serial prt nd \<longleftrightarrow> (prt = ''TCP'' \<and> \<not> serial) \<or> (prt = ''RTU'' \<and> serial \<and> nd \<noteq> 0x3A) \<or> prt = ''ASCII''"

lemma byte_chr_map: "map (byte \<circ> chr) p = p"
  by (simp add: map_idI byte_chr)

lemma modBusReq_link:
  assumes "md_tr M = link E gate itr serial" "0 \<le> mNode C" "mNode C \<le> 255"
    "own_form serial (mPrt C) (out_frame (mPrt C) (md_tid M (trst C)) (word_of_int (mNode C)) pdu)"
    "1 \<le> length pdu" "length pdu \<le> 253"
    "nodes_req E gate itr (mPrt C) (word_of_int (mNode C)) pdu (in_nodes (trst C)) = Inr (Some p, ns)"
    "2 \<le> length p" "length p \<le> 253" "p ! 0 AND 0x80 = 0"
  shows "modBusReq M pdu C = Inr ([], p, C\<lparr>trst := \<lparr>req_buf = [], in_nodes = ns\<rparr>\<rparr>)"
proof -
  define req where "req = setText (setAttr (setAttr (setAttr (setAttr (setAttr (new_node (mPrt C))
      ''id'' (mdId C)) ''reqTm'' (i2s (mReqTm C) Dec)) ''node'' (i2s (mNode C) Dec))
      ''reqTry'' (i2s (connTry C) Dec)) ''debugCat'' (mdDebugCat C)) (map chr pdu) False"
  have x: "xname req = mPrt C" "xtext req = map chr pdu" "map byte (xtext req) = pdu"
    by (simp_all add: req_def setText_def setAttr_def new_node_def byte_chr_map)
  have "attr req ''node'' = int_str (mNode C)" "attr req ''err'' = []"
    using assms(2,3) by (simp_all add: req_def setText_def setAttr_def new_node_def attr_def attr_of_set i2s_def to_i32_id)
  then have n: "s2i (attr req ''node'') = mNode C" "attr req ''err'' = []"
    using assms(2,3) by (simp_all add: s2i_int_str)
  have "outMess (link E gate itr serial) (md_tid M (trst C)) req (trst C) =
      Inr (client_result req p, \<lparr>req_buf = [], in_nodes = ns\<rparr>)"
    by (rule exchange_ok) (use assms(4-10) n x in simp_all)
  moreover have "client_result req p = setText req (map chr p) False" using assms(4-10) by (simp add: client_result_def)
  moreover have "attr (setText req (map chr p) False) ''err'' = []" "xtext (setText req (map chr p) False) = map chr p"
    using n(2) by (simp_all add: setText_def attr_def)
  ultimately show ?thesis
    using assms(1) by (simp add: modBusReq_def req_def [symmetric] Let_def byte_chr_map)
qed

section \<open>A server that holds words in its registers\<close>

definition server_holds :: "string \<Rightarrow> string \<Rightarrow> u8 \<Rightarrow> (int \<Rightarrow> u16 option) \<Rightarrow> 'h prt_in \<Rightarrow> bool" where
  "server_holds itr prt nd W st \<longleftrightarrow> (\<exists>n ns. in_nodes st = n # ns \<and> mEn n \<and> cfgMODE n = MD_DATA
     \<and> (cfgInTR n = ''*'' \<or> cfgInTR n = itr) \<and> cfgADDR n = uint nd \<and> (cfgPRT n = ''*'' \<or> cfgPRT n = prt)
     \<and> (\<forall>k w. W k = Some w \<longrightarrow> (\<exists>r. regR (ndat n) k = Some r \<and> int_reg (ndat n) r \<and> content (ndat n) [] r = Inr w)))"

definition reg_words :: "(int \<Rightarrow> u16 option) \<Rightarrow> int \<Rightarrow> nat \<Rightarrow> bytes" where
  "reg_words W a n = concat (map (\<lambda>k. mem_bytes (the (W (a + int k)))) [0..<n])"

lemma length_reg_words [simp]: "length (reg_words W a n) = 2 * n"
  by (induction n) (simp_all add: reg_words_def mem_bytes_def)

lemma reg_words_nth: "k < n \<Longrightarrow> mem16 (reg_words W a n ! (2 * k)) (reg_words W a n ! (2 * k + 1)) = the (W (a + int k))"
proof (induction n)
  case (Suc n)
  have m: "mem16 (ucast v) (ucast (drop_bit 8 v)) = v" for v :: u16
    by (rule bit_word_eqI) (auto simp: mem16_def bit_simps dest: bit_imp_le_length)
  have s: "reg_words W a (Suc n) = reg_words W a n @ mem_bytes (the (W (a + int n)))" by (simp add: reg_words_def)
  show ?case
    using Suc by (cases "k = n") (simp_all add: s nth_append mem_bytes_def m less_Suc_eq)
qed simp

lemma be16_of_int: "0 \<le> a \<Longrightarrow> a < 65536 \<Longrightarrow> be16 (ucast (drop_bit 8 (word_of_int a :: u16))) (ucast (word_of_int a :: u16)) = a"
  by (simp add: be16_bytes uint_word_of_int)

lemma server_reads:
  assumes "server_holds itr prt nd W st" "1 \<le> n" "n \<le> 125" "0 \<le> a" "a < 65536" "\<And>k. k < n \<Longrightarrow> W (a + int k) \<noteq> None"
  shows "\<exists>ns. nodes_req E gate itr prt nd (req_head 3 a (int n)) (in_nodes st) =
      Inr (Some ([3, word_of_int (int n * 2)] @ reg_words W a n), ns) \<and> server_holds itr prt nd W \<lparr>req_buf = [], in_nodes = ns\<rparr>"
proof -
  obtain m ms where st: "in_nodes st = m # ms" "mEn m" "cfgMODE m = MD_DATA" "cfgInTR m = ''*'' \<or> cfgInTR m = itr"
      "cfgADDR m = uint nd" "cfgPRT m = ''*'' \<or> cfgPRT m = prt"
      "\<forall>k w. W k = Some w \<longrightarrow> (\<exists>r. regR (ndat m) k = Some r \<and> int_reg (ndat m) r \<and> content (ndat m) [] r = Inr w)"
    using assms(1) unfolding server_holds_def by blast
  define D where "D = ndat m"
  define a' where "a' = (word_of_int a :: u16)"
  define n' where "n' = (word_of_int (int n) :: u16)"
  define R where "R k = (SOME r. regR D (a + int k) = Some r \<and> int_reg D r \<and> content D [] r = Inr (the (W (a + int k))))" for k
  have R: "regR D (a + int k) = Some (R k) \<and> int_reg D (R k) \<and> content D [] (R k) = Inr (the (W (a + int k)))" if "k < n" for k
  proof -
    obtain w where "W (a + int k) = Some w" using assms(6) [OF \<open>k < n\<close>] by blast
    then have "\<exists>r. regR D (a + int k) = Some r \<and> int_reg D r \<and> content D [] r = Inr (the (W (a + int k)))"
      using st(7) by (auto simp: D_def)
    then show ?thesis unfolding R_def by (rule someI_ex)
  qed
  have b: "be16 (ucast (drop_bit 8 a')) (ucast a') = a" "be16 (ucast (drop_bit 8 n')) (ucast n') = int n"
    using assms(2-5) be16_of_int [of a] be16_of_int [of "int n"] by (simp_all add: a'_def n'_def)
  have "data_req E [0x03, ucast (drop_bit 8 a'), ucast a', ucast (drop_bit 8 n'), ucast n'] D =
      Inr ([3, word_of_int (int n * 2)] @ concat (map (\<lambda>k. mem_bytes (the (W (a + int k)))) [0..<n]), D\<lparr>rReg := rReg D + int n\<rparr>)"
    by (rule read_range [OF b(2) assms(2,3), where R = R]) (use R b(1) in simp)
  moreover have "req_head 3 a (int n) = [0x03, ucast (drop_bit 8 a'), ucast a', ucast (drop_bit 8 n'), ucast n']"
    by (simp add: req_head_def be_bytes_def a'_def n'_def)
  ultimately have "nodes_req E gate itr prt nd (req_head 3 a (int n)) (in_nodes st) =
      Inr (Some ([3, word_of_int (int n * 2)] @ reg_words W a n), m\<lparr>cntReq := cntReq m + 1, ndat := D\<lparr>rReg := rReg D + int n\<rparr>\<rparr> # ms)"
    using st(2-6) by (auto simp: st(1) node_req_def node_takes_def D_def reg_words_def)
  moreover have "int_reg (D\<lparr>rReg := x\<rparr>) = int_reg D" "content (D\<lparr>rReg := x\<rparr>) [] = content D []" for x
    by (simp_all add: int_reg_def int_slot_def content_def eff_def fun_eq_iff)
  then have "server_holds itr prt nd W \<lparr>req_buf = [], in_nodes = m\<lparr>cntReq := cntReq m + 1, ndat := D\<lparr>rReg := rReg D + int n\<rparr>\<rparr> # ms\<rparr>"
    using st unfolding server_holds_def D_def by (intro exI [of _ "m\<lparr>cntReq := cntReq m + 1, ndat := (ndat m)\<lparr>rReg := rReg (ndat m) + int n\<rparr>\<rparr>"] exI [of _ ms]) simp
  ultimately show ?thesis by blast
qed

text \<open>A reading request has the form of its protocol only.\<close>

lemma read_own_form:
  assumes "form_ok serial prt nd" "0 \<le> n" "n \<le> 125"
  shows "own_form serial prt (out_frame prt tid nd (req_head 3 a n))"
proof -
  have h: "\<exists>a1 a2 n2. req_head 3 a n = [3, a1, a2, 0, n2]"
  proof -
    have "ucast (drop_bit 8 (word_of_int n :: u16)) = (0 :: u8)"
    proof -
      have "uint (word_of_int n :: u16) = n" using assms(2,3) by (simp add: uint_word_of_int)
      then have "drop_bit 8 (word_of_int n :: u16) = 0"
        using assms(2,3) by (simp add: word_uint_eq_iff drop_bit_eq_div uint_div)
      then show ?thesis by simp
    qed
    then show ?thesis by (simp add: req_head_def be_bytes_def)
  qed
  then obtain a1 a2 n2 where h: "req_head 3 a n = [3, a1, a2, 0, n2]" by blast
  consider "prt = ''TCP''" "\<not> serial" | "prt = ''RTU''" "serial" "nd \<noteq> 0x3A" | "prt = ''ASCII''"
    using assms(1) by (auto simp: form_ok_def)
  then show ?thesis
  proof cases
    case 1
    have "\<not> ends_crlf (tcp_frame (mem_bytes tid @ [0, 0]) nd [3, a1, a2, 0, n2])"
      by (simp add: ends_crlf_def tcp_frame_def crlf_def mem_bytes_def be_bytes_def)
    with 1 show ?thesis by (simp add: own_form_def out_frame_def is_ascii_def h)
  next
    case 2
    have "rtu_frame nd (req_head 3 a n) ! 0 = nd" by (rule rtu_frame_ok)
    with 2 show ?thesis by (simp add: own_form_def out_frame_def is_ascii_def)
  qed (simp add: own_form_def)
qed

section \<open>The blocks after a cycle\<close>

definition blk_good :: "(int \<Rightarrow> u16 option) \<Rightarrow> dblk \<Rightarrow> bool" where
  "blk_good W b \<longleftrightarrow> berr b = [] \<and> (\<forall>k. covers (k * 2) 2 b \<longrightarrow>
     (\<exists>w. W k = Some w \<and> mem16 (bval b ! nat (k * 2 - off b)) (bval b ! (nat (k * 2 - off b) + 1)) = w))"

text \<open>A block that can be read by one request, of registers the server has.\<close>

definition blk_fits :: "(int \<Rightarrow> u16 option) \<Rightarrow> dblk \<Rightarrow> bool" where
  "blk_fits W b \<longleftrightarrow> blk_ok 2 b \<and> bsize b \<le> 250 \<and> (\<forall>k. covers (k * 2) 2 b \<longrightarrow> k < 65536 \<and> W k \<noteq> None)"

definition connected :: "'s mdenv \<Rightarrow> 's mdcontr \<Rightarrow> bool \<Rightarrow> bool" where
  "connected M C serial \<longleftrightarrow> 0 \<le> mNode C \<and> mNode C \<le> 255 \<and> form_ok serial (mPrt C) (word_of_int (mNode C)) \<and> \<not> endrunReq C"

lemma blk_read:
  assumes "md_tr M = link E gate itr serial" "connected M C serial" "blk_fits W b"
    "server_holds itr (mPrt C) (word_of_int (mNode C)) W (trst C)"
  shows "\<exists>p s. modBusReq M (req_head 3 (tdiv (off b) 2) (bsize b div 2)) C = Inr ([], p, C\<lparr>trst := s\<rparr>)
    \<and> server_holds itr (mPrt C) (word_of_int (mNode C)) W s
    \<and> (\<exists>b'. fill_regs p (b\<lparr>berr := []\<rparr>) = Some b' \<and> off b' = off b \<and> bend b' = bend b \<and> blk_good W b')"
proof -
  obtain m n' where sp: "spans 2 b m n'" using ok_spans [of 2 b] assms(3) by (auto simp: blk_fits_def)
  define n where "n = nat (n' - m)"
  have n: "n' = m + int n" "1 \<le> n" "0 \<le> m" "off b = m * 2" "bend b = n' * 2" using sp by (auto simp: n_def spans_def)
  have bs: "bsize b = 2 * int n" using n by (simp add: bend_def)
  have n125: "n \<le> 125" using assms(3) bs by (simp add: blk_fits_def)
  note cv = spans_covers [of 2 b m n', OF _ sp, simplified]
  have W: "m + int k < 65536 \<and> W (m + int k) \<noteq> None" if "k < n" for k
    using assms(3) cv [of "m + int k"] that n(1) by (auto simp: blk_fits_def)
  have hd: "tdiv (off b) 2 = m" "bsize b div 2 = int n" using n(3,4) bs by (simp_all add: tdiv_nonneg)
  let ?p = "[3, word_of_int (int n * 2)] @ reg_words W m n"
  obtain ns where ns: "nodes_req E gate itr (mPrt C) (word_of_int (mNode C)) (req_head 3 m (int n)) (in_nodes (trst C)) = Inr (Some ?p, ns)"
      "server_holds itr (mPrt C) (word_of_int (mNode C)) W \<lparr>req_buf = [], in_nodes = ns\<rparr>"
    using server_reads [OF assms(4) n(2) n125 n(3), of E gate] W W [of 0] n(2) by auto
  have "modBusReq M (req_head 3 m (int n)) C = Inr ([], ?p, C\<lparr>trst := \<lparr>req_buf = [], in_nodes = ns\<rparr>\<rparr>)"
  proof (rule modBusReq_link [OF assms(1) _ _ _ _ _ ns(1)])
    show "own_form serial (mPrt C) (out_frame (mPrt C) (md_tid M (trst C)) (word_of_int (mNode C)) (req_head 3 m (int n)))"
      using assms(2) n125 by (intro read_own_form) (simp_all add: connected_def)
  qed (use assms(2) n125 in \<open>simp_all add: connected_def req_head_def be_bytes_def\<close>)
  moreover
  define b' where "b' = b\<lparr>berr := [], bval := reg_words W m n\<rparr>"
  have f: "fill_regs ?p (b\<lparr>berr := []\<rparr>) = Some b'" using bs by (simp add: fill_regs_def b'_def bsize_def)
  have e: "off b' = off b" "bend b' = bend b" using bs by (simp_all add: b'_def bend_def bsize_def)
  have "blk_good W b'"
    unfolding blk_good_def
  proof (intro conjI allI impI)
    fix k assume "covers (k * 2) 2 b'"
    then have k: "m \<le> k" "k < n'" using cv [of k] e by (simp_all add: covers_def)
    define j where "j = nat (k - m)"
    have j: "j < n" "k = m + int j" "nat (k * 2 - off b') = 2 * j" using k n(1,4) e(1) by (auto simp: j_def)
    show "\<exists>w. W k = Some w \<and> mem16 (bval b' ! nat (k * 2 - off b')) (bval b' ! (nat (k * 2 - off b') + 1)) = w"
      using W [OF j(1)] reg_words_nth [OF j(1), of W m] unfolding j(3) by (auto simp: b'_def j(2))
  qed (simp add: b'_def)
  ultimately show ?thesis unfolding hd using ns(2) f e by blast
qed

lemma blks_read:
  assumes "md_tr M = link E gate itr serial" "connected M C serial" "\<forall>b \<in> set bs. blk_fits W b"
    "server_holds itr (mPrt C) (word_of_int (mNode C)) W (trst C)"
  shows "\<exists>bs' s x. acq_blks M 3 2 fill_regs (\<lambda>n C. C\<lparr>numRReg := numRReg C + n\<rparr>) bs C = Inr (bs', C\<lparr>trst := s, numRReg := x\<rparr>)
    \<and> list_all2 (\<lambda>b b'. off b' = off b \<and> bend b' = bend b \<and> blk_good W b') bs bs'"
  using assms(2-4)
proof (induction bs arbitrary: C)
  case Nil
  have "C = C\<lparr>trst := trst C, numRReg := numRReg C\<rparr>" by simp
  then show ?case unfolding acq_blks.simps list_all2_Nil by blast
next
  case (Cons b bs)
  obtain p s b' where r: "modBusReq M (req_head 3 (tdiv (off b) 2) (bsize b div 2)) C = Inr ([], p, C\<lparr>trst := s\<rparr>)"
      "server_holds itr (mPrt C) (word_of_int (mNode C)) W s"
      "fill_regs p (b\<lparr>berr := []\<rparr>) = Some b'" "off b' = off b" "bend b' = bend b" "blk_good W b'"
    using blk_read [OF assms(1) Cons.prems(1) _ Cons.prems(3), of b] Cons.prems(2) by auto
  define C1 where "C1 = C\<lparr>trst := s, numRReg := numRReg C + word_of_int (bsize b div 2)\<rparr>"
  have k: "connected M C1 serial" "mPrt C1 = mPrt C" "mNode C1 = mNode C" "trst C1 = s"
    using Cons.prems(1) by (simp_all add: C1_def connected_def)
  obtain bs' s' x where i: "acq_blks M 3 2 fill_regs (\<lambda>n C. C\<lparr>numRReg := numRReg C + n\<rparr>) bs C1 = Inr (bs', C1\<lparr>trst := s', numRReg := x\<rparr>)"
      "list_all2 (\<lambda>b b'. off b' = off b \<and> bend b' = bend b \<and> blk_good W b') bs bs'"
    using Cons.IH [OF k(1)] Cons.prems(2) r(2) k(2-4) by auto
  have "\<not> endrunReq C" using Cons.prems(1) by (simp add: connected_def)
  then have "acq_blks M 3 2 fill_regs (\<lambda>n C. C\<lparr>numRReg := numRReg C + n\<rparr>) (b # bs) C = Inr (b' # bs', C\<lparr>trst := s', numRReg := x\<rparr>)"
    using r(1,3) i(1) by (simp add: C1_def)
  then show ?case using i(2) r(4-6) by blast
qed

text \<open>Reading a register of the blocks.\<close>

lemma getValR_good:
  assumes "acqBlks C' = bs'" "list_all2 (\<lambda>b b'. off b' = off b \<and> bend b' = bend b \<and> blk_good W b') bs bs'" "has_item 2 bs k"
  shows "\<exists>w. W k = Some w \<and> getValR k False isLE C' err = (uint (endian isLE w), err)"
proof -
  obtain b where b: "b \<in> set bs" "covers (k * 2) 2 b" using assms(3) by (auto simp: has_item_def)
  then obtain i where "i < length bs" "b = bs ! i" by (auto simp: in_set_conv_nth)
  then have "bs' ! i \<in> set bs'" "covers (k * 2) 2 (bs' ! i)"
    using assms(2) b(2) by (auto simp: list_all2_conv_all_nth covers_def)
  then obtain c where c: "List.find (covers (k * 2) 2) bs' = Some c"
    by (cases "List.find (covers (k * 2) 2) bs'") (auto simp: find_None_iff)
  then have "c \<in> set bs'" "covers (k * 2) 2 c" by (auto simp: find_Some_iff)
  moreover have "\<forall>x \<in> set bs'. blk_good W x" using assms(2) by (auto simp: list_all2_conv_all_nth in_set_conv_nth)
  ultimately obtain w where "W k = Some w" "berr c = []" "mem16 (bval c ! nat (k * 2 - off c)) (bval c ! (nat (k * 2 - off c) + 1)) = w"
    by (auto simp: blk_good_def)
  then show ?thesis using c assms(1) by (auto simp: getValR_def blk_word_def endian_def Let_def)
qed

text \<open>A cycle over blocks that the server can answer.\<close>

lemma acq_cycle_reads:
  assumes "md_tr M = link E gate itr serial" "connected M C serial" "tmDelay C \<le> 0"
    "blocks_ok C" "\<forall>b \<in> set (acqBlks C). bsize b \<le> 250" "acqBlksIn C = []" "acqBlksCoil C = []" "acqBlksCoilIn C = []"
    "server_holds itr (mPrt C) (word_of_int (mNode C)) W (trst C)" "\<forall>k. acquired C ''R'' k \<longrightarrow> k < 65536 \<and> W k \<noteq> None"
  shows "\<exists>C'. acq_cycle M C = Inr C' \<and> tmDelay C' = tmDelay C
    \<and> (\<forall>k isLE err. acquired C ''R'' k \<longrightarrow> (\<exists>w. W k = Some w \<and> getValR k False isLE C' err = (uint (endian isLE w), err)))"
proof -
  have ok: "blk_ok 2 b" if "b \<in> set bs" "blks_ok 2 bs" for b bs using that by (induction bs) auto
  have "\<forall>b \<in> set (acqBlks C). blk_fits W b"
    using assms(4,5,10) ok by (fastforce simp: blk_fits_def blocks_ok_def acquired_def has_item_def)
  from blks_read [OF assms(1,2) this assms(9)] obtain bs' s x where
    r: "acq_blks M 3 2 fill_regs (\<lambda>n C. C\<lparr>numRReg := numRReg C + n\<rparr>) (acqBlks C) C = Inr (bs', C\<lparr>trst := s, numRReg := x\<rparr>)"
      "list_all2 (\<lambda>b b'. off b' = off b \<and> bend b' = bend b \<and> blk_good W b') (acqBlks C) bs'" by blast
  have e: "C\<lparr>acqBlksCoil := [], acqBlksCoilIn := []\<rparr> = C" using assms(7,8) by simp
  have "acq_cycle M C = Inr (C\<lparr>trst := s, numRReg := x, acqBlks := bs', acqBlksIn := []\<rparr>)"
    using assms(3,6-8) r(1) by (simp add: acq_cycle_def e)
  moreover have "\<exists>w. W k = Some w \<and> getValR k False isLE (C\<lparr>trst := s, numRReg := x, acqBlks := bs', acqBlksIn := []\<rparr>) err =
      (uint (endian isLE w), err)" if "acquired C ''R'' k" for k isLE err
    by (rule getValR_good [OF _ r(2)]) (use that in \<open>simp_all add: acquired_def\<close>)
  ultimately show ?thesis by auto
qed

text \<open>C38. A cycle of acquisition of a controller that acquires holding registers only brings what the server
  holds.  With a good connection, blocks in order and of at most 250 bytes each (what one request can read), and
  a server whose first node takes the requests and holds integers in every acquired register, the cycle succeeds, and
  every acquired register is then read from the controller as the word the server holds, in the order of bytes
  asked for.\<close>

theorem acquisition_reads:
  assumes "md_tr M = link E gate itr serial" "connected M C serial" "tmDelay C \<le> 0"
    "blocks_ok C" "\<forall>b \<in> set (acqBlks C). bsize b \<le> 250" "acqBlksIn C = []" "acqBlksCoil C = []" "acqBlksCoilIn C = []"
    "server_holds itr (mPrt C) (word_of_int (mNode C)) W (trst C)" "\<forall>k. acquired C ''R'' k \<longrightarrow> k < 65536 \<and> W k \<noteq> None"
  shows "\<exists>C'. acq_cycle M C = Inr C' \<and> tmDelay C' = tmDelay C
    \<and> (\<forall>k isLE err. acquired C ''R'' k \<longrightarrow> (\<exists>w. W k = Some w \<and> getValR k False isLE C' err = (uint (endian isLE w), err)))"
  by (rule acq_cycle_reads [OF assms])

definition wit_md :: "nat prt_in mdenv" where
  "wit_md = \<lparr>md_tr = link wit_env (\<lambda>_ _. None) ''Sockets.in'' False, md_tid = (\<lambda>_. 7), codeConvIn = (\<lambda>_ t. t), codeConvOut = (\<lambda>_ t. t),
     devConfigured = True\<rparr>"

definition wit_contr :: "nat prt_in mdcontr" where
  "wit_contr = (new_contr ''c'' wit_server)\<lparr>acqBlks := [(new_blk 20 2)\<lparr>bval := [0, 0, 0, 0]\<rparr>]\<rparr>"

lemma acquisition_reads_witness:
  "\<exists>C'. acq_cycle wit_md wit_contr = Inr C' \<and> getValR 10 False False C' [] = (7, [])"
proof -
  define W where "W = [10 :: int \<mapsto> (0x0700 :: u16), 11 \<mapsto> 0]"
  have sw: "swap16 7 = 0x0700" "swap16 0x0700 = 7" "swap16 0 = 0" by (simp_all add: swap16_def)
  have w: "(ucast (drop_bit 0 (7::u64)) :: u16) = 7" "(ucast (drop_bit 16 (7::u64)) :: u16) = 0" by simp_all
  have c: "covers (k * 2) 2 ((new_blk 20 2)\<lparr>bval := [0, 0, 0, 0]\<rparr>) \<longleftrightarrow> k = 10 \<or> k = 11" for k
    by (auto simp: covers_def new_blk_def bend_def bsize_def)
  have aq: "acquired wit_contr ''R'' k \<longleftrightarrow> k = 10 \<or> k = 11" for k
    using c [of k] by (simp add: wit_contr_def acquired_def)
  have S: "server_holds ''Sockets.in'' (mPrt wit_contr) (word_of_int (mNode wit_contr)) W (trst wit_contr)"
    by (simp add: server_holds_def wit_contr_def new_contr_def wit_server_def W_def wit_node_def Let_def ndata_new_def int_reg_def int_slot_def
        content_def eff_def word_get_def numEnd_def i16_BE_def sw)
  have "\<exists>C'. acq_cycle wit_md wit_contr = Inr C' \<and> tmDelay C' = tmDelay wit_contr \<and> (\<forall>k isLE err. acquired wit_contr ''R'' k \<longrightarrow>
      (\<exists>w. W k = Some w \<and> getValR k False isLE C' err = (uint (endian isLE w), err)))"
  proof (rule acquisition_reads [where serial = False and itr = "''Sockets.in''" and E = wit_env and gate = "\<lambda>_ _. None", OF _ _ _ _ _ _ _ _ S])
    show "connected wit_md wit_contr False" by (simp add: connected_def form_ok_def wit_contr_def new_contr_def)
    show "blocks_ok wit_contr" by (simp add: blocks_ok_def blk_ok_def wit_contr_def new_contr_def new_blk_def)
    show "\<forall>k. acquired wit_contr ''R'' k \<longrightarrow> k < 65536 \<and> W k \<noteq> None" by (auto simp: aq W_def)
  qed (simp_all add: wit_md_def wit_contr_def new_contr_def bsize_def)
  then show ?thesis by (fastforce simp: aq W_def endian_def i16_BE_def sw)
qed

end
