(* ===== verification/Modbus_Attrs.thy ===== *)
theory Modbus_Attrs
  imports Modbus_Param Modbus_Acquire
begin

text \<open>
  What the standard parameter keeps (\<open>Modbus_Param\<close>): loading any configuration leaves the blocks of the
  controller in order and gives attributes with identifiers of their own and values of their types, whose
  first register is acquired; an attribute of one register then reads what the server holds; and a write that
  is lost.
\<close>

section \<open>The parsing of an address never fails\<close>

lemma parse_loop_total:
  assumes "sep \<noteq> []" "0 \<le> a" "a \<le> size_of path"
  shows "\<exists>r e. parse_loop path level sep False a t = Inr (r, e) \<and> a \<le> e \<and> e \<le> size_of path"
  using assms
proof (induction path level sep False a t rule: parse_loop.induct)
  case (1 path level sep a t)
  show ?case
  proof (cases "sfind path sep a")
    case None
    with 1(3,4) show ?thesis by (auto simp: parse_loop.simps [of path level sep] ssubstr_def size_of_def)
  next
    case (Some u)
    have u: "a \<le> u" "u + size_of sep \<le> size_of path" "0 < size_of sep"
      using sfind_range [OF Some] 1(2) by (auto simp: size_of_def)
    show ?thesis
    proof (cases "t = level")
      case True
      with Some u 1(3) show ?thesis by (auto simp: parse_loop.simps [of path level sep] ssubstr_def size_of_def)
    next
      case False
      have "\<exists>r e. parse_loop path level sep False (u + size_of sep) (t + 1) = Inr (r, e) \<and> u + size_of sep \<le> e \<and> e \<le> size_of path"
        by (rule 1(1) [OF Some refl _ False]) (use u 1(2,3) in auto)
      then obtain r e where i: "parse_loop path level sep False (u + size_of sep) (t + 1) = Inr (r, e)"
        "u + size_of sep \<le> e" "e \<le> size_of path" by blast
      have "parse_loop path level sep False a t = Inr (r, e)"
        using Some False 1(2) i(1) by (simp add: parse_loop.simps [of path level sep False a t])
      then show ?thesis using i(2,3) u by (intro exI [of _ r] exI [of _ e]) auto
    qed
  qed
qed

lemma parse0_total: "sep \<noteq> [] \<Longrightarrow> \<exists>t. parse0 s level sep = Inr t"
  using parse_loop_total [of sep 0 s level 0] by (auto simp: parse0_def strParse_def Let_def size_of_def)

lemma reg_next_total: "reg_next ai level prev = Inl Overflow \<or> (\<exists>r. reg_next ai level prev = Inr (to_i32 r))"
proof -
  obtain t where "parse0 ai level '','' = Inr t" using parse0_total [of "'',''" ai level] by auto
  then show ?thesis by (cases "t = []"; cases "prev = 2 ^ 31 - 1"; force simp: reg_next_def)
qed

lemma parse_off_eq:
  assumes "0 \<le> i" "i \<le> size_of s"
  shows "parse_off s i = Inr (takeWhile (\<lambda>x. x \<noteq> CHR '':'') (drop (nat i) s),
    min (size_of s) (i + size_of (takeWhile (\<lambda>x. x \<noteq> CHR '':'') (drop (nat i) s)) + 1))"
  using strParse_token [OF assms, of "CHR '':''"] by (simp add: parse_off_def)

lemma parse0_first: "parse0 s 0 [c] = Inr (takeWhile (\<lambda>x. x \<noteq> c) s)"
proof (cases "s = []")
  case False
  have f: "sfind s [c] 0 = (if c \<in> set s then Some (int (length (takeWhile (\<lambda>x. x \<noteq> c) s))) else None)"
    using sfind_char [of 0 s c] by simp
  have t: "take (length (takeWhile (\<lambda>x. x \<noteq> c) s)) s = takeWhile (\<lambda>x. x \<noteq> c) s" by (rule takeWhile_eq_take [symmetric])
  show ?thesis
  proof (cases "c \<in> set s")
    case True
    with False f t show ?thesis
      by (simp add: parse0_def strParse_def Let_def parse_loop.simps [of s 0 "[c]" False 0 0] ssubstr_def size_of_def)
  next
    case no: False
    then have n: "takeWhile (\<lambda>x. x \<noteq> c) s = s" by (auto simp: takeWhile_eq_all_conv)
    show ?thesis using False f no unfolding n
      by (simp add: parse0_def strParse_def Let_def parse_loop.simps [of s 0 "[c]" False 0 0] ssubstr_def size_of_def)
  qed
qed (simp add: parse0_def strParse_def size_of_def)

lemma addr_parts_eq:
  assumes "CHR '':'' \<notin> set tpn" "CHR '':'' \<notin> set aids" "CHR '':'' \<notin> set mode"
  shows "addr_parts (tpn @ '':'' @ aids @ '':'' @ mode) = Inr (tpn, aids, mode)"
proof -
  let ?s = "tpn @ '':'' @ aids @ '':'' @ mode"
  have t: "takeWhile (\<lambda>x. x \<noteq> CHR '':'') (t @ CHR '':'' # r) = t" if "CHR '':'' \<notin> set t" for t r using that by (rule takeWhile_upto)
  have m: "takeWhile (\<lambda>x. x \<noteq> CHR '':'') mode = mode" using assms(3) by (auto simp: takeWhile_eq_all_conv)
  have 1: "parse_off ?s 0 = Inr (tpn, size_of tpn + 1)" using assms(1) by (simp add: parse_off_eq size_of_def t)
  have 2: "parse_off ?s (size_of tpn + 1) = Inr (aids, size_of tpn + size_of aids + 2)"
    using assms(2) by (simp add: parse_off_eq size_of_def t nat_add_distrib)
  have "nat (size_of tpn + size_of aids + 2) = length tpn + length aids + 2" by (simp add: size_of_def)
  then have "drop (nat (size_of tpn + size_of aids + 2)) ?s = mode" by simp
  then have 3: "\<exists>o3. parse_off ?s (size_of tpn + size_of aids + 2) = Inr (mode, o3)"
    using m by (simp add: parse_off_eq size_of_def)
  show ?thesis using 1 2 3 by (auto simp: addr_parts_def)
qed

lemma line_parts_ok:
  "\<exists>atp ai aflg aid anm. line_parts sel = Inr (atp, ai, aflg, aid, anm) \<and> CHR '':'' \<notin> set atp \<and> CHR '':'' \<notin> set ai \<and> CHR '':'' \<notin> set aflg"
proof -
  have p: "\<exists>t i'. parse_off sel i = Inr (t, i') \<and> 0 \<le> i' \<and> i' \<le> size_of sel \<and> CHR '':'' \<notin> set t"
    if "0 \<le> i" "i \<le> size_of sel" for i
    using that by (auto simp: parse_off_eq size_of_def dest: set_takeWhileD)
  obtain t1 o1 where 1: "parse_off sel 0 = Inr (t1, o1)" "0 \<le> o1" "o1 \<le> size_of sel" "CHR '':'' \<notin> set t1"
    using p [of 0] by (auto simp: size_of_def)
  obtain t2 o2 where 2: "parse_off sel o1 = Inr (t2, o2)" "0 \<le> o2" "o2 \<le> size_of sel" "CHR '':'' \<notin> set t2"
    using p [OF 1(2,3)] by auto
  obtain t3 o3 where 3: "parse_off sel o2 = Inr (t3, o3)" "0 \<le> o3" "o3 \<le> size_of sel" "CHR '':'' \<notin> set t3"
    using p [OF 2(2,3)] by auto
  obtain t4 o4 where 4: "parse_off sel o3 = Inr (t4, o4)" "0 \<le> o4" "o4 \<le> size_of sel"
    using p [OF 3(2,3)] by auto
  show ?thesis using 1 2 3 4 by (simp add: line_parts_def ssubstr_def size_of_def Let_def)
qed

section \<open>The number at the head of an address\<close>

lemma has_0x_cut: "digit_val c = 36 \<Longrightarrow> c \<noteq> CHR ''0'' \<Longrightarrow> tolower c \<noteq> CHR ''x'' \<Longrightarrow> has_0x (v @ c # r) = has_0x v"
  by (cases v; cases "tl v"; cases "tl (tl v)") (auto simp: has_0x_def numeral_eq_Suc)

lemma digits_val_cut: "digit_val c = 36 \<Longrightarrow> b \<le> 36 \<Longrightarrow> digits_val b (v @ c # r) = digits_val b v"
proof -
  assume "digit_val c = 36" "b \<le> 36"
  then have "takeWhile (\<lambda>c. digit_val c < b) (v @ c # r) = takeWhile (\<lambda>c. digit_val c < b) v" by (induction v) auto
  then show ?thesis by (simp add: digits_val_def)
qed

definition cuts :: "char \<Rightarrow> bool" where
  "cuts c \<longleftrightarrow> c \<noteq> nul \<and> \<not> isspace c \<and> c \<noteq> CHR ''-'' \<and> c \<noteq> CHR ''+'' \<and> c \<noteq> CHR ''0'' \<and> tolower c \<noteq> CHR ''x'' \<and> digit_val c = 36"

lemma cuts_seps: "cuts (CHR '','')" "cuts (CHR ''.'')"
  by code_simp+

lemma strtol_cut:
  assumes "cuts c"
  shows "strtol 0 (t @ c # r) = strtol 0 t"
proof (cases "nul \<in> set t")
  case True
  then have "takeWhile (\<lambda>x. x \<noteq> nul) (t @ c # r) = takeWhile (\<lambda>x. x \<noteq> nul) t" by (induction t) auto
  then show ?thesis unfolding strtol_def by (simp only:)
next
  case False
  have cs: "c \<noteq> nul" "\<not> isspace c" "c \<noteq> CHR ''-''" "c \<noteq> CHR ''+''" "c \<noteq> CHR ''0''" "tolower c \<noteq> CHR ''x''" "digit_val c = 36"
    using assms by (simp_all add: cuts_def)
  define r' where "r' = takeWhile (\<lambda>x. x \<noteq> nul) r"
  define u where "u = dropWhile isspace t"
  define v where "v = (if u \<noteq> [] \<and> (hd u = CHR ''-'' \<or> hd u = CHR ''+'') then tl u else u)"
  have t: "takeWhile (\<lambda>x. x \<noteq> nul) t = t" using False by (auto simp: takeWhile_eq_all_conv)
  then have w: "takeWhile (\<lambda>x. x \<noteq> nul) (t @ c # r) = t @ c # r'" using False cs(1) by (simp add: takeWhile_append r'_def)
  have "dropWhile isspace (y @ c # r') = dropWhile isspace y @ c # r'" for y using cs(2) by (induction y) auto
  then have d: "dropWhile isspace (t @ c # r') = u @ c # r'" by (simp only: u_def)
  have h: "hd (x @ c # r') = (if x = [] then c else hd x)" for x by (cases x) auto
  have v': "(if u @ c # r' \<noteq> [] \<and> (hd (u @ c # r') = CHR ''-'' \<or> hd (u @ c # r') = CHR ''+'') then tl (u @ c # r') else u @ c # r') = v @ c # r'"
    using cs(3,4) by (cases u) (auto simp: v_def)
  have x: "2 - length v = 0" if "has_0x v" using that by (simp add: has_0x_def)
  have hx: "has_0x (v @ c # r') = has_0x v" by (rule has_0x_cut) (use cs in auto)
  have g: "digits_val b (y @ c # r') = digits_val b y" if "b \<le> 16" for b y by (rule digits_val_cut) (use cs that in auto)
  have n1: "(u @ c # r' \<noteq> [] \<and> hd (u @ c # r') = CHR ''-'') = (u \<noteq> [] \<and> hd u = CHR ''-'')" using cs by (simp add: h)
  have n2: "(v @ c # r' \<noteq> [] \<and> hd (v @ c # r') = CHR ''0'') = (v \<noteq> [] \<and> hd v = CHR ''0'')" using cs by (simp add: h)
  have "strtol 0 (t @ c # r) = (let neg = (u \<noteq> [] \<and> hd u = CHR ''-''); b = (if has_0x v then 16 else if v \<noteq> [] \<and> hd v = CHR ''0'' then 8 else 10);
      n = int (digits_val b (if has_0x v then drop 2 v else v))
      in max (- 9223372036854775808) (min 9223372036854775807 (if neg then - n else n)))"
    unfolding strtol_def w d Let_def v' hx n1 n2 by (cases "has_0x v") (simp_all add: g x)
  also have "\<dots> = strtol 0 t"
    unfolding strtol_def t Let_def u_def [symmetric] v_def [symmetric] by simp
  finally show ?thesis .
qed

lemma strtol_takeWhile: "cuts c \<Longrightarrow> strtol 0 (takeWhile (\<lambda>x. x \<noteq> c) s) = strtol 0 s"
proof (cases "c \<in> set s")
  case True
  assume c: "cuts c"
  obtain ys zs where s: "s = ys @ c # zs" "c \<notin> set ys" using True split_list_first by metis
  have "takeWhile (\<lambda>x. x \<noteq> c) s = ys" unfolding s(1) using s(2) by (rule takeWhile_upto)
  then show ?thesis using strtol_cut [OF c, of ys zs] s(1) by simp
next
  case False
  then have "takeWhile (\<lambda>x. x \<noteq> c) s = s" by (auto simp: takeWhile_eq_all_conv)
  then show ?thesis by (simp only:)
qed

lemma strtol0_int_str: "int64 n \<Longrightarrow> strtol 0 (int_str n) = n"
proof -
  assume n: "int64 n"
  show ?thesis
  proof (cases "n < 0")
    case False
    then show ?thesis using strtol_dec [of "nat n"] n by (simp add: int_str_def int64_def)
  next
    case True
    let ?s = "nat_str 10 (nat (- n))"
    have dig: "isdigit c" if "c \<in> set ?s" for c using that by (rule nat_str_isdigit)
    have t: "takeWhile (\<lambda>c. c \<noteq> nul) (CHR ''-'' # ?s) = CHR ''-'' # ?s" unfolding takeWhile_eq_all_conv
      using dig [of nul] by (auto simp: isdigit_def code_def)
    obtain a r where s: "?s = a # r" by (cases ?s) auto
    have a: "a \<noteq> CHR ''0''" using nat_str_hd [of "nat (- n)"] True s by auto
    have d: "digits_val 10 (a # r) = nat (- n)" using nat_str_digits [of 10 "nat (- n)"] s by simp
    have i: "int_str n = CHR ''-'' # ?s" using True by (simp add: int_str_def)
    have m: "\<not> isspace (CHR ''-'')" by (simp add: isspace_def code_def)
    show ?thesis unfolding i strtol_def Let_def t unfolding s
      using a m d n True by (auto simp: has_0x_def int64_def)
  qed
qed

section \<open>Registering the registers of an attribute\<close>

definition kinds :: "string set" where
  "kinds = {''R'', ''RI'', ''C'', ''CI''}"

definition first_reg :: "string \<Rightarrow> int" where
  "first_reg aids = to_i32 (strtol 0 aids)"

definition keeps_regs :: "'s mdcontr \<Rightarrow> 's mdcontr \<Rightarrow> bool" where
  "keeps_regs C C' \<longleftrightarrow> \<not> mMerge C' \<and> blocks_ok C' \<and> (\<forall>t j. acquired C t j \<longrightarrow> acquired C' t j)"

lemma keeps_regs_trans: "keeps_regs A B \<Longrightarrow> keeps_regs B C \<Longrightarrow> keeps_regs A C"
  by (simp add: keeps_regs_def)

lemma regVal_acq:
  assumes "\<not> mMerge C" "blocks_ok C"
  shows "regVal reg dt sep C = Inl Overflow \<or>
    (\<exists>C'. regVal reg dt sep C = Inr C' \<and> keeps_regs C C' \<and> (0 \<le> reg \<and> dt \<in> kinds \<longrightarrow> acquired C' dt reg))"
proof (cases "reg_valid (reg, dt, sep)")
  case True
  then show ?thesis using regVal_registered [OF assms True] by (auto simp: keeps_regs_def)
next
  case False
  have "regVal reg dt sep C = Inl Overflow" if "0 \<le> reg" "dt \<in> kinds"
    using False that by (auto simp: reg_valid_def regVal_def kinds_def split: if_splits)
  then show ?thesis using regVal_kept [OF assms, of reg dt sep] by (auto simp: regs_kept_def keeps_regs_def)
qed

lemma regVals_if_acq:
  assumes "\<not> mMerge C" "blocks_ok C"
  shows "regVals_if rd rs dt C = Inl Overflow \<or>
    (\<exists>C'. regVals_if rd rs dt C = Inr C' \<and> keeps_regs C C' \<and> (rd \<and> dt \<in> kinds \<longrightarrow> (\<forall>r \<in> set rs. 0 \<le> r \<longrightarrow> acquired C' dt r)))"
  using assms
proof (induction rs arbitrary: C)
  case (Cons r rs)
  show ?case
  proof (cases rd)
    case True
    from regVal_acq [OF Cons.prems, of r dt False] show ?thesis
    proof (elim disjE exE conjE)
      fix C1 assume c: "regVal r dt False C = Inr C1" "keeps_regs C C1" "0 \<le> r \<and> dt \<in> kinds \<longrightarrow> acquired C1 dt r"
      from Cons.IH [of C1] c(2) show ?thesis
        using c True by (auto simp: keeps_regs_def)
    qed (simp add: True)
  qed (use Cons.prems in \<open>simp add: keeps_regs_def\<close>)
qed (simp add: keeps_regs_def)

lemma strtol_nums: "int64 r \<Longrightarrow> strtol 0 (nums (r # rs)) = r"
proof -
  assume r: "int64 r"
  show ?thesis
  proof (cases rs)
    case (Cons q qs)
    have "nums (r # rs) = int_str r @ CHR '','' # (int_str q @ concat (map (\<lambda>q. '','' @ int_str q) qs))" by (simp add: nums_def Cons)
    then show ?thesis using strtol_cut [OF cuts_seps(1)] strtol0_int_str [OF r] by simp
  qed (simp add: nums_def strtol0_int_str [OF r])
qed

lemma to_i32_int64: "int64 (to_i32 r)" "to_i32 (to_i32 r) = to_i32 r"
  using to_i32_range [of r] by (auto simp: int64_def to_i32_id)

lemma int_str_no_colon: "CHR '':'' \<notin> set (int_str n)"
proof -
  have "\<not> isdigit (CHR '':'')" by code_simp
  then show ?thesis using nat_str_10_digits by (auto simp: int_str_def list_all_iff)
qed

lemma nums_no_colon: "CHR '':'' \<notin> set (nums rs)"
  by (cases rs) (auto simp: nums_def int_str_no_colon)

lemma nums_dir_first:
  assumes "rs \<noteq> []"
  shows "\<exists>r \<in> set rs. \<exists>qs. nums_dir aflg rs = nums (r # qs)"
proof (cases "CHR ''~'' \<in> set aflg")
  case True
  obtain q qs where "rev rs = q # qs" using assms by (cases "rev rs") auto
  moreover have "q \<in> set rs" using calculation by (metis list.set_intros(1) set_rev)
  ultimately show ?thesis using True by (auto simp: nums_dir_def)
qed (use assms in \<open>cases rs; auto simp: nums_dir_def\<close>)

text \<open>The address an attribute gets is of the same type, and its first register is acquired.\<close>

definition reads_acq :: "string \<Rightarrow> string \<Rightarrow> 's mdcontr \<Rightarrow> bool" where
  "reads_acq tpn aids C \<longleftrightarrow> (\<exists>dt. parse0 tpn 0 ''_'' = Inr dt \<and> (dt \<in> kinds \<and> 0 \<le> first_reg aids \<longrightarrow> acquired C dt (first_reg aids)))"

definition line_done :: "'s mdcontr \<Rightarrow> bool \<Rightarrow> (string \<times> string \<times> 's mdcontr) res \<Rightarrow> bool" where
  "line_done C rd r \<longleftrightarrow> r = Inl Overflow \<or> (\<exists>tpn aids C'. r = Inr (tpn, aids, C') \<and> CHR '':'' \<notin> set tpn \<and> CHR '':'' \<notin> set aids
     \<and> keeps_regs C C' \<and> (rd \<longrightarrow> reads_acq tpn aids C'))"

lemma ssubstr_set: "ssubstr s i n = Inr t \<Longrightarrow> set t \<subseteq> set s"
  by (auto simp: ssubstr_def split: if_splits dest: in_set_dropD in_set_takeD)

lemma parse_loop_set: "parse_loop path level sep merge a t = Inr (r, e) \<Longrightarrow> set r \<subseteq> set path"
proof (induction path level sep merge a t arbitrary: r e rule: parse_loop.induct)
  case (1 path level sep merge a t)
  show ?case
  proof (cases "sfind path sep a")
    case None
    with 1(2) show ?thesis
      by (auto simp: parse_loop.simps [of path level sep merge a t] rbind_Inr dest: ssubstr_set split: if_splits)
  next
    case (Some u)
    with 1 show ?thesis
      by (auto simp: parse_loop.simps [of path level sep merge a t] rbind_Inr Let_def dest: ssubstr_set split: if_splits)
  qed
qed

lemma parse0_set: "parse0 s level sep = Inr t \<Longrightarrow> set t \<subseteq> set s"
  by (auto simp: parse0_def strParse_def rbind_Inr Let_def dest: parse_loop_set split: if_splits)

lemma parse0_none: "c \<notin> set s \<Longrightarrow> parse0 s 1 [c] = Inr []"
  using sfind_char [of 0 s c]
  by (simp add: parse0_def strParse_def Let_def size_of_def parse_loop.simps [of s 1 "[c]" False 0 0])

lemma takeWhile_app: "c \<in> set s \<Longrightarrow> takeWhile (\<lambda>x. x \<noteq> c) (s @ t) = takeWhile (\<lambda>x. x \<noteq> c) s"
  by (induction s) auto

lemma rbind_reg_next:
  assumes "\<And>r. line_done C rd (f (to_i32 r))"
  shows "line_done C rd (rbind (reg_next ai level prev) f)"
proof (cases "reg_next ai level prev = Inl Overflow")
  case False
  then obtain r where "reg_next ai level prev = Inr (to_i32 r)" using reg_next_total [of ai level prev] by auto
  then show ?thesis using assms [of r] by simp
qed (simp add: line_done_def)

lemma several_done:
  assumes "keeps_regs C C1" "rd \<Longrightarrow> dt \<in> kinds \<Longrightarrow> 0 \<le> r \<Longrightarrow> acquired C1 dt r" "parse0 atp 0 ''_'' = Inr dt"
    "CHR '':'' \<notin> set atp" "CHR '':'' \<notin> set aids" "int64 q" "to_i32 q = q" "q \<in> set (r # rs)" "\<exists>qs. aids = nums (q # qs)"
  shows "line_done C rd (rbind (regVals_if rd rs dt C1) (\<lambda>C2. Inr (atp, aids, C2)))"
proof -
  have f: "first_reg aids = q" using assms(6,7,9) by (auto simp: first_reg_def strtol_nums)
  have "\<not> mMerge C1" "blocks_ok C1" using assms(1) by (simp_all add: keeps_regs_def)
  from regVals_if_acq [OF this, of rd rs dt] show ?thesis
  proof (elim disjE exE conjE)
    fix C2 assume c: "regVals_if rd rs dt C1 = Inr C2" "keeps_regs C1 C2"
      "rd \<and> dt \<in> kinds \<longrightarrow> (\<forall>r \<in> set rs. 0 \<le> r \<longrightarrow> acquired C2 dt r)"
    have "reads_acq atp aids C2" if "rd"
      using c(2,3) assms(2,3,8) that unfolding reads_acq_def f by (auto simp: keeps_regs_def)
    then show ?thesis using c(1) keeps_regs_trans [OF assms(1) c(2)] assms(4,5) by (simp add: line_done_def)
  qed (simp add: line_done_def)
qed

lemma line_regs_done:
  assumes "\<not> mMerge C" "blocks_ok C" "parse0 atp 0 ''_'' = Inr dt" "parse0 atp 1 ''_'' = Inr sub"
    "CHR '':'' \<notin> set atp" "CHR '':'' \<notin> set ai"
  shows "line_done C rd (line_regs atp dt sub ai aflg rd C)"
proof -
  define reg where "reg = to_i32 (strtol 0 ai)"
  have rg: "int64 reg" "to_i32 reg = reg" by (simp_all add: reg_def to_i32_int64)
  have "(if rd then regVal reg dt (CHR ''s'' \<in> set aflg) C else Inr C) = Inl Overflow \<or>
    (\<exists>C1. (if rd then regVal reg dt (CHR ''s'' \<in> set aflg) C else Inr C) = Inr C1 \<and> keeps_regs C C1
       \<and> (rd \<and> dt \<in> kinds \<and> 0 \<le> reg \<longrightarrow> acquired C1 dt reg))"
    using regVal_acq [OF assms(1,2), of reg dt "CHR ''s'' \<in> set aflg"] assms(1,2) by (auto simp: keeps_regs_def)
  then show ?thesis
  proof (elim disjE exE conjE)
    fix C1 assume c: "(if rd then regVal reg dt (CHR ''s'' \<in> set aflg) C else Inr C) = Inr C1" "keeps_regs C C1"
       "rd \<and> dt \<in> kinds \<and> 0 \<le> reg \<longrightarrow> acquired C1 dt reg"
    have plain: "line_done C rd (Inr (tpn, aids, C1))"
      if "parse0 tpn 0 ''_'' = Inr dt" "first_reg aids = reg" "CHR '':'' \<notin> set tpn" "CHR '':'' \<notin> set aids" for tpn aids
      using that c(2,3) by (auto simp: line_done_def reads_acq_def)
    obtain p1 where p1: "parse0 ai 1 ''.'' = Inr p1" using parse0_total [of "''.''" ai 1] by auto
    obtain t where t: "parse0 ai 1 '','' = Inr t" using parse0_total [of "'',''" ai 1] by auto
    note several = several_done [OF c(2) _ assms(3,5) nums_no_colon]
    have dir: "line_done C rd (rbind (regVals_if rd rs dt C1) (\<lambda>C2. Inr (atp, nums_dir aflg (reg # rs), C2)))"
      if rs: "\<forall>r \<in> set rs. int64 r \<and> to_i32 r = r" for rs
    proof -
      obtain q qs where q: "q \<in> set (reg # rs)" "nums_dir aflg (reg # rs) = nums (q # qs)"
        using nums_dir_first [of "reg # rs" aflg] by auto
      have qq: "int64 q" "to_i32 q = q" using q(1) rs rg by auto
      show ?thesis unfolding q(2) by (rule several [OF _ qq]) (use c(3) q(1) in auto)
    qed
    show ?thesis
    proof (cases "at atp 0 = CHR ''R''")
      case False
      then show ?thesis using c(1) plain [OF assms(3) _ assms(5,6)] by (simp add: line_regs_def Let_def reg_def [symmetric] first_reg_def)
    next
      case R: True
      consider "sub = ''b''" | "sub \<in> {''i4'', ''u4'', ''f''}" | "sub \<in> {''i8'', ''d''}" | "sub = ''s''"
        | "sub \<notin> {''b'', ''i4'', ''u4'', ''f'', ''i8'', ''d'', ''s''}" by auto
      then show ?thesis
      proof cases
        case 1
        then have u: "CHR ''_'' \<in> set atp" using assms(4) parse0_none [of "CHR ''_''" atp] by auto
        have "parse0 (atp @ p1) 0 ''_'' = Inr dt" using assms(3) by (simp add: parse0_first takeWhile_app [OF u])
        moreover have "first_reg (takeWhile (\<lambda>x. x \<noteq> CHR ''.'') ai) = reg"
          by (simp add: first_reg_def reg_def strtol_takeWhile [OF cuts_seps(2)])
        moreover have "CHR '':'' \<notin> set (atp @ p1)" "CHR '':'' \<notin> set (takeWhile (\<lambda>x. x \<noteq> CHR ''.'') ai)"
          using assms(5,6) parse0_set [OF p1] by (auto dest: set_takeWhileD)
        ultimately show ?thesis using c(1) 1 R p1 plain by (simp add: line_regs_def Let_def reg_def [symmetric] parse0_first)
      next
        case 2
        have "line_done C rd (rbind (reg_next ai 1 reg) (\<lambda>reg2. rbind (regVals_if rd [reg2] dt C1) (\<lambda>C2.
            Inr (atp, nums_dir aflg [reg, reg2], C2))))"
          by (rule rbind_reg_next, rule dir) (auto simp: to_i32_int64)
        then show ?thesis using c(1) R 2 by (auto simp: line_regs_def Let_def reg_def [symmetric])
      next
        case 3
        have "line_done C rd (rbind (reg_next ai 1 reg) (\<lambda>reg2. rbind (reg_next ai 2 reg2) (\<lambda>reg3. rbind (reg_next ai 3 reg3) (\<lambda>reg4.
            rbind (regVals_if rd [reg2, reg3, reg4] dt C1) (\<lambda>C2. Inr (atp, nums_dir aflg [reg, reg2, reg3, reg4], C2))))))"
          by (rule rbind_reg_next, rule rbind_reg_next, rule rbind_reg_next, rule dir) (auto simp: to_i32_int64)
        then show ?thesis using c(1) R 3 by (auto simp: line_regs_def Let_def reg_def [symmetric])
      next
        case 4
        have "line_done C rd (rbind (regVals_if rd [reg + 1 .. reg + rN - 1] dt C1) (\<lambda>C2. Inr (atp, nums [reg, rN], C2)))" for rN
          by (rule several [OF _ rg]) (use c(3) in auto)
        then show ?thesis using c(1) 4 R t by (simp add: line_regs_def Let_def reg_def [symmetric])
      next
        case 5
        then show ?thesis using c(1) R plain [OF assms(3) _ assms(5,6)]
          by (simp add: line_regs_def Let_def reg_def [symmetric] first_reg_def)
      qed
    qed
  qed (simp add: line_regs_def Let_def reg_def [symmetric] line_done_def)
qed

section \<open>Loading a configuration\<close>

text \<open>An attribute of a field without limits, as the configuration makes it.\<close>

definition std_attr :: "'h tval \<Rightarrow> bool" where
  "std_attr a \<longleftrightarrow> attr_ok a \<and> a_limI a = (0, 0) \<and> a_limR a = (0, 0)"

definition attr_acq :: "'h tval \<Rightarrow> 's mdcontr \<Rightarrow> bool" where
  "attr_acq a C \<longleftrightarrow> (\<exists>tpn aids mode. addr_parts (a_res a) = Inr (tpn, aids, mode)
     \<and> (CHR ''r'' \<in> set mode \<or> CHR ''w'' \<notin> set mode) \<and> reads_acq tpn aids C)"

definition prm_loaded :: "string list \<times> 'h tval list \<times> 's mdcontr \<Rightarrow> bool" where
  "prm_loaded = (\<lambda>(als, el, C). \<not> mMerge C \<and> blocks_ok C \<and> distinct (map a_id el) \<and> (\<forall>a \<in> set el. std_attr a)
     \<and> (\<forall>a \<in> set el. a_id a \<in> set als \<and> has_flg a DirRead \<longrightarrow> attr_acq a C))"

lemma attr_acq_kept: "attr_acq a C \<Longrightarrow> keeps_regs C C' \<Longrightarrow> attr_acq a C'"
  by (auto simp: attr_acq_def reads_acq_def keeps_regs_def)

lemma flt_zero [simp]: "\<not> flt 0 0"
  by code_simp

lemma EVAL_REAL_num [simp]: "\<not> is_nan EVAL_REAL"
  by code_simp

lemma std_attr_upd [simp]: "std_attr (a\<lparr>a_flg := f, a_descr := d\<rparr>) \<longleftrightarrow> std_attr a" "std_attr (a\<lparr>a_res := r\<rparr>) \<longleftrightarrow> std_attr a"
  by (auto simp: std_attr_def attr_ok_def in_limI_def in_limR_def has_flg_def split: vtype.split)

lemma std_attr_new: "std_attr (new_attr E i t)"
  by (auto simp: std_attr_def attr_ok_def in_limI_def in_limR_def new_attr_def av_setFld_def fld_val_def split: vtype.split)

lemma new_attr_id [simp]: "a_id (new_attr E i t) = i"
  by (simp add: new_attr_def av_setFld_def)

lemma fld_take_set: "a \<in> set (fld_take E i t el) \<Longrightarrow> a \<in> set el \<or> a = new_attr E i t"
  by (auto simp: fld_take_def split: option.splits if_splits)

lemma fld_take_distinct: "distinct (map a_id el) \<Longrightarrow> distinct (map a_id (fld_take E i t el))"
  by (auto simp: fld_take_def find_None_iff distinct_map_filter split: option.split)

lemma fld_upd_twice:
  assumes "b \<in> set (fld_upd i g (fld_upd i f el))" "\<And>a. a_id (f a) = a_id a"
  shows "\<exists>a \<in> set el. b = (if a_id a = i then g (f a) else a)"
  using assms(1) by (auto simp: fld_upd_def assms(2))

lemma fld_upd_ids: "(\<And>a. a_id (f a) = a_id a) \<Longrightarrow> map a_id (fld_upd i f el) = map a_id el"
  by (simp add: fld_upd_def)

lemma no_dirs: "flg AND (DirRead OR DirWrite) = 0 \<Longrightarrow> flg AND DirRead = 0"
proof -
  have "flg AND DirRead = (flg AND (DirRead OR DirWrite)) AND DirRead" by (simp add: and.assoc)
  then show "flg AND (DirRead OR DirWrite) = 0 \<Longrightarrow> flg AND DirRead = 0" by simp
qed

lemma line_flg_read: "line_flg atp aflg AND DirRead \<noteq> 0 \<Longrightarrow> CHR ''r'' \<in> set aflg \<or> CHR ''w'' \<notin> set aflg"
  by (auto simp: line_flg_def Let_def and.assoc split: if_splits)

lemma attr_line_loaded:
  assumes "prm_loaded (als, el, C)"
  shows "attr_line E base sel (als, el, C) = Inl Overflow \<or>
    (\<exists>als' el' C'. attr_line E base sel (als, el, C) = Inr (als', el', C') \<and> prm_loaded (als', el', C') \<and> keeps_regs C C')"
proof -
  have C: "\<not> mMerge C" "blocks_ok C" "keeps_regs C C" using assms by (simp_all add: prm_loaded_def keeps_regs_def)
  obtain atp ai aflg aid anm where l: "line_parts sel = Inr (atp, ai, aflg, aid, anm)"
    "CHR '':'' \<notin> set atp" "CHR '':'' \<notin> set ai" "CHR '':'' \<notin> set aflg"
    using line_parts_ok by blast
  obtain dt sub where p: "parse0 atp 0 ''_'' = Inr dt" "parse0 atp 1 ''_'' = Inr sub"
    using parse0_total [of "''_''" atp] by (metis list.distinct(1))
  define flg where "flg = line_flg atp aflg"
  define el1 where "el1 = fld_upd aid (\<lambda>a. a\<lparr>a_flg := flg, a_descr := anm\<rparr>) (fld_take E aid (line_type atp sub) el)"
  define r where "r = (if flg AND (DirRead OR DirWrite) \<noteq> 0 then line_regs atp dt sub ai aflg (flg AND DirRead \<noteq> 0) C else Inr (atp, ai, C))"
  have r: "r = Inl Overflow \<or> (\<exists>tpn aids C'. r = Inr (tpn, aids, C') \<and> CHR '':'' \<notin> set tpn \<and> CHR '':'' \<notin> set aids
     \<and> keeps_regs C C' \<and> (flg AND DirRead \<noteq> 0 \<longrightarrow> reads_acq tpn aids C'))"
  proof (cases "flg AND (DirRead OR DirWrite) = 0")
    case True
    then have "flg AND DirRead = 0" by (rule no_dirs)
    then show ?thesis using True l(2,3) C(3) by (simp add: r_def)
  next
    case False
    then show ?thesis using line_regs_done [OF C(1,2) p l(2,3), of "flg AND DirRead \<noteq> 0" aflg] by (simp add: r_def line_done_def)
  qed
  show ?thesis
  proof (cases "sel = [] \<or> at sel 0 = CHR ''#'' \<or> aid = [] \<or> (aid \<in> set base \<and> \<not> fldPresent aid el) \<or> aid \<in> set als")
    case True
    then show ?thesis using assms C(3) by (auto simp: attr_line_def l p)
  next
    case False
    then have "\<not> (sel = [] \<or> at sel 0 = CHR ''#'')" "\<not> (aid = [] \<or> (aid \<in> set base \<and> \<not> fldPresent aid el) \<or> aid \<in> set als)" by blast+
    then have line: "attr_line E base sel (als, el, C) =
        rbind r (\<lambda>(atp', ai', C1). Inr (aid # als, fld_upd aid (\<lambda>a. a\<lparr>a_res := atp' @ '':'' @ ai' @ '':'' @ aflg\<rparr>) el1, C1))"
      unfolding r_def el1_def flg_def by (simp only: attr_line_def l p Let_def prod.case rbind_simps if_False)
    from r show ?thesis
    proof (elim disjE exE conjE)
      assume "r = Inl Overflow"
      then show ?thesis by (simp add: line)
    next
      fix tpn aids C' assume c: "r = Inr (tpn, aids, C')" "CHR '':'' \<notin> set tpn" "CHR '':'' \<notin> set aids" "keeps_regs C C'"
        "flg AND DirRead \<noteq> 0 \<longrightarrow> reads_acq tpn aids C'"
      define el' where "el' = fld_upd aid (\<lambda>a. a\<lparr>a_res := tpn @ '':'' @ aids @ '':'' @ aflg\<rparr>) el1"
      have e: "attr_line E base sel (als, el, C) = Inr (aid # als, el', C')"
        using c(1) by (simp add: line el'_def)
      have el': "a_id b = aid \<and> std_attr b \<and> (has_flg b DirRead \<longrightarrow> attr_acq b C') \<or> b \<in> set el \<and> a_id b \<noteq> aid"
        if b: "b \<in> set el'" for b
      proof -
        obtain a where a: "a \<in> set (fld_take E aid (line_type atp sub) el)"
          "b = (if a_id a = aid then a\<lparr>a_flg := flg, a_descr := anm, a_res := tpn @ '':'' @ aids @ '':'' @ aflg\<rparr> else a)"
          using fld_upd_twice [OF b [unfolded el'_def el1_def]] by auto
        have "std_attr a" using fld_take_set [OF a(1)] assms std_attr_new by (auto simp: prm_loaded_def)
        moreover have "addr_parts (tpn @ '':'' @ aids @ '':'' @ aflg) = Inr (tpn, aids, aflg)" by (rule addr_parts_eq [OF c(2,3) l(4)])
        ultimately show ?thesis using a(2) fld_take_set [OF a(1)] c(5) line_flg_read [of atp aflg] unfolding flg_def by (auto simp: attr_acq_def has_flg_def)
      qed
      have ids: "map a_id el' = map a_id (fld_take E aid (line_type atp sub) el)" by (simp add: el'_def el1_def fld_upd_ids)
      have "distinct (map a_id el')" unfolding ids by (rule fld_take_distinct) (use assms in \<open>simp add: prm_loaded_def\<close>)
      moreover have "std_attr b" "a_id b \<in> set (aid # als) \<and> has_flg b DirRead \<longrightarrow> attr_acq b C'" if "b \<in> set el'" for b
        using el' [OF that] assms c(4) by (auto simp: prm_loaded_def intro: attr_acq_kept)
      ultimately have "prm_loaded (aid # als, el', C')" using c(4) by (simp add: prm_loaded_def keeps_regs_def)
      then show ?thesis using e c(4) by blast
    qed
  qed
qed

lemma attr_each_loaded:
  assumes "prm_loaded (als, el, C)"
  shows "attr_each E base ls (als, el, C) = Inl Overflow \<or>
    (\<exists>als' el' C'. attr_each E base ls (als, el, C) = Inr (als', el', C') \<and> prm_loaded (als', el', C') \<and> keeps_regs C C')"
  using assms
proof (induction ls arbitrary: als el C)
  case (Cons l ls)
  from attr_line_loaded [OF Cons.prems, of E base l] show ?case
  proof (elim disjE exE conjE)
    fix als1 el1 C1 assume c: "attr_line E base l (als, el, C) = Inr (als1, el1, C1)" "prm_loaded (als1, el1, C1)" "keeps_regs C C1"
    from Cons.IH [OF c(2)] c show ?thesis by (auto intro: keeps_regs_trans)
  qed simp
qed (simp add: prm_loaded_def keeps_regs_def)

lemma loadDATA_loaded:
  assumes "\<not> mMerge C" "blocks_ok C" "distinct (map a_id (pEl P))" "\<forall>a \<in> set (pEl P). std_attr a"
  shows "loadDATA E P C = Inl Overflow \<or> (\<exists>P' C'. loadDATA E P C = Inr (P', C') \<and> keeps_regs C C' \<and> distinct (map a_id (pEl P'))
    \<and> (\<forall>a \<in> set (pEl P'). std_attr a \<and> (has_flg a DirRead \<longrightarrow> attr_acq a C')))"
proof -
  have "prm_loaded ([], pEl P, C)" using assms by (simp add: prm_loaded_def)
  from attr_each_loaded [OF this, of E "prm_base P" "attr_lines (attrLs P) 0"] show ?thesis
  proof (elim disjE exE conjE)
    fix als' el' C' assume c: "attr_each E (prm_base P) (attr_lines (attrLs P) 0) ([], pEl P, C) = Inr (als', el', C')"
      "prm_loaded (als', el', C')" "keeps_regs C C'"
    then show ?thesis by (auto simp: loadDATA_def prm_drop_def prm_loaded_def distinct_map_filter)
  qed (simp add: loadDATA_def)
qed

text \<open>C39. Without the merging of fragments, loading any configuration of a standard parameter ends with the
  overflow of the number of a register, or leaves the blocks of the controller in order with everything acquired before
  still acquired, and the parameter with attributes of identifiers of their own, of values of their types, each of
  which, when it is for reading, has an address that parses to a type and registers whose first one, when it is of a
  kind of registers and not negative, is acquired.\<close>

theorem loadDATA_ok:
  assumes "\<not> mMerge C" "blocks_ok C" "distinct (map a_id (pEl P))" "\<forall>a \<in> set (pEl P). std_attr a"
  shows "loadDATA E P C = Inl Overflow \<or> (\<exists>P' C'. loadDATA E P C = Inr (P', C') \<and> blocks_ok C'
    \<and> (\<forall>t j. acquired C t j \<longrightarrow> acquired C' t j) \<and> distinct (map a_id (pEl P'))
    \<and> (\<forall>a \<in> set (pEl P'). std_attr a \<and> (has_flg a DirRead \<longrightarrow> (\<exists>tpn aids mode dt. addr_parts (a_res a) = Inr (tpn, aids, mode)
         \<and> parse0 tpn 0 ''_'' = Inr dt \<and> (dt \<in> kinds \<and> 0 \<le> first_reg aids \<longrightarrow> acquired C' dt (first_reg aids))))))"
  using loadDATA_loaded [OF assms, of E] by (fastforce simp: keeps_regs_def attr_acq_def reads_acq_def)

definition wit_prm :: "nat mdprm" where
  "wit_prm = \<lparr>prm_en = True, attrLs = ''R_i2:10:r:x'', prm_base = [''SHIFR''], pEl = [], acqErr = []\<rparr>"

definition wit_read :: "nat tval" where
  "wit_read = (new_attr wit_env ''x'' Integer)\<lparr>a_flg := NoWrite OR DirRead, a_descr := ''x'', a_res := ''R_i2:10:r''\<rparr>"

lemma wit_load: "loadDATA wit_env wit_prm (new_contr ''c'' s) =
    Inr (wit_prm\<lparr>pEl := [wit_read]\<rparr>, (new_contr ''c'' s)\<lparr>acqBlks := [new_blk 20 2]\<rparr>)"
proof -
  have l: "attr_lines (attrLs wit_prm) 0 = [''R_i2:10:r:x'']" by code_simp
  have p: "line_parts ''R_i2:10:r:x'' = Inr (''R_i2'', ''10'', ''r'', ''x'', ''x'')" by code_simp
  have t: "parse0 ''R_i2'' 0 ''_'' = Inr ''R''" "parse0 ''R_i2'' 1 ''_'' = Inr ''i2''" "line_type ''R_i2'' ''i2'' = Integer"
    "line_flg ''R_i2'' ''r'' = NoWrite OR DirRead" "at ''R_i2:10:r:x'' 0 = CHR ''R''" "at ''R_i2'' 0 = CHR ''R''" by code_simp+
  have n: "to_i32 (strtol 0 ''10'') = 10" by code_simp
  have r: "regVal 10 ''R'' False (new_contr ''c'' s) = Inr ((new_contr ''c'' s)\<lparr>acqBlks := [new_blk 20 2]\<rparr>)"
    by (simp add: regVal_def new_contr_def)
  have "line_regs ''R_i2'' ''R'' ''i2'' ''10'' ''r'' True (new_contr ''c'' s) =
      Inr (''R_i2'', ''10'', (new_contr ''c'' s)\<lparr>acqBlks := [new_blk 20 2]\<rparr>)"
    by (simp add: line_regs_def n r t)
  then show ?thesis unfolding loadDATA_def l prm_drop_def
    by (simp add: attr_line_def p t wit_prm_def fld_take_def fld_upd_def wit_read_def)
qed

lemma loadDATA_ok_witness:
  "\<exists>P' C'. loadDATA wit_env wit_prm (new_contr ''c'' ()) = Inr (P', C') \<and> acquired C' ''R'' 10"
proof -
  have 1: "parse0 ''R_i2'' 0 ''_'' = Inr ''R''" "addr_parts ''R_i2:10:r'' = Inr (''R_i2'', ''10'', ''r'')" "first_reg ''10'' = 10"
     "has_flg wit_read DirRead" "a_res wit_read = ''R_i2:10:r''" "''R'' \<in> kinds"
    by code_simp+
  show ?thesis
    using loadDATA_ok [of "new_contr ''c'' ()" wit_prm wit_env] 1
    by (simp add: wit_load) (simp add: new_contr_def blocks_ok_def wit_prm_def)
qed

section \<open>From the configuration to the value\<close>

lemma getVal_word:
  assumes "tmDelay C \<le> 0" "addr_parts addr = Inr (tpn, aids, mode)" "parse0 tpn 0 ''_'' = Inr ''R''" "parse0 tpn 1 ''_'' = Inr sub"
    "sub \<in> {[], ''u2'', ''i2''}" "CHR ''r'' \<in> set mode \<or> CHR ''w'' \<notin> set mode"
    "getValR (first_reg aids) False (CHR ''e'' \<in> set mode) C err = (uint (v :: u16), err)"
  shows "getVal M addr C err = Inr (vint (if sub = ''i2'' then sint v else uint v), err)"
proof -
  have t: "takeWhile (\<lambda>x. x \<noteq> CHR ''_'') tpn = ''R''" using assms(3) by (simp add: parse0_first)
  then obtain r where r: "tpn = CHR ''R'' # r" "takeWhile (\<lambda>x. x \<noteq> CHR ''_'') r = []"
    by (cases tpn) (auto split: if_splits)
  then have a: "at tpn 0 = CHR ''R''" "at tpn 1 \<noteq> CHR ''I''" by (cases r; auto simp: at_def split: if_splits)+
  have e: "uint v \<noteq> EVAL_INT" using uint_ge_0 [of v] by linarith
  have m: "tpn \<noteq> []" "at tpn (Suc 0) \<noteq> CHR ''I''" "\<not> 0 < tmDelay C"
    using assms(1) r(1) a(2) by auto
  have ats: "at ''u2'' 0 = CHR ''u''" "at ''u2'' (Suc 0) = CHR ''2''" "at ''i2'' 0 = CHR ''i''" "at ''i2'' (Suc 0) = CHR ''2''" "at [] i = nul" for i
    by (simp_all add: at_def)
  consider "sub = []" | "sub = ''u2''" | "sub = ''i2''" using assms(5) by blast
  then show ?thesis
    by cases (simp_all add: getVal_def assms(2,4,7) m(1-3) a(1) e first_reg_def [symmetric] ats Let_def, (use assms(6) in blast)+)
qed

text \<open>C40. From the line of the configuration to the value.  Without the merging of fragments, let the loading of a
  configuration of a standard parameter have left the controller with blocks of holding registers only, of at most 250
  bytes each, and let the first node of the server hold integers in all their registers.  Then a cycle of acquisition over
  a good connection reads every readable attribute of one 16-bit holding register (the types \<open>R\<close>, \<open>R_u2\<close> and \<open>R_i2\<close>) as the word
  the server holds in this register, in the order of bytes of its mode and with the sign of its type.\<close>

theorem attr_reads_server:
  assumes "\<not> mMerge C" "blocks_ok C" "distinct (map a_id (pEl P))" "\<forall>a \<in> set (pEl P). std_attr a"
    "loadDATA E P C = Inr (P', C')" "a \<in> set (pEl P')" "has_flg a DirRead"
    "addr_parts (a_res a) = Inr (tpn, aids, mode)" "parse0 tpn 0 ''_'' = Inr ''R''" "parse0 tpn 1 ''_'' = Inr sub"
    "sub \<in> {[], ''u2'', ''i2''}" "0 \<le> first_reg aids"
    "md_tr M = link E' gate itr serial" "connected M C' serial" "tmDelay C' \<le> 0"
    "\<forall>b \<in> set (acqBlks C'). bsize b \<le> 250" "acqBlksIn C' = []" "acqBlksCoil C' = []" "acqBlksCoilIn C' = []"
    "server_holds itr (mPrt C') (word_of_int (mNode C')) W (trst C')" "\<forall>k. acquired C' ''R'' k \<longrightarrow> k < 65536 \<and> W k \<noteq> None"
  shows "\<exists>C'' w. acq_cycle M C' = Inr C'' \<and> W (first_reg aids) = Some w
    \<and> (let v = endian (CHR ''e'' \<in> set mode) w in getVal M (a_res a) C'' err = Inr (vint (if sub = ''i2'' then sint v else uint v), err))"
proof -
  have k: "keeps_regs C C'" "attr_acq a C'" using loadDATA_loaded [OF assms(1-4), of E] assms(5-7) by auto
  then have b: "blocks_ok C'" by (simp add: keeps_regs_def)
  from k(2) assms(8,9,12) have r: "acquired C' ''R'' (first_reg aids)" "CHR ''r'' \<in> set mode \<or> CHR ''w'' \<notin> set mode"
    by (auto simp: attr_acq_def reads_acq_def kinds_def)
  obtain C'' where c: "acq_cycle M C' = Inr C''" "tmDelay C'' = tmDelay C'"
    "\<forall>k isLE err. acquired C' ''R'' k \<longrightarrow> (\<exists>w. W k = Some w \<and> getValR k False isLE C'' err = (uint (endian isLE w), err))"
    using acq_cycle_reads [OF assms(13-15) b assms(16-21)] by blast
  obtain w where w: "W (first_reg aids) = Some w"
    "getValR (first_reg aids) False (CHR ''e'' \<in> set mode) C'' err = (uint (endian (CHR ''e'' \<in> set mode) w), err)"
    using c(3) r(1) by blast
  have "tmDelay C'' \<le> 0" using c(2) assms(15) by simp
  from getVal_word [OF this assms(8-11) r(2) w(2)] show ?thesis using c(1) w(1) by (auto simp: Let_def)
qed

lemma attr_reads_server_witness:
  "\<exists>C'. acq_cycle wit_md ((new_contr ''c'' wit_server)\<lparr>acqBlks := [new_blk 20 2]\<rparr>) = Inr C'
     \<and> getVal wit_md (a_res wit_read) C' [] = Inr (vint 7, [])"
proof -
  define W where "W = [10 :: int \<mapsto> (0x0700 :: u16)]"
  let ?C = "new_contr ''c'' wit_server" and ?C' = "(new_contr ''c'' wit_server)\<lparr>acqBlks := [new_blk 20 2]\<rparr>"
  have sw: "swap16 7 = 0x0700" "swap16 0x0700 = 7" by (simp_all add: swap16_def)
  have w: "(ucast (drop_bit 0 (7::u64)) :: u16) = 7" by simp
  have 1: "parse0 ''R_i2'' 0 ''_'' = Inr ''R''" "parse0 ''R_i2'' 1 ''_'' = Inr ''i2''" "first_reg ''10'' = 10"
    "addr_parts (a_res wit_read) = Inr (''R_i2'', ''10'', ''r'')" "has_flg wit_read DirRead" by code_simp+
  have aq: "acquired ?C' ''R'' k \<longleftrightarrow> k = 10" for k by (auto simp: acquired_def covers_def new_blk_def bend_def bsize_def)
  have S: "server_holds ''Sockets.in'' (mPrt ?C') (word_of_int (mNode ?C')) W (trst ?C')"
    by (simp add: server_holds_def new_contr_def wit_server_def W_def wit_node_def Let_def ndata_new_def int_reg_def int_slot_def
        content_def eff_def word_get_def numEnd_def i16_BE_def sw)
  have "\<exists>C'' w. acq_cycle wit_md ?C' = Inr C'' \<and> W (first_reg ''10'') = Some w \<and> (let v = endian (CHR ''e'' \<in> set ''r'') w
     in getVal wit_md (a_res wit_read) C'' [] = Inr (vint (if ''i2'' = ''i2'' then sint v else uint v), []))"
  proof (rule attr_reads_server [OF _ _ _ _ wit_load _ 1(5,4,1,2), where E' = wit_env and gate = "\<lambda>_ _. None" and itr = "''Sockets.in''" and serial = False])
    show "\<not> mMerge ?C" "blocks_ok ?C" "distinct (map a_id (pEl wit_prm))" "\<forall>a \<in> set (pEl wit_prm). std_attr a"
      by (simp_all add: new_contr_def blocks_ok_def wit_prm_def)
    show "connected wit_md ?C' False" by (simp add: connected_def form_ok_def new_contr_def)
    show "\<forall>k. acquired ?C' ''R'' k \<longrightarrow> k < 65536 \<and> W k \<noteq> None" by (simp add: aq W_def)
  qed (use S in \<open>simp_all add: 1(3) wit_md_def new_contr_def bsize_def new_blk_def\<close>)
  then show ?thesis by (auto simp: 1(3) W_def endian_def i16_BE_def sw Let_def)
qed

section \<open>A lost write\<close>

text \<open>The previous value is kept in 32 bits at the writing of an integer: the reserved value becomes 1, and
  writing 1 over an attribute that has no value yet sends nothing to the device.\<close>

lemma write_one_lost:
  assumes "a_tp a = Integer" "a_val a = VI EVAL_INT" "\<not> a_cfg a" "\<not> has_flg a NoWrite" "has_flg a DirWrite"
    "a_limI a = (0, 0)" "a_arch a = None"
  shows "av_setI E (prm_env E R M status True True) 1 tm False a w =
    Inr (a\<lparr>a_val := VI 1, a_time := (if tm = 0 then ar_now R (fst w) else tm)\<rparr>, w)"
proof -
  have l: "lim_int a 1 = 1" using assms(6) by (simp add: lim_int_def)
  have t: "to_i32 EVAL_INT = 1" by code_simp
  have ev: "isEVal E (as_variant Integer (VI 1)) = Inr False" "veq E (as_variant Integer (VI 1)) (as_variant Integer (VI 1)) = Inr True"
    by (simp_all add: isEVal_def veq_def as_variant_def new_variant_def getI_def)
  have h: "has_flg (a\<lparr>a_val := VI 1, a_time := x\<rparr>) f = has_flg a f" for x f by (simp add: has_flg_def)
  obtain q C err where w: "w = (q, C, err)" by (cases w)
  show ?thesis
    using assms by (simp add: av_setI_def av_putI_def guarded_def av_put_def l t prm_env_def owner_env_def prm_vlSet_def ev to_arch_def h w Let_def)
qed

end
