(* ===== verification/Spec2Isabelle.thy ===== *)
theory Spec2Isabelle
  imports Modbus_Frame Tval_Series Tsys_Path Xml_Roundtrip Xml_Total Tregexp Mess_Requests Tfunction Tarray Modbus_Exchange Modbus_Attrs
begin

text \<open>
  A model of the core of OpenSCADA, a system for supervisory control and data acquisition in C++
  (\<^verbatim>\<open>src/src\<close>), and of its ModBus modules.

  \<^bold>\<open>The parts.\<close>  OpenSCADA is a tree of nodes.  A station reads the devices by modules of
  data sources, keeps their values in attributes and buffers, archives values and messages, calculates
  over them by functions, and talks to other stations and to the user interfaces by XML requests.  What
  the parts hand to each other are variants (\<open>TVariant\<close>), texts in several codings (\<open>TSYS\<close>), trees of
  XML (\<open>XMLNode\<close>), buffers of values (\<open>TValBuf\<close>), messages (\<open>TArchiveS\<close>) and, for ModBus, frames and
  PDUs.  These are modelled here.  Each theory opens with what it holds:

  \<^item> \<open>Cpp_Base\<close>, \<open>Cpp_String\<close>, \<open>Cpp_Real\<close>, \<open>Cpp_Map\<close>: the prelude.  Integers and words, \<open>std::string\<close>,
    \<open>std::map\<close>, the numbers of the C library, the double as its bits, and the failures as values of the type \<open>res\<close>:
    a thrown \<open>TError\<close> or library exception and each kind of undefined behaviour.
  \<^item> \<open>Modbus_Frame\<close> (\<open>TProt\<close> of \<^verbatim>\<open>moduls/daq/ModBus/modbus_prt.cpp\<close>): CRC16 with its tables, LRC and the
    hexadecimal transcoding; the checksum is the standard one, and both checks find the corruptions they
    are meant for.
  \<^item> \<open>Modbus_Node\<close>, \<open>Modbus_Regs\<close> (\<open>Node\<close> of the same file): the table of registers made of the
    identifiers of the inputs and outputs (\<open>regCR\<close>, \<open>setEnable\<close>), and \<open>Node::req\<close> with all its functions over the values
    of \<open>Tfunction\<close>; the form of the answers, and that a range of registers is read back as written.
  \<^item> \<open>Modbus_Prt\<close>, \<open>Modbus_Exchange\<close> (\<open>TProt::outMess\<close>, \<open>TProtIn::mess\<close> of the same file): the requests and the
    input in the forms TCP, RTU and ASCII, with repetitions and incomplete frames; a client gets the answer of
    the node of the server.
  \<^item> \<open>Modbus_Daq\<close>, \<open>Modbus_Blocks\<close>, \<open>Modbus_Acquire\<close> (\<open>TMdContr\<close> of \<^verbatim>\<open>moduls/daq/ModBus/modbus_daq.cpp\<close>): the
    controller of the data source, with the blocks of acquisition, the cycle of requests, the values by
    addresses and the queue of writings; the blocks stay in order and hold what was registered, and a cycle
    over the protocol of \<open>Modbus_Prt\<close> brings what the node of \<open>Modbus_Node\<close> holds.
  \<^item> \<open>Tvalue\<close> (\<open>TVal\<close> of \<^verbatim>\<open>tvalue.cpp\<close>): the attribute, read and written in every type with its limits, over
    an owner, an archive and a clock that are parameters; its values keep their type and limits.
  \<^item> \<open>Modbus_Param\<close>, \<open>Modbus_Attrs\<close> (\<open>TMdPrm\<close> of \<^verbatim>\<open>moduls/daq/ModBus/modbus_daq.cpp\<close>): the standard parameter,
    from the lines of its configuration to the attributes and back to the device; what every configuration
    leaves in order, and that its attributes read what the server holds.
  \<^item> \<open>Tvariant\<close> (\<^verbatim>\<open>tvariant.cpp\<close>) and \<open>Tfunction\<close> (\<^verbatim>\<open>tfunction.cpp\<close>): the typed values, their conversions,
    the reserved "no value", and the sign of modification.
  \<^item> \<open>Tarray\<close> (\<open>TVarObj\<close>, \<open>TArrayObj\<close> of \<^verbatim>\<open>tvariant.cpp\<close>): the properties of an object and the array of the
    user programs; every sequence of its list functions is that of a list, with the search and the sorting.
  \<^item> \<open>Tval_Buf\<close>, \<open>Tval_Flow\<close>, \<open>Tval_Grid\<close>, \<open>Tval_Series\<close> (\<open>TValBuf::TBuf\<close> of \<^verbatim>\<open>tarchval.cpp\<close>): the
    buffer of values in its three modes, its refinement of a sorted series (flow) and of a ring of cells
    (hard grid), and the series of writes, with the locale \<open>value_series\<close> for what the two modes share.
  \<^item> \<open>Tmess_Utf8\<close> (\<^verbatim>\<open>tmess.cpp\<close>), \<open>Tsys_Codec\<close>, \<open>Tsys_Path\<close> (\<^verbatim>\<open>tsys.cpp\<close>): UTF-8, the codings of texts
    and their round trips, the parsing of separated texts, lines and paths.
  \<^item> \<open>Xml\<close>, \<open>Xml_Read\<close>, \<open>Xml_Roundtrip\<close>, \<open>Xml_Total\<close> (\<^verbatim>\<open>xml.cpp\<close>): the tree, saving, the parser; loading
    inverts saving, and ends on every text.
  \<^item> \<open>Tregexp\<close> (\<open>TRegExp\<close> of \<^verbatim>\<open>tvariant.cpp\<close>): the simple patterns and the operations over the PCRE library,
    whose results are a parameter.
  \<^item> \<open>Mess_Buf\<close>, \<open>Mess_Ring\<close>, \<open>Mess_Requests\<close> (\<open>TArchiveS\<close> of \<^verbatim>\<open>tarchives.cpp\<close>): the ring of messages with its
    readers, the requests and the alarms, with the locale \<open>bounded_feed\<close> for the readers of a ring.

  \<^bold>\<open>State and operations.\<close>  A class is a record of its attributes, an operation a function from the state
  and the arguments to the new state and the result, or to a failure.  What an operation asks of code that is
  not modelled (the conversion of a double to a text, PCRE, an archiver, a device behind a gateway) is an
  argument.  Sequences of operations are lists of them; locks are not modelled: one operation here is one
  critical section of the code.

  \<^bold>\<open>Loops.\<close>  Loops over a container are structural recursions or functions with a measure.  Where the code ends by
  the moving of an offset or of an index around a ring the model has fuel, and a lemma shows it to be enough: the
  names of archives and of debug categories (\<open>arch_map_total\<close>, \<open>deb_cats_loop_total\<close>), the categories of an
  archiver (\<open>chkMessOK_total\<close>), the conversions of paths (\<open>paths_total\<close>), the parsing from the end of a text
  for a level that is not negative (\<open>parse_from_end_ends\<close>; with a negative one the code never ends), the scan of the
  soft grid (\<open>soft_get_ends\<close>), the walk over the ring of messages (\<open>walk_buf_fold\<close>, \<open>task_collect_unread\<close>), the simple
  patterns of \<open>TRegExp\<close> (\<open>regexp_simple_glob\<close>) and the parser of XML (\<open>xml_load_ends\<close>).  The replacement of \<open>TRegExp\<close>
  and the concatenation of an array to itself are partial functions, because they may not end.

  \<^bold>\<open>Not modelled.\<close>  The threads and locks, the node tree with its control interface, the storage of the
  configuration, the modules of transports, data bases and user interfaces (system calls, client
  libraries, Qt), the generated and vendored code (the parser of JavaLikeCalc, libnodave), and the stacks of
  OPC UA and MMS.  The text of a double (\<open>snprintf\<close>, \<open>atof\<close>) is a parameter.  The manifest lists every part.
\<close>

end
